(* ===== verification/Go_Steps.thy ===== *)
theory Go_Steps
  imports Main
begin

text \<open>
  Machines of interleaved steps: goroutines under a mutex, or calls one after another. A component states its
  steps as a relation and shows once that each of them keeps its invariant; the locale gives every run.
\<close>

locale safe_machine =
  fixes step :: "'s \<Rightarrow> 's \<Rightarrow> bool" and start :: "'s \<Rightarrow> bool" and inv :: "'s \<Rightarrow> bool"
  assumes start_inv: "start s \<Longrightarrow> inv s"
    and step_inv: "step s t \<Longrightarrow> inv s \<Longrightarrow> inv t"
begin

lemma run_inv: "step\<^sup>*\<^sup>* s t \<Longrightarrow> inv s \<Longrightarrow> inv t"
  by (induction rule: rtranclp_induct) (auto intro: step_inv)

lemma reach_inv: "step\<^sup>*\<^sup>* s t \<Longrightarrow> start s \<Longrightarrow> inv t"
  using run_inv start_inv by blast

text \<open>What every step of a run keeps, given the invariant, the run keeps.\<close>

lemma run_rel:
  assumes "step\<^sup>*\<^sup>* s t" "start s" and refl: "R s s" and trans: "\<And>u v. R s u \<Longrightarrow> inv u \<Longrightarrow> step u v \<Longrightarrow> R s v"
  shows "R s t"
proof -
  have "R s t \<and> inv t" using assms(1)
  proof (induction rule: rtranclp_induct)
    case base
    then show ?case using refl start_inv [OF assms(2)] by simp
  next
    case (step u v)
    then show ?case using trans [of u v] step_inv [of u v] by simp
  qed
  then show ?thesis ..
qed

end

end
