(* ===== verification/Go_Prelude.thy ===== *)
theory Go_Prelude
  imports Main "HOL-Library.Sublist" "HOL-Library.Char_ord" "HOL-Library.List_Lexorder"
begin

text \<open>
  The shared prelude of the development: the error values of Go, the part of the standard
  packages \<open>strings\<close> and \<open>strconv\<close> that the packages under src/ call, and the generic lemmas on
  them. A Go string and a Go byte slice are both \<^typ>\<open>string\<close>: a \<^typ>\<open>char\<close> is one byte, so
  \<^term>\<open>length\<close> is Go's \<open>len\<close>. An \<open>int\<close> of Go is an \<^typ>\<open>int\<close> with its 64-bit range written out
  where a conversion or an overflow can be seen.
\<close>

named_theorems go_simps \<open>unfolding rules for the models of the standard library\<close>

subsection \<open>Errors\<close>

text \<open>
  An \<open>error\<close> value. \<open>Wrapf\<close> is \<open>fmt.Errorf\<close> with a \<open>%w\<close> verb: its text and the error it wraps.
  \<open>Panic\<close> is a run-time panic, which ends the call that raises it.
\<close>

datatype go_error =
    ErrNotExist
  | ErrExist
  | ErrIO string
  | EOF
  | Errorf string
  | Wrapf string go_error
  | Panic string

type_synonym bytes = string
type_synonym 'a go_result = "go_error + 'a"

text \<open>The errors of an \<open>error\<close> chain, outermost first; \<open>errors.Is\<close> looks the target up in it.\<close>

fun error_chain :: "go_error \<Rightarrow> go_error list" where
  "error_chain (Wrapf s e) = Wrapf s e # error_chain e"
| "error_chain e = [e]"

definition errors_Is :: "go_error \<Rightarrow> go_error \<Rightarrow> bool" where
  "errors_Is e target \<longleftrightarrow> target \<in> set (error_chain e)"

subsection \<open>Package strings\<close>

definition strings_HasPrefix :: "string \<Rightarrow> string \<Rightarrow> bool" where
  "strings_HasPrefix s p \<longleftrightarrow> take (length p) s = p"

definition strings_HasSuffix :: "string \<Rightarrow> string \<Rightarrow> bool" where
  "strings_HasSuffix s p \<longleftrightarrow> length p \<le> length s \<and> drop (length s - length p) s = p"

fun strings_Contains :: "string \<Rightarrow> string \<Rightarrow> bool" where
  "strings_Contains [] sub \<longleftrightarrow> sub = []"
| "strings_Contains (c # s) sub \<longleftrightarrow> strings_HasPrefix (c # s) sub \<or> strings_Contains s sub"

definition strings_ContainsAny :: "string \<Rightarrow> string \<Rightarrow> bool" where
  "strings_ContainsAny s chars \<longleftrightarrow> list_ex (\<lambda>c. c \<in> set chars) s"

text \<open>\<open>strings.Split\<close> with a separator of one byte, and \<open>strings.SplitN(s, sep, 2)\<close>.\<close>

fun strings_Split :: "char \<Rightarrow> string \<Rightarrow> string list" where
  "strings_Split c [] = [[]]"
| "strings_Split c (x # xs) =
     (if x = c then [] # strings_Split c xs
      else (case strings_Split c xs of [] \<Rightarrow> [[x]] | l # ls \<Rightarrow> (x # l) # ls))"

definition strings_SplitN2 :: "char \<Rightarrow> string \<Rightarrow> string list" where
  "strings_SplitN2 c s =
     (if c \<in> set s then [takeWhile (\<lambda>x. x \<noteq> c) s, tl (dropWhile (\<lambda>x. x \<noteq> c) s)] else [s])"

fun strings_Join :: "string \<Rightarrow> string list \<Rightarrow> string" where
  "strings_Join sep [] = []"
| "strings_Join sep [x] = x"
| "strings_Join sep (x # y # ys) = x @ sep @ strings_Join sep (y # ys)"

text \<open>The trimming functions; the cut sets of the sources are ASCII.\<close>

definition strings_TrimLeft :: "string \<Rightarrow> string \<Rightarrow> string" where
  "strings_TrimLeft s cutset = dropWhile (\<lambda>c. c \<in> set cutset) s"

definition strings_TrimRight :: "string \<Rightarrow> string \<Rightarrow> string" where
  "strings_TrimRight s cutset = rev (dropWhile (\<lambda>c. c \<in> set cutset) (rev s))"

definition strings_TrimPrefix :: "string \<Rightarrow> string \<Rightarrow> string" where
  "strings_TrimPrefix s p = (if strings_HasPrefix s p then drop (length p) s else s)"

definition strings_TrimSuffix :: "string \<Rightarrow> string \<Rightarrow> string" where
  "strings_TrimSuffix s p = (if strings_HasSuffix s p then take (length s - length p) s else s)"

text \<open>
  \<open>strings.TrimSpace\<close> removes the white space of Unicode at both ends. The list holds the UTF-8
  encodings: six ASCII bytes, U+0085, U+00A0, U+1680, U+2000 to U+200A, U+2028, U+2029, U+202F,
  U+205F and U+3000.
\<close>

definition ascii_spaces :: string where
  "ascii_spaces = [CHR 0x09, CHR 0x0A, CHR 0x0B, CHR 0x0C, CHR 0x0D, CHR 0x20]"

definition utf8_spaces :: "string list" where
  "utf8_spaces =
     map (\<lambda>c. [c]) ascii_spaces @
     [[CHR 0xC2, CHR 0x85], [CHR 0xC2, CHR 0xA0], [CHR 0xE1, CHR 0x9A, CHR 0x80]] @
     map (\<lambda>c. [CHR 0xE2, CHR 0x80, c])
       [CHR 0x80, CHR 0x81, CHR 0x82, CHR 0x83, CHR 0x84, CHR 0x85, CHR 0x86, CHR 0x87,
        CHR 0x88, CHR 0x89, CHR 0x8A, CHR 0xA8, CHR 0xA9, CHR 0xAF] @
     [[CHR 0xE2, CHR 0x81, CHR 0x9F], [CHR 0xE3, CHR 0x80, CHR 0x80]]"

text \<open>Strip any of the non-empty words of \<open>ws\<close> from the front, as often as one is there.\<close>

function trim_words :: "string list \<Rightarrow> string \<Rightarrow> string" where
  "trim_words ws s =
     (case find (\<lambda>w. w \<noteq> [] \<and> strings_HasPrefix s w) ws of
        None \<Rightarrow> s
      | Some w \<Rightarrow> trim_words ws (drop (length w) s))"
  by pat_completeness auto
termination
proof (relation "measure (\<lambda>(ws, s). length s)")
  show "wf (measure (\<lambda>(ws :: string list, s :: string). length s))" by simp
next
  fix ws :: "string list" and s w :: string
  assume "find (\<lambda>w. w \<noteq> [] \<and> strings_HasPrefix s w) ws = Some w"
  then have w: "w \<noteq> []" "strings_HasPrefix s w"
    by (auto simp: find_Some_iff)
  then have "s \<noteq> []" by (auto simp: strings_HasPrefix_def)
  with w show "((ws, drop (length w) s), ws, s) \<in> measure (\<lambda>(ws, s). length s)" by simp
qed

declare trim_words.simps [simp del]

definition strings_TrimSpace :: "string \<Rightarrow> string" where
  "strings_TrimSpace s =
     rev (trim_words (map rev utf8_spaces) (rev (trim_words utf8_spaces s)))"

text \<open>\<open>strings.ReplaceAll\<close> for a non-empty \<open>old\<close>.\<close>

function strings_ReplaceAll :: "string \<Rightarrow> string \<Rightarrow> string \<Rightarrow> string" where
  "strings_ReplaceAll [] old new = []"
| "strings_ReplaceAll (c # s) old new =
     (if old \<noteq> [] \<and> strings_HasPrefix (c # s) old
      then new @ strings_ReplaceAll (drop (length old) (c # s)) old new
      else c # strings_ReplaceAll s old new)"
  by pat_completeness auto
termination
  by (relation "measure (\<lambda>(s, old, new). length s)") auto

text \<open>
  Case mapping. On ASCII strings it is the obvious one; \<open>uni\<close> stands for Go's Unicode tables on
  every other string.
\<close>

definition is_ascii :: "char \<Rightarrow> bool" where
  "is_ascii c \<longleftrightarrow> of_char c < (128 :: nat)"

definition ascii_upper :: "char \<Rightarrow> char" where
  "ascii_upper c = (let n = of_char c :: nat in if 97 \<le> n \<and> n \<le> 122 then char_of (n - 32) else c)"

definition ascii_lower :: "char \<Rightarrow> char" where
  "ascii_lower c = (let n = of_char c :: nat in if 65 \<le> n \<and> n \<le> 90 then char_of (n + 32) else c)"

definition strings_ToLower :: "(string \<Rightarrow> string) \<Rightarrow> string \<Rightarrow> string" where
  "strings_ToLower uni s = (if list_all is_ascii s then map ascii_lower s else uni s)"

definition strings_ToUpper :: "(string \<Rightarrow> string) \<Rightarrow> string \<Rightarrow> string" where
  "strings_ToUpper uni s = (if list_all is_ascii s then map ascii_upper s else uni s)"

subsection \<open>Package strconv\<close>

definition is_digit :: "char \<Rightarrow> bool" where
  "is_digit c \<longleftrightarrow> 48 \<le> (of_char c :: nat) \<and> (of_char c :: nat) \<le> 57"

definition digit_val :: "char \<Rightarrow> nat" where
  "digit_val c = of_char c - 48"

definition digits_val :: "string \<Rightarrow> nat" where
  "digits_val ds = foldl (\<lambda>n c. 10 * n + digit_val c) 0 ds"

definition min_int64 :: int where "min_int64 = - (2 ^ 63)"
definition max_int64 :: int where "max_int64 = 2 ^ 63 - 1"

definition in_int64 :: "int \<Rightarrow> bool" where
  "in_int64 n \<longleftrightarrow> min_int64 \<le> n \<and> n \<le> max_int64"

text \<open>Two's complement wrap-around of a 64-bit signed integer.\<close>

definition wrap64 :: "int \<Rightarrow> int" where
  "wrap64 n = (n + 2 ^ 63) mod 2 ^ 64 - 2 ^ 63"

text \<open>
  \<open>strconv.Atoi\<close>: an optional sign, then one or more decimal digits, in the range of a 64-bit
  \<open>int\<close>; \<^const>\<open>None\<close> is the error.
\<close>

definition strconv_Atoi :: "string \<Rightarrow> int option" where
  "strconv_Atoi s =
     (let (neg, ds) = (case s of [] \<Rightarrow> (False, [])
                       | c # r \<Rightarrow> if c = CHR ''-'' then (True, r)
                                  else if c = CHR ''+'' then (False, r) else (False, s))
      in if ds = [] \<or> \<not> list_all is_digit ds then None
         else let n = (if neg then - int (digits_val ds) else int (digits_val ds))
              in if in_int64 n then Some n else None)"

text \<open>
  \<open>strconv.ParseUint(s, 10, 64)\<close> with its error dropped: 0 on a syntax error, the largest value
  when out of range.
\<close>

definition strconv_ParseUint :: "string \<Rightarrow> nat" where
  "strconv_ParseUint s =
     (if s = [] \<or> \<not> list_all is_digit s then 0
      else min (digits_val s) (2 ^ 64 - 1))"

fun nat_digits :: "nat \<Rightarrow> string" where
  "nat_digits n = (if n < 10 then [char_of (48 + n)] else nat_digits (n div 10) @ [char_of (48 + n mod 10)])"

declare nat_digits.simps [simp del]

definition strconv_Itoa :: "int \<Rightarrow> string" where
  "strconv_Itoa n = (if n < 0 then CHR ''-'' # nat_digits (nat (- n)) else nat_digits (nat n))"

abbreviation nl :: char where "nl \<equiv> CHR 0x0A"
abbreviation cr :: char where "cr \<equiv> CHR 0x0D"

subsection \<open>Lines\<close>

text \<open>
  \<open>bufio.Scanner\<close> with \<open>ScanLines\<close>: the lines between newlines, without a last empty one; each is
  delivered without one trailing carriage return.
\<close>

definition raw_lines :: "bytes \<Rightarrow> bytes list" where
  "raw_lines data = (let ls = strings_Split nl data in if last ls = [] then butlast ls else ls)"

definition drop_cr :: "bytes \<Rightarrow> bytes" where
  "drop_cr line = (if line \<noteq> [] \<and> last line = cr then butlast line else line)"

subsection \<open>Lemmas: prefixes, suffixes and substrings\<close>

lemma HasPrefix_iff [simp]: "strings_HasPrefix s p \<longleftrightarrow> prefix p s"
  by (auto simp: strings_HasPrefix_def prefix_def) (metis append_take_drop_id)

lemma HasSuffix_iff [simp]: "strings_HasSuffix s p \<longleftrightarrow> suffix p s"
  by (auto simp: strings_HasSuffix_def suffix_def)
     (metis append_take_drop_id)

lemma Contains_iff: "strings_Contains s sub \<longleftrightarrow> (\<exists>a b. s = a @ sub @ b)"
proof (induction s)
  case Nil
  then show ?case by auto
next
  case (Cons c s)
  have "(\<exists>a b. c # s = a @ sub @ b) \<longleftrightarrow> prefix sub (c # s) \<or> (\<exists>a b. s = a @ sub @ b)"
    by (auto simp: prefix_def Cons_eq_append_conv)
  with Cons show ?case by simp
qed

lemma Contains_single [simp]: "strings_Contains s [c] \<longleftrightarrow> c \<in> set s"
  by (auto simp: Contains_iff in_set_conv_decomp)

subsection \<open>Lemmas: Split and Join\<close>

lemma Split_not_Nil [simp]: "strings_Split c s \<noteq> []"
  by (induction s) (auto split: list.splits)

lemma Split_no_sep: "c \<notin> set s \<Longrightarrow> strings_Split c s = [s]"
  by (induction s) auto

lemma Split_parts_no_sep: "l \<in> set (strings_Split c s) \<Longrightarrow> c \<notin> set l"
  by (induction s arbitrary: l) (auto split: list.splits if_splits)

lemma Split_append:
  "strings_Split c (xs @ c # ys) = strings_Split c xs @ strings_Split c ys"
  by (induction xs) (auto split: list.splits)

lemma Split_Cons_sep: "strings_Split c (c # ys) = [] # strings_Split c ys"
  by simp

lemma Split_append_hd:
  "strings_Split c (xs @ ys) =
     butlast (strings_Split c xs) @ (last (strings_Split c xs) @ hd (strings_Split c ys)) # tl (strings_Split c ys)"
proof (induction xs)
  case Nil
  show ?case by (simp add: list.expand)
next
  case (Cons x xs)
  show ?case
  proof (cases "x = c")
    case True
    with Cons show ?thesis by simp
  next
    case False
    obtain l ls where "strings_Split c xs = l # ls" by (cases "strings_Split c xs") auto
    with Cons False show ?thesis by (cases ls) auto
  qed
qed

lemma Join_Split [simp]: "strings_Join [c] (strings_Split c s) = s"
proof (induction s)
  case Nil
  show ?case by simp
next
  case (Cons x s)
  obtain l ls where ls: "strings_Split c s = l # ls" by (cases "strings_Split c s") auto
  from Cons ls show ?case by (cases ls) auto
qed

lemma Split_Join:
  assumes "ls \<noteq> []" and "\<And>l. l \<in> set ls \<Longrightarrow> c \<notin> set l"
  shows "strings_Split c (strings_Join [c] ls) = ls"
  using assms
proof (induction "[c]" ls rule: strings_Join.induct)
  case (3 x y ys)
  have "strings_Split c (x @ c # strings_Join [c] (y # ys)) =
      strings_Split c x @ strings_Split c (strings_Join [c] (y # ys))"
    by (rule Split_append)
  with 3 show ?case by (auto simp: Split_no_sep)
qed (auto simp: Split_no_sep)

lemma Split_lines:
  assumes "\<And>l. l \<in> set ls \<Longrightarrow> c \<notin> set l"
  shows "strings_Split c (concat (map (\<lambda>l. l @ [c]) ls) @ rest) = ls @ strings_Split c rest"
  using assms by (induction ls) (auto simp: Split_append Split_no_sep)

lemma Split_eq_singleton: "strings_Split c s = [l] \<longleftrightarrow> c \<notin> set s \<and> l = s"
proof
  assume split: "strings_Split c s = [l]"
  show "c \<notin> set s \<and> l = s"
  proof (cases "c \<in> set s")
    case True
    then obtain xs ys where "s = xs @ c # ys" by (auto simp: in_set_conv_decomp)
    with split have "strings_Split c xs @ strings_Split c ys = [l]" by (simp add: Split_append)
    then show ?thesis by (simp add: append_eq_Cons_conv)
  next
    case False
    with split show ?thesis by (simp add: Split_no_sep)
  qed
qed (auto simp: Split_no_sep)

lemma set_Join:
  "set (strings_Join sep ls) \<subseteq> set sep \<union> (\<Union>l \<in> set ls. set l)"
  by (induction sep ls rule: strings_Join.induct) auto

subsection \<open>Lemmas: decimal numerals\<close>

lemma is_digit_char_of [simp]: "(n :: nat) < 10 \<Longrightarrow> is_digit (char_of (48 + n))"
  by (simp add: is_digit_def)

lemma digit_val_char_of [simp]: "n < 10 \<Longrightarrow> digit_val (char_of (48 + n)) = n"
  by (simp add: digit_val_def)

lemma digits_val_snoc [simp]: "digits_val (ds @ [c]) = 10 * digits_val ds + digit_val c"
  by (simp add: digits_val_def)

lemma digits_val_nat_digits [simp]: "digits_val (nat_digits n) = n"
proof (induction n rule: nat_digits.induct)
  case (1 n)
  show ?case
  proof (cases "n < 10")
    case True
    then show ?thesis by (subst nat_digits.simps) (simp add: digits_val_def)
  next
    case False
    with 1 have "digits_val (nat_digits (n div 10)) = n div 10" by simp
    with False show ?thesis by (subst nat_digits.simps) simp
  qed
qed

lemma nat_digits_all_digits [simp]: "list_all is_digit (nat_digits n)"
proof (induction n rule: nat_digits.induct)
  case (1 n)
  then show ?case by (subst nat_digits.simps) simp
qed

lemma nat_digits_not_Nil [simp]: "nat_digits n \<noteq> []"
  by (subst nat_digits.simps) simp

lemma digit_not_sign: "is_digit c \<Longrightarrow> c \<noteq> CHR ''-'' \<and> c \<noteq> CHR ''+'' \<and> c \<noteq> CHR '':''"
  by (auto simp: is_digit_def)

lemma digit_notin_nat_digits: "\<not> is_digit c \<Longrightarrow> c \<notin> set (nat_digits n)"
  using nat_digits_all_digits [of n] by (auto simp: list_all_iff)

lemma Atoi_nat_digits: "int n \<le> max_int64 \<Longrightarrow> strconv_Atoi (nat_digits n) = Some (int n)"
proof -
  assume n: "int n \<le> max_int64"
  obtain c r where cr: "nat_digits n = c # r" by (cases "nat_digits n") auto
  with nat_digits_all_digits [of n] have "is_digit c" by simp
  then have "c \<noteq> CHR ''-''" "c \<noteq> CHR ''+''" by (auto dest: digit_not_sign)
  with cr have "strconv_Atoi (nat_digits n) =
      (let m = int (digits_val (nat_digits n)) in if in_int64 m then Some m else None)"
    using nat_digits_all_digits [of n] by (simp add: strconv_Atoi_def)
  with n show ?thesis by (simp add: in_int64_def min_int64_def)
qed

lemma Atoi_Itoa: "in_int64 n \<Longrightarrow> strconv_Atoi (strconv_Itoa n) = Some n"
proof (cases "n < 0")
  case True
  assume "in_int64 n"
  with True show ?thesis by (simp add: strconv_Itoa_def strconv_Atoi_def)
next
  case False
  assume "in_int64 n"
  with False show ?thesis
    using Atoi_nat_digits [of "nat n"] by (simp add: strconv_Itoa_def in_int64_def)
qed

lemma Atoi_range: "strconv_Atoi s = Some n \<Longrightarrow> in_int64 n"
  by (auto simp: strconv_Atoi_def Let_def split: if_splits prod.splits)

lemma wrap64_id: "in_int64 n \<Longrightarrow> wrap64 n = n"
  by (simp add: wrap64_def in_int64_def min_int64_def max_int64_def)

lemma wrap64_range: "in_int64 (wrap64 n)"
  by (simp add: wrap64_def in_int64_def min_int64_def max_int64_def)
end
