(* ===== verification/Go_Path.thy ===== *)
theory Go_Path
  imports Go_Prelude
begin

text \<open>
  Package \<open>path/filepath\<close> on a Unix system. A cleaned path is a \<open>pkey\<close>: whether it is rooted and the
  list of its elements, where \<open>..\<close> can only be leading elements of a path that is not rooted.
  \<open>Clean\<close>, \<open>Join\<close>, \<open>Dir\<close>, \<open>Base\<close>, \<open>Rel\<close> and \<open>IsAbs\<close> are stated through it.
\<close>

type_synonym pkey = "bool \<times> string list"

abbreviation slash :: char where "slash \<equiv> CHR ''/''"

definition path_elems :: "string \<Rightarrow> string list" where
  "path_elems p = filter (\<lambda>e. e \<noteq> [] \<and> e \<noteq> ''.'') (strings_Split slash p)"

fun push_elem :: "bool \<Rightarrow> string list \<Rightarrow> string \<Rightarrow> string list" where
  "push_elem rooted acc e =
     (if e = ''..'' then
        (if acc \<noteq> [] \<and> last acc \<noteq> ''..'' then butlast acc
         else if rooted then acc else acc @ [e])
      else acc @ [e])"

definition filepath_IsAbs :: "string \<Rightarrow> bool" where
  "filepath_IsAbs p \<longleftrightarrow> prefix [slash] p"

definition path_key :: "string \<Rightarrow> pkey" where
  "path_key p = (filepath_IsAbs p, foldl (push_elem (filepath_IsAbs p)) [] (path_elems p))"

fun render :: "pkey \<Rightarrow> string" where
  "render (rooted, es) =
     (if rooted then slash # strings_Join [slash] es
      else if es = [] then ''.'' else strings_Join [slash] es)"

definition filepath_Clean :: "string \<Rightarrow> string" where
  "filepath_Clean p = render (path_key p)"

definition filepath_Join :: "string list \<Rightarrow> string" where
  "filepath_Join es =
     (let ne = filter (\<lambda>e. e \<noteq> []) es in if ne = [] then [] else filepath_Clean (strings_Join [slash] ne))"

text \<open>Everything up to and including the last slash; what follows it.\<close>

definition dir_part :: "string \<Rightarrow> string" where
  "dir_part p = rev (dropWhile (\<lambda>c. c \<noteq> slash) (rev p))"

definition filepath_Dir :: "string \<Rightarrow> string" where
  "filepath_Dir p = filepath_Clean (dir_part p)"

definition filepath_Base :: "string \<Rightarrow> string" where
  "filepath_Base p =
     (if p = [] then ''.''
      else let q = strings_TrimRight p [slash]
           in if q = [] then [slash] else rev (takeWhile (\<lambda>c. c \<noteq> slash) (rev q)))"

text \<open>The suffix from the last dot of the last element.\<close>

definition filepath_Ext :: "string \<Rightarrow> string" where
  "filepath_Ext p =
     (let e = rev (takeWhile (\<lambda>c. c \<noteq> slash) (rev p))
      in if CHR ''.'' \<in> set e then CHR ''.'' # rev (takeWhile (\<lambda>c. c \<noteq> CHR ''.'') (rev e)) else [])"

text \<open>
  \<open>Rel\<close> compares the cleaned paths element by element. A base of \<open>.\<close> is empty; a target of \<open>.\<close>
  counts as the one element it is written with.
\<close>

fun strip_common :: "string list \<Rightarrow> string list \<Rightarrow> string list \<times> string list" where
  "strip_common (b # bs) (t # ts) = (if b = t then strip_common bs ts else (b # bs, t # ts))"
| "strip_common bs ts = (bs, ts)"

definition rel_elems :: "string list \<Rightarrow> string list \<Rightarrow> string list option" where
  "rel_elems bs ts =
     (case strip_common bs ts of (b, t) \<Rightarrow>
        if b \<noteq> [] \<and> hd b = ''..'' then None else Some (replicate (length b) ''..'' @ t))"

definition filepath_Rel :: "string \<Rightarrow> string \<Rightarrow> string go_result" where
  "filepath_Rel base targ =
     (let (br, bs) = path_key base; (tr, ts) = path_key targ
      in if (br, bs) = (tr, ts) then Inr ''.''
         else if br \<noteq> tr then Inl (Errorf ''Rel: can't make target relative to base'')
         else case rel_elems bs (if ts = [] \<and> \<not> tr then [''.''] else ts) of
                None \<Rightarrow> Inl (Errorf ''Rel: can't make target relative to base'')
              | Some es \<Rightarrow> Inr (strings_Join [slash] es))"

subsection \<open>Cleaned paths\<close>

text \<open>What an element of a cleaned path looks like.\<close>

definition elem_ok :: "string \<Rightarrow> bool" where
  "elem_ok e \<longleftrightarrow> e \<noteq> [] \<and> e \<noteq> ''.'' \<and> slash \<notin> set e"

definition clean_elems :: "bool \<Rightarrow> string list \<Rightarrow> bool" where
  "clean_elems rooted es \<longleftrightarrow> list_all elem_ok es \<and>
     (\<exists>k ns. es = replicate k ''..'' @ ns \<and> ''..'' \<notin> set ns \<and> (rooted \<longrightarrow> k = 0))"

lemma elem_ok_dotdot [simp]: "elem_ok ''..''"
  by (simp add: elem_ok_def)

lemma path_elems_ok: "list_all elem_ok (path_elems p)"
  by (auto simp: path_elems_def list_all_iff elem_ok_def dest: Split_parts_no_sep)

lemma clean_elemsI:
  "list_all elem_ok ns \<Longrightarrow> ''..'' \<notin> set ns \<Longrightarrow> (r \<Longrightarrow> k = 0) \<Longrightarrow> clean_elems r (replicate k ''..'' @ ns)"
  unfolding clean_elems_def by (auto simp: list_all_iff)

lemma push_elem_clean:
  assumes "clean_elems rooted acc" and "elem_ok e"
  shows "clean_elems rooted (push_elem rooted acc e)"
proof -
  from assms obtain k ns where acc: "acc = replicate k ''..'' @ ns" "''..'' \<notin> set ns" "rooted \<longrightarrow> k = 0"
    and ok: "list_all elem_ok acc"
    unfolding clean_elems_def by blast
  consider (up) "e = ''..''" "ns \<noteq> []" | (top) "e = ''..''" "ns = []" | (down) "e \<noteq> ''..''" by auto
  then show ?thesis
  proof cases
    case up
    with acc have "acc \<noteq> []" "last acc \<noteq> ''..''" by (auto dest: last_in_set)
    with up acc ok have "push_elem rooted acc e = replicate k ''..'' @ butlast ns"
      by (simp add: butlast_append)
    with acc ok show ?thesis by (auto simp: clean_elems_def list_all_iff dest: in_set_butlastD)
  next
    case top
    with acc have "acc \<noteq> [] \<longrightarrow> last acc = ''..''" by (auto simp: replicate_append_same)
    with top acc ok have "push_elem rooted acc e = (if rooted then acc else acc @ [''..''])" by auto
    moreover have "acc @ [''..''] = replicate (Suc k) ''..'' @ []"
      using acc top by (simp add: replicate_append_same)
    moreover have "clean_elems False (replicate (Suc k) ''..'' @ [])" by (rule clean_elemsI) auto
    ultimately show ?thesis using assms(1) by (cases rooted) simp_all
  next
    case down
    then have "push_elem rooted acc e = replicate k ''..'' @ (ns @ [e])" using acc by simp
    moreover have "clean_elems rooted (replicate k ''..'' @ (ns @ [e]))"
      using acc ok down assms(2) by (intro clean_elemsI) auto
    ultimately show ?thesis by simp
  qed
qed

lemma foldl_push_clean:
  "clean_elems rooted acc \<Longrightarrow> list_all elem_ok es \<Longrightarrow> clean_elems rooted (foldl (push_elem rooted) acc es)"
  by (induction es arbitrary: acc) (auto simp del: push_elem.simps intro: push_elem_clean)

lemma path_key_clean: "path_key p = (r, es) \<Longrightarrow> clean_elems r es"
proof -
  assume "path_key p = (r, es)"
  then have "es = foldl (push_elem r) [] (path_elems p)" by (auto simp: path_key_def)
  moreover have "clean_elems r []" by (auto simp: clean_elems_def)
  ultimately show ?thesis using foldl_push_clean path_elems_ok by blast
qed

lemma foldl_push_dots:
  "foldl (push_elem False) (replicate j ''..'') (replicate k ''..'') = replicate (j + k) ''..''"
proof (induction k arbitrary: j)
  case (Suc k)
  have "push_elem False (replicate j ''..'') ''..'' = replicate (Suc j) ''..''"
    by (auto simp: replicate_append_same)
  with Suc [of "Suc j"] show ?case by simp
qed simp

lemma foldl_push_names:
  "''..'' \<notin> set ns \<Longrightarrow> foldl (push_elem r) acc ns = acc @ ns"
  by (induction ns arbitrary: acc) auto

lemma foldl_push_self: "clean_elems r es \<Longrightarrow> foldl (push_elem r) [] es = es"
proof -
  assume "clean_elems r es"
  then obtain k ns where es: "es = replicate k ''..'' @ ns" "''..'' \<notin> set ns" "r \<longrightarrow> k = 0"
    unfolding clean_elems_def by blast
  have "foldl (push_elem r) [] (replicate k ''..'') = replicate k ''..''"
    using es(3) foldl_push_dots [of 0 k] by (cases r) auto
  with es show ?thesis by (simp add: foldl_push_names)
qed

lemma filter_elem_ok: "list_all elem_ok es \<Longrightarrow> filter (\<lambda>e. e \<noteq> [] \<and> e \<noteq> ''.'') es = es"
  by (simp add: filter_id_conv list_all_iff elem_ok_def)

lemma path_elems_Join: "list_all elem_ok es \<Longrightarrow> path_elems (strings_Join [slash] es) = es"
proof (cases "es = []")
  case False
  assume ok: "list_all elem_ok es"
  then have "strings_Split slash (strings_Join [slash] es) = es"
    using False by (intro Split_Join) (auto simp: list_all_iff elem_ok_def)
  with ok show ?thesis by (simp only: path_elems_def filter_elem_ok)
qed (simp add: path_elems_def)

lemma path_elems_slash: "path_elems (a @ slash # b) = path_elems a @ path_elems b"
  by (simp add: path_elems_def Split_append)

lemma Join_not_abs: "list_all elem_ok es \<Longrightarrow> \<not> filepath_IsAbs (strings_Join [slash] es)"
proof -
  have "x @ ys \<noteq> slash # zs" if "elem_ok x" for x ys zs
    using that by (cases x) (auto simp: elem_ok_def)
  moreover assume "list_all elem_ok es"
  ultimately show ?thesis
    by (cases "([slash], es)" rule: strings_Join.cases)
       (auto simp: filepath_IsAbs_def prefix_def elem_ok_def)
qed

lemma path_key_render: "clean_elems r es \<Longrightarrow> path_key (render (r, es)) = (r, es)"
proof -
  assume c: "clean_elems r es"
  then have ok: "list_all elem_ok es" by (simp add: clean_elems_def)
  show ?thesis
  proof (cases r)
    case True
    have "path_elems (slash # strings_Join [slash] es) = es"
      using path_elems_slash [of "[]"] path_elems_Join [OF ok] by (simp add: path_elems_def)
    moreover have "filepath_IsAbs (slash # strings_Join [slash] es)" by (simp add: filepath_IsAbs_def)
    ultimately show ?thesis using True c by (simp add: path_key_def foldl_push_self)
  next
    case False
    show ?thesis
    proof (cases "es = []")
      case True
      with False show ?thesis by (simp add: path_key_def filepath_IsAbs_def path_elems_def)
    next
      case nonempty: False
      with False ok Join_not_abs [OF ok] c show ?thesis
        by (simp add: path_key_def path_elems_Join foldl_push_self)
    qed
  qed
qed

lemma path_key_Clean [simp]: "path_key (filepath_Clean p) = path_key p"
proof -
  obtain r es where k: "path_key p = (r, es)" by fastforce
  then show ?thesis using path_key_render [OF path_key_clean [OF k]] by (simp add: filepath_Clean_def)
qed

lemma render_not_Nil [simp]: "clean_elems r es \<Longrightarrow> render (r, es) \<noteq> []"
proof -
  assume "clean_elems r es"
  then have ok: "list_all elem_ok es" by (simp add: clean_elems_def)
  show ?thesis
  proof (cases es)
    case (Cons e es')
    with ok have "e \<noteq> []" by (simp add: elem_ok_def)
    with Cons show ?thesis by (cases es') auto
  qed simp
qed

lemma Clean_not_Nil [simp]: "filepath_Clean p \<noteq> []"
proof -
  obtain r es where k: "path_key p = (r, es)" by fastforce
  then show ?thesis using render_not_Nil [OF path_key_clean [OF k]] by (simp add: filepath_Clean_def)
qed

lemma path_key_slash:
  "a \<noteq> [] \<Longrightarrow> path_key (a @ slash # b) =
     (fst (path_key a), foldl (push_elem (fst (path_key a))) (snd (path_key a)) (path_elems b))"
  by (cases a) (simp_all add: path_key_def path_elems_slash [of a] filepath_IsAbs_def
      path_elems_slash [of "_ # _", simplified])

lemma path_key_Join2:
  assumes "a \<noteq> []"
  shows "path_key (filepath_Join [a, b]) =
     (fst (path_key a), foldl (push_elem (fst (path_key a))) (snd (path_key a)) (path_elems b))"
proof (cases "b = []")
  case True
  with assms show ?thesis by (simp add: filepath_Join_def path_elems_def)
next
  case False
  with assms show ?thesis by (simp add: filepath_Join_def path_key_slash)
qed

lemma strip_common_spec: "strip_common bs ts = (b, t) \<Longrightarrow> \<exists>c. bs = c @ b \<and> ts = c @ t"
proof (induction bs ts rule: strip_common.induct)
  case (1 b' bs t' ts)
  show ?case
  proof (cases "b' = t'")
    case True
    with 1 obtain c where "bs = c @ b \<and> ts = c @ t" by auto
    with True have "b' # bs = (b' # c) @ b \<and> t' # ts = (b' # c) @ t" by simp
    then show ?thesis by blast
  qed (use 1 in auto)
qed auto

lemma strip_common_prefix: "strip_common bs (bs @ ts) = ([], ts)"
  by (induction bs) auto

lemma clean_suffix_no_dotdot:
  assumes "clean_elems r (ds @ t)" and "t = [] \<or> hd t \<noteq> ''..''"
  shows "''..'' \<notin> set t"
proof
  assume "''..'' \<in> set t"
  then obtain x xs where t: "t = x # xs" by (cases t) auto
  from assms(1) obtain k ns where ns: "ds @ t = replicate k ''..'' @ ns" "''..'' \<notin> set ns"
    unfolding clean_elems_def by blast
  show False
  proof (cases "length ds < k")
    case True
    then have "(ds @ t) ! length ds = ''..''" using ns(1) by (simp add: nth_append)
    with t assms(2) show False by simp
  next
    case False
    then have "t = drop (length ds - k) ns"
      using arg_cong [OF ns(1), of "drop (length ds)"] by simp
    then have "set t \<subseteq> set ns" by (simp add: set_drop_subset)
    with \<open>''..'' \<in> set t\<close> ns(2) show False by auto
  qed
qed

subsection \<open>A directory and a name\<close>

lemma strings_Join_snoc: "strings_Join sep (es @ [e]) = (if es = [] then e else strings_Join sep es @ sep @ e)"
  by (induction sep es rule: strings_Join.induct) auto

text \<open>The text of a joined path: what ends in a slash, or nothing, then the name.\<close>

lemma Join_name:
  assumes "a \<noteq> []" "elem_ok e" "e \<noteq> ''..''"
  obtains pre where "filepath_Join [a, e] = pre @ e" "pre = [] \<or> last pre = slash" "path_key pre = path_key a"
proof -
  obtain r es where k: "path_key a = (r, es)" by fastforce
  have c: "clean_elems r es" using path_key_clean [OF k] .
  have "path_elems e = [e]" using path_elems_Join [of "[e]"] assms(2) by simp
  then have "path_key (filepath_Join [a, e]) = (r, es @ [e])"
    using assms k by (simp add: path_key_Join2)
  moreover have "e \<noteq> []" using assms(2) by (simp add: elem_ok_def)
  ultimately have j: "filepath_Join [a, e] = render (r, es @ [e])"
    using assms(1) path_key_Clean by (simp add: filepath_Join_def filepath_Clean_def)
  let ?pre = "(if r then [slash] else []) @ (if es = [] then [] else strings_Join [slash] es @ [slash])"
  have joined: "filepath_Join [a, e] = ?pre @ e" using j by (simp add: strings_Join_snoc)
  have ends: "?pre = [] \<or> last ?pre = slash" by auto
  have "path_key ?pre = (r, es)"
  proof (cases "es = []")
    case True
    then show ?thesis by (cases r) (simp_all add: path_key_def path_elems_def filepath_IsAbs_def)
  next
    case False
    have "path_key (render (r, es) @ slash # []) = (r, es)"
      using path_key_slash [of "render (r, es)" "[]"] render_not_Nil [OF c] path_key_render [OF c]
      by (simp add: path_elems_def)
    with False show ?thesis by (cases r) simp_all
  qed
  then have key: "path_key ?pre = path_key a" using k by simp
  show thesis using joined ends key by (rule that)
qed

lemma TrimRight_none: "e \<noteq> [] \<Longrightarrow> last e \<notin> set cs \<Longrightarrow> strings_TrimRight (pre @ e) cs = pre @ e"
  by (cases e rule: rev_cases) (simp_all add: strings_TrimRight_def)

lemma Base_Dir_Join:
  assumes "a \<noteq> []" "elem_ok e" "e \<noteq> ''..''"
  shows "filepath_Base (filepath_Join [a, e]) = e" "path_key (filepath_Dir (filepath_Join [a, e])) = path_key a"
proof -
  obtain pre where pre: "filepath_Join [a, e] = pre @ e" "pre = [] \<or> last pre = slash" "path_key pre = path_key a"
    using Join_name [OF assms] .
  have e: "e \<noteq> []" "\<forall>c\<in>set (rev e). c \<noteq> slash" using assms(2) by (auto simp: elem_ok_def)
  have rp: "rev pre = [] \<or> hd (rev pre) = slash" using pre(2) by (simp add: hd_rev)
  have tw: "takeWhile (\<lambda>c. c \<noteq> slash) (rev e @ rev pre) = rev e"
    "dropWhile (\<lambda>c. c \<noteq> slash) (rev e @ rev pre) = rev pre"
    using e(2) rp by (cases "rev pre"; simp add: takeWhile_append dropWhile_append)+
  have "last e \<notin> set [slash]" using e by (cases e rule: rev_cases) auto
  then have "strings_TrimRight (pre @ e) [slash] = pre @ e" using e(1) by (rule TrimRight_none [rotated])
  then show "filepath_Base (filepath_Join [a, e]) = e" using e(1) tw(1) by (simp add: filepath_Base_def pre(1))
  show "path_key (filepath_Dir (filepath_Join [a, e])) = path_key a"
    using tw(2) pre(3) by (simp add: filepath_Dir_def dir_part_def pre(1))
qed

lemma path_key_name:
  assumes "a \<noteq> []" "elem_ok e" "e \<noteq> ''..''"
  shows "path_key (filepath_Join [a, e]) = (fst (path_key a), snd (path_key a) @ [e])"
proof -
  have "path_elems e = [e]" using path_elems_Join [of "[e]"] assms(2) by simp
  with assms show ?thesis by (simp add: path_key_Join2)
qed

end
