(* ===== verification/Go_OS.thy ===== *)
theory Go_OS
  imports Go_Path "HOL-Library.AList"
begin

text \<open>
  The file operations of package \<open>os\<close> over an explicit file system: a finite table from cleaned
  paths to nodes, and a table of faults that makes any system call fail with an error of the
  environment's choice (no permission, a full disk, a busy file). A directory on the way to a file
  is a real directory: only the last element of a path is followed through symbolic links.
\<close>

datatype node = RegFile bytes nat | Directory nat | SymLink string

datatype syscall =
    SysStat string | SysLstat string | SysReadlink string
  | SysOpen string | SysRead string | SysCreate string | SysWrite string
  | SysMkdir string | SysRemove string | SysRemoveAll string
  | SysRename string string | SysChmod string | SysReadDir string | SysClose string

record fs =
  nodes :: "(pkey \<times> node) list"
  faults :: "syscall \<Rightarrow> go_error option"

type_synonym 'a os = "fs \<Rightarrow> 'a go_result \<times> fs"

text \<open>A machine with no file on it, on which no call fails.\<close>

definition empty_fs :: fs where
  "empty_fs = \<lparr>nodes = [], faults = (\<lambda>_. None)\<rparr>"

subsection \<open>The table of nodes\<close>

text \<open>The root and the working directory are always there.\<close>

definition node_of :: "fs \<Rightarrow> pkey \<Rightarrow> node option" where
  "node_of f k = (if snd k = [] then Some (Directory 493) else map_of (nodes f) k)"

definition node_at :: "fs \<Rightarrow> string \<Rightarrow> node option" where
  "node_at f p = node_of f (path_key p)"

text \<open>The empty path names nothing, although it is cleaned to the working directory.\<close>

definition path_node :: "fs \<Rightarrow> string \<Rightarrow> node option" where
  "path_node f p = (if p = [] then None else node_at f p)"

text \<open>The two roots stay what they are.\<close>

definition put_node :: "pkey \<Rightarrow> node \<Rightarrow> fs \<Rightarrow> fs" where
  "put_node k n f = (if snd k = [] then f else f\<lparr>nodes := AList.update k n (nodes f)\<rparr>)"

text \<open>A path is at or below another one.\<close>

fun below :: "pkey \<Rightarrow> pkey \<Rightarrow> bool" where
  "below (r, es) (r', es') \<longleftrightarrow> r = r' \<and> take (length es) es' = es"

definition drop_tree :: "pkey \<Rightarrow> fs \<Rightarrow> fs" where
  "drop_tree k f = f\<lparr>nodes := filter (\<lambda>(k', n). \<not> below k k') (nodes f)\<rparr>"

definition rebase :: "pkey \<Rightarrow> pkey \<Rightarrow> pkey \<Rightarrow> pkey" where
  "rebase a b k = (fst b, snd b @ drop (length (snd a)) (snd k))"

definition move_tree :: "pkey \<Rightarrow> pkey \<Rightarrow> fs \<Rightarrow> fs" where
  "move_tree a b f =
     f\<lparr>nodes := map (\<lambda>(k, n). (rebase a b k, n)) (filter (\<lambda>(k, n). below a k) (nodes f))
        @ filter (\<lambda>(k, n). \<not> below a k \<and> \<not> below b k) (nodes f)\<rparr>"

fun parent :: "pkey \<Rightarrow> pkey" where
  "parent (r, es) = (r, butlast es)"

definition children :: "pkey \<Rightarrow> fs \<Rightarrow> pkey list" where
  "children k f = filter (\<lambda>k'. snd k' \<noteq> [] \<and> parent k' = k) (map fst (nodes f))"

subsection \<open>Looking\<close>

fun follow :: "nat \<Rightarrow> fs \<Rightarrow> string \<Rightarrow> string go_result" where
  "follow 0 f p = Inl (ErrIO ''too many levels of symbolic links'')"
| "follow (Suc n) f p =
     (if p = [] then Inl ErrNotExist
      else case node_at f p of
        Some (SymLink t) \<Rightarrow> follow n f (if filepath_IsAbs t then t else filepath_Join [filepath_Dir p, t])
      | _ \<Rightarrow> Inr p)"

definition max_links :: nat where
  "max_links = 40"

definition os_Stat :: "fs \<Rightarrow> string \<Rightarrow> node go_result" where
  "os_Stat f p =
     (case faults f (SysStat p) of
        Some e \<Rightarrow> Inl e
      | None \<Rightarrow>
          (case follow (Suc max_links) f p of
             Inl e \<Rightarrow> Inl e
           | Inr q \<Rightarrow> (case node_at f q of None \<Rightarrow> Inl ErrNotExist | Some n \<Rightarrow> Inr n)))"

definition os_Lstat :: "fs \<Rightarrow> string \<Rightarrow> node go_result" where
  "os_Lstat f p =
     (case faults f (SysLstat p) of
        Some e \<Rightarrow> Inl e
      | None \<Rightarrow> (case path_node f p of None \<Rightarrow> Inl ErrNotExist | Some n \<Rightarrow> Inr n))"

definition os_Readlink :: "fs \<Rightarrow> string \<Rightarrow> string go_result" where
  "os_Readlink f p =
     (case faults f (SysReadlink p) of
        Some e \<Rightarrow> Inl e
      | None \<Rightarrow> (case path_node f p of
                   None \<Rightarrow> Inl ErrNotExist
                 | Some (SymLink t) \<Rightarrow> Inr t
                 | Some _ \<Rightarrow> Inl (ErrIO ''invalid argument'')))"

fun node_is_dir :: "node \<Rightarrow> bool" where
  "node_is_dir (Directory m) = True"
| "node_is_dir _ = False"

fun node_perm :: "node \<Rightarrow> nat" where
  "node_perm (RegFile c m) = m"
| "node_perm (Directory m) = m"
| "node_perm (SymLink t) = 511"

fun node_size :: "node \<Rightarrow> nat" where
  "node_size (RegFile c m) = length c"
| "node_size (Directory m) = 4096"
| "node_size (SymLink t) = length t"

subsection \<open>Reading and writing\<close>

definition os_Open :: "fs \<Rightarrow> string \<Rightarrow> node go_result" where
  "os_Open f p =
     (case faults f (SysOpen p) of
        Some e \<Rightarrow> Inl e
      | None \<Rightarrow>
          (case follow (Suc max_links) f p of
             Inl e \<Rightarrow> Inl e
           | Inr q \<Rightarrow> (case node_at f q of None \<Rightarrow> Inl ErrNotExist | Some n \<Rightarrow> Inr n)))"

definition os_ReadFile :: "fs \<Rightarrow> string \<Rightarrow> bytes go_result" where
  "os_ReadFile f p =
     (case os_Open f p of
        Inl e \<Rightarrow> Inl e
      | Inr (RegFile c m) \<Rightarrow> (case faults f (SysRead p) of Some e \<Rightarrow> Inl e | None \<Rightarrow> Inr c)
      | Inr _ \<Rightarrow> Inl (ErrIO ''is a directory''))"

text \<open>
  Opening for writing with \<open>O_CREATE\<close>, and with \<open>O_TRUNC\<close> when \<open>trunc\<close>; the handle is the path the
  name resolves to.
\<close>

definition os_OpenWrite :: "bool \<Rightarrow> string \<Rightarrow> nat \<Rightarrow> string os" where
  "os_OpenWrite trunc p perm f =
     (case faults f (SysCreate p) of
        Some e \<Rightarrow> (Inl e, f)
      | None \<Rightarrow>
          (case follow (Suc max_links) f p of
             Inl e \<Rightarrow> (Inl e, f)
           | Inr q \<Rightarrow>
               (case node_at f q of
                  Some (RegFile c m) \<Rightarrow>
                    (Inr q, if trunc then put_node (path_key q) (RegFile [] m) f else f)
                | Some _ \<Rightarrow> (Inl (ErrIO ''is a directory''), f)
                | None \<Rightarrow>
                    (case node_of f (parent (path_key q)) of
                       Some (Directory d) \<Rightarrow> (Inr q, put_node (path_key q) (RegFile [] perm) f)
                     | _ \<Rightarrow> (Inl ErrNotExist, f)))))"

text \<open>Appending to an open file (every handle of the sources is at the end of its file).\<close>

definition file_Write :: "string \<Rightarrow> bytes \<Rightarrow> unit os" where
  "file_Write q data f =
     (case faults f (SysWrite q) of
        Some e \<Rightarrow> (Inl e, f)
      | None \<Rightarrow>
          (case node_at f q of
             Some (RegFile c m) \<Rightarrow> (Inr (), put_node (path_key q) (RegFile (c @ data) m) f)
           | _ \<Rightarrow> (Inl (ErrIO ''bad file descriptor''), f)))"

definition os_WriteFile :: "string \<Rightarrow> bytes \<Rightarrow> nat \<Rightarrow> unit os" where
  "os_WriteFile p data perm f =
     (case os_OpenWrite True p perm f of
        (Inl e, f') \<Rightarrow> (Inl e, f')
      | (Inr q, f') \<Rightarrow> file_Write q data f')"

text \<open>Creating a file, or a directory, that must not be there yet: how the temporary ones are made.\<close>

definition put_new :: "string \<Rightarrow> node \<Rightarrow> string os" where
  "put_new p n f =
     (case node_at f p of
        Some _ \<Rightarrow> (Inl ErrExist, f)
      | None \<Rightarrow>
          (case node_of f (parent (path_key p)) of
             Some (Directory d) \<Rightarrow> (Inr p, put_node (path_key p) n f)
           | _ \<Rightarrow> (Inl ErrNotExist, f)))"

definition os_CreateNew :: "string \<Rightarrow> nat \<Rightarrow> string os" where
  "os_CreateNew p perm f = (case faults f (SysCreate p) of Some e \<Rightarrow> (Inl e, f) | None \<Rightarrow> put_new p (RegFile [] perm) f)"

definition os_Mkdir :: "string \<Rightarrow> nat \<Rightarrow> string os" where
  "os_Mkdir p perm f = (case faults f (SysMkdir p) of Some e \<Rightarrow> (Inl e, f) | None \<Rightarrow> put_new p (Directory perm) f)"

subsection \<open>Changing the tree\<close>

fun mkdir_each :: "pkey list \<Rightarrow> nat \<Rightarrow> unit os" where
  "mkdir_each [] perm f = (Inr (), f)"
| "mkdir_each (k # ks) perm f =
     (case node_of f k of
        Some (Directory m) \<Rightarrow> mkdir_each ks perm f
      | Some _ \<Rightarrow> (Inl (ErrIO ''not a directory''), f)
      | None \<Rightarrow>
          (case faults f (SysMkdir (render k)) of
             Some e \<Rightarrow> (Inl e, f)
           | None \<Rightarrow> mkdir_each ks perm (put_node k (Directory perm) f)))"

definition ancestors :: "pkey \<Rightarrow> pkey list" where
  "ancestors k = map (\<lambda>i. (fst k, take i (snd k))) [1..<Suc (length (snd k))]"

definition os_MkdirAll :: "string \<Rightarrow> nat \<Rightarrow> unit os" where
  "os_MkdirAll p perm f = (if p = [] then (Inl ErrNotExist, f) else mkdir_each (ancestors (path_key p)) perm f)"

definition os_Remove :: "string \<Rightarrow> unit os" where
  "os_Remove p f =
     (case faults f (SysRemove p) of
        Some e \<Rightarrow> (Inl e, f)
      | None \<Rightarrow>
          (case path_node f p of
             None \<Rightarrow> (Inl ErrNotExist, f)
           | Some n \<Rightarrow>
               if snd (path_key p) = [] then (Inl (ErrIO ''device or resource busy''), f)
               else if node_is_dir n \<and> children (path_key p) f \<noteq> []
               then (Inl (ErrIO ''directory not empty''), f)
               else (Inr (), f\<lparr>nodes := AList.delete (path_key p) (nodes f)\<rparr>)))"

text \<open>Removing the tree at the empty path does nothing; a path whose last element is a dot is refused.\<close>

definition ends_with_dot :: "string \<Rightarrow> bool" where
  "ends_with_dot p \<longleftrightarrow> p = ''.'' \<or> strings_HasSuffix p ''/.''"

definition os_RemoveAll :: "string \<Rightarrow> unit os" where
  "os_RemoveAll p f =
     (if p = [] then (Inr (), f)
      else if ends_with_dot p then (Inl (ErrIO ''invalid argument''), f)
      else case faults f (SysRemoveAll p) of
        Some e \<Rightarrow> (Inl e, f)
      | None \<Rightarrow> (Inr (), drop_tree (path_key p) f))"

definition os_Rename :: "string \<Rightarrow> string \<Rightarrow> unit os" where
  "os_Rename a b f =
     (case faults f (SysRename a b) of
        Some e \<Rightarrow> (Inl e, f)
      | None \<Rightarrow>
          (case path_node f a of
             None \<Rightarrow> (Inl ErrNotExist, f)
           | Some n \<Rightarrow>
               if b = [] then (Inl ErrNotExist, f)
               else (case node_at f b of
                  Some (Directory m) \<Rightarrow> (Inl ErrExist, f)
                | t \<Rightarrow>
                    if path_key a = path_key b then (Inr (), f)
                    else if node_is_dir n \<and> (t \<noteq> None \<or> below (path_key a) (path_key b) \<or> snd (path_key a) = [])
                    then (Inl (ErrIO ''not a directory''), f)
                    else (case node_of f (parent (path_key b)) of
                            Some (Directory d) \<Rightarrow> (Inr (), move_tree (path_key a) (path_key b) f)
                          | _ \<Rightarrow> (Inl ErrNotExist, f)))))"

fun with_perm :: "nat \<Rightarrow> node \<Rightarrow> node" where
  "with_perm m (RegFile c _) = RegFile c m"
| "with_perm m (Directory _) = Directory m"
| "with_perm m (SymLink t) = SymLink t"

definition os_Chmod :: "string \<Rightarrow> nat \<Rightarrow> unit os" where
  "os_Chmod p m f =
     (case faults f (SysChmod p) of
        Some e \<Rightarrow> (Inl e, f)
      | None \<Rightarrow>
          (case follow (Suc max_links) f p of
             Inl e \<Rightarrow> (Inl e, f)
           | Inr q \<Rightarrow> (case node_at f q of
                None \<Rightarrow> (Inl ErrNotExist, f)
              | Some n \<Rightarrow> (Inr (), put_node (path_key q) (with_perm m n) f))))"

subsection \<open>Lemmas: the table\<close>

lemma faults_put [simp]: "faults (put_node k n f) = faults f"
  by (simp add: put_node_def)

lemma faults_move [simp]: "faults (move_tree a b f) = faults f"
  by (simp add: move_tree_def)

lemma node_of_put: "node_of (put_node k n f) k' = (if k' = k \<and> snd k \<noteq> [] then Some n else node_of f k')"
  by (auto simp: node_of_def put_node_def update_conv')

lemma node_at_put:
  "node_at (put_node k n f) p = (if path_key p = k \<and> snd k \<noteq> [] then Some n else node_at f p)"
  by (simp add: node_at_def node_of_put)

lemma node_at_Nil [simp]: "node_at f [] = Some (Directory 493)"
proof -
  have "snd (path_key []) = []" by (simp add: path_key_def path_elems_def)
  then show ?thesis by (simp add: node_at_def node_of_def)
qed

lemma path_node_file [simp]:
  "node_at f p = Some (RegFile c m) \<Longrightarrow> path_node f p = Some (RegFile c m)"
  "node_at f p = Some (SymLink t) \<Longrightarrow> path_node f p = Some (SymLink t)"
  "node_at f p = None \<Longrightarrow> path_node f p = None"
  by (auto simp: path_node_def)

lemma path_node_ne [simp]: "p \<noteq> [] \<Longrightarrow> path_node f p = node_at f p"
  by (simp add: path_node_def)

lemma node_at_ne:
  "node_at f p = Some (RegFile c m) \<Longrightarrow> p \<noteq> []"
  "node_at f p = Some (SymLink t) \<Longrightarrow> p \<noteq> []"
  "node_at f p = None \<Longrightarrow> p \<noteq> []"
  by auto

text \<open>Where a path that is not a link leads: to itself.\<close>

lemma follow_file [simp]:
  "node_at f p = Some (RegFile c m) \<Longrightarrow> follow (Suc n) f p = Inr p"
  "node_at f p = None \<Longrightarrow> follow (Suc n) f p = Inr p"
  by (auto simp: node_at_ne)

lemma follow_dir [simp]: "node_at f p = Some (Directory m) \<Longrightarrow> p \<noteq> [] \<Longrightarrow> follow (Suc n) f p = Inr p"
  by simp

declare follow.simps(2) [simp del]

lemma file_not_root: "node_at f p = Some (RegFile c m) \<Longrightarrow> snd (path_key p) \<noteq> []"
  by (auto simp: node_at_def node_of_def)

lemma below_refl [simp]: "below k k"
  by (cases k) simp

text \<open>Nothing lies below a plain file.\<close>

definition leaf :: "fs \<Rightarrow> pkey \<Rightarrow> bool" where
  "leaf f k \<longleftrightarrow> snd k \<noteq> [] \<and> (\<forall>k'. below k k' \<longrightarrow> k' \<noteq> k \<longrightarrow> map_of (nodes f) k' = None)"

lemma below_same_rebase: "below a k \<Longrightarrow> rebase a b k = (fst b, snd b @ drop (length (snd a)) (snd k))"
  by (simp add: rebase_def)

lemma map_of_filter_key:
  "map_of (filter (\<lambda>(k, n). P k) xs) k = (if P k then map_of xs k else None)"
  by (induction xs) auto

lemma rebase_self [simp]: "rebase a b a = b"
  by (simp add: rebase_def)

lemma map_of_map_rebase_leaf:
  "list_all (\<lambda>x. fst x = a) xs \<Longrightarrow>
     map_of (map (\<lambda>(k, n). (rebase a b k, n)) xs) k = (if k = b then map_of xs a else None)"
  by (induction xs) (auto simp: case_prod_beta)

lemma node_of_move_leaf:
  assumes "leaf f a" and "leaf f b" and "a \<noteq> b"
  shows "node_of (move_tree a b f) k =
    (if k = b then node_of f a else if k = a then None else node_of f k)"
proof -
  have only_a: "list_all (\<lambda>x. fst x = a) (filter (\<lambda>(k, n). below a k) (nodes f))"
    unfolding list_all_iff
  proof
    fix x assume "x \<in> set (filter (\<lambda>(k, n). below a k) (nodes f))"
    then have "below a (fst x)" and "fst x \<in> fst ` set (nodes f)" by (auto simp: case_prod_beta)
    with assms(1) show "fst x = a" unfolding leaf_def by (metis map_of_eq_None_iff)
  qed
  have ab: "\<not> below a b \<or> map_of (nodes f) b = None" "\<not> below b a \<or> map_of (nodes f) a = None"
    using assms unfolding leaf_def by metis+
  have "map_of (nodes (move_tree a b f)) k =
      (case (if \<not> below a k \<and> \<not> below b k then map_of (nodes f) k else None) of
         None \<Rightarrow> (if k = b then map_of (filter (\<lambda>(k, n). below a k) (nodes f)) a else None)
       | Some x \<Rightarrow> (if k = b then (case map_of (filter (\<lambda>(k, n). below a k) (nodes f)) a of
           None \<Rightarrow> Some x | Some y \<Rightarrow> Some y) else Some x))"
    by (simp add: move_tree_def map_of_append map_add_def map_of_filter_key
        map_of_map_rebase_leaf [OF only_a] split: option.splits)
  moreover have "below a k \<longrightarrow> k \<noteq> a \<longrightarrow> map_of (nodes f) k = None"
    "below b k \<longrightarrow> k \<noteq> b \<longrightarrow> map_of (nodes f) k = None" "snd a \<noteq> []" "snd b \<noteq> []"
    using assms unfolding leaf_def by metis+
  ultimately show ?thesis using assms(3) ab
    by (cases "k = b"; cases "k = a"; cases "below a k"; cases "below b k")
       (simp_all add: node_of_def map_of_filter_key split: option.splits)
qed

subsection \<open>Lemmas: directories\<close>

lemma mkdir_each_keeps:
  "mkdir_each ks perm f = (r, f') \<Longrightarrow> faults f' = faults f \<and>
     (node_of f' k = node_of f k \<or> (k \<in> set ks \<and> node_of f k = None \<and> node_of f' k = Some (Directory perm)))"
proof (induction ks perm f rule: mkdir_each.induct)
  case (2 x ks perm f)
  show ?case
  proof (cases "node_of f x")
    case None
    then show ?thesis using 2 by (auto simp: node_of_put split: option.splits if_splits)
  next
    case (Some n)
    then show ?thesis using 2 by (cases n) auto
  qed
qed simp

lemma mkdir_each_makes:
  "mkdir_each ks perm f = (Inr (), f') \<Longrightarrow> k \<in> set ks \<Longrightarrow> \<exists>m. node_of f' k = Some (Directory m)"
proof (induction ks perm f rule: mkdir_each.induct)
  case (2 x ks perm f)
  show ?case
  proof (cases "node_of f x")
    case None
    then have rest: "mkdir_each ks perm (put_node x (Directory perm) f) = (Inr (), f')"
      and x: "snd x \<noteq> []" and ft: "faults f (SysMkdir (render x)) = None"
      using 2(3) by (auto simp: node_of_def split: option.splits if_splits)
    show ?thesis
    proof (cases "k \<in> set ks")
      case True
      then show ?thesis using 2(1) [OF None ft rest] by simp
    next
      case False
      then have "k = x" using 2(4) by simp
      then show ?thesis using mkdir_each_keeps [OF rest, of x] x by (auto simp: node_of_put)
    qed
  next
    case (Some n)
    then obtain m where n: "n = Directory m" using 2(3) by (cases n) auto
    then have rest: "mkdir_each ks perm f = (Inr (), f')" using 2(3) Some by simp
    show ?thesis
    proof (cases "k \<in> set ks")
      case True
      then show ?thesis using 2(2) [OF Some n rest] by simp
    next
      case False
      then have "k = x" using 2(4) by simp
      then show ?thesis using mkdir_each_keeps [OF rest, of x] Some n by auto
    qed
  qed
qed simp

lemma MkdirAll_keeps:
  "os_MkdirAll p perm f = (r, f') \<Longrightarrow> faults f' = faults f \<and>
     (node_of f' k = node_of f k
      \<or> (k \<in> set (ancestors (path_key p)) \<and> node_of f k = None \<and> node_of f' k = Some (Directory perm)))"
  by (auto simp: os_MkdirAll_def dest: mkdir_each_keeps [of _ _ _ _ _ k] split: if_splits)

lemma MkdirAll_ok:
  assumes "os_MkdirAll p perm f = (Inr (), f')"
  shows "faults f' = faults f" "\<exists>m. node_at f' p = Some (Directory m)"
    "node_of f' k = node_of f k \<or> (node_of f k = None \<and> node_of f' k = Some (Directory perm)
       \<and> length (snd k) \<le> length (snd (path_key p)))"
proof -
  have run: "mkdir_each (ancestors (path_key p)) perm f = (Inr (), f')"
    using assms by (auto simp: os_MkdirAll_def split: if_splits)
  have le: "length (snd k) \<le> length (snd (path_key p))" if "k \<in> set (ancestors (path_key p))" for k
    using that by (auto simp: ancestors_def)
  show "faults f' = faults f" using mkdir_each_keeps [OF run] by blast
  show "\<exists>m. node_at f' p = Some (Directory m)"
  proof (cases "snd (path_key p) = []")
    case True
    then show ?thesis by (simp add: node_at_def node_of_def)
  next
    case False
    then have "path_key p \<in> set (ancestors (path_key p))"
      by (auto simp: ancestors_def image_iff Suc_le_eq intro!: bexI [of _ "length (snd (path_key p))"])
    from mkdir_each_makes [OF run this] show ?thesis by (simp add: node_at_def)
  qed
  show "node_of f' k = node_of f k \<or> (node_of f k = None \<and> node_of f' k = Some (Directory perm)
       \<and> length (snd k) \<le> length (snd (path_key p)))"
    using mkdir_each_keeps [OF run, of k] le by blast
qed

lemma Remove_file:
  assumes "faults f = (\<lambda>_. None)" "node_at f p = Some (RegFile c m)"
  obtains f' where "os_Remove p f = (Inr (), f')" "faults f' = (\<lambda>_. None)"
    "\<And>k. node_of f' k = (if k = path_key p then None else node_of f k)"
proof -
  let ?f = "f\<lparr>nodes := AList.delete (path_key p) (nodes f)\<rparr>"
  have "snd (path_key p) \<noteq> []" using assms(2) by (auto simp: node_at_def node_of_def)
  then have "node_of ?f k = (if k = path_key p then None else node_of f k)" for k
    by (auto simp: node_of_def delete_conv')
  moreover have "os_Remove p f = (Inr (), ?f)" using assms file_not_root [OF assms(2)] by (simp add: os_Remove_def)
  ultimately show thesis using assms(1) by (intro that [of ?f]) simp_all
qed

lemma children_iff: "k \<in> set (children d f) \<longleftrightarrow> snd k \<noteq> [] \<and> parent k = d \<and> node_of f k \<noteq> None"
  by (simp add: children_def node_of_def map_of_eq_None_iff conj_commute conj_left_commute
      del: not_None_eq)

lemma child_names: "x \<in> (\<lambda>k. last (snd k)) ` set (children d f) \<longleftrightarrow> node_of f (fst d, snd d @ [x]) \<noteq> None"
proof
  assume "x \<in> (\<lambda>k. last (snd k)) ` set (children d f)"
  then obtain k where "k \<in> set (children d f)" "x = last (snd k)" by (elim imageE)
  then have k: "snd k \<noteq> []" "parent k = d" "node_of f k \<noteq> None" "x = last (snd k)"
    using children_iff [of k d f] by simp_all
  then have "k = (fst d, snd d @ [x])" by (cases k) auto
  then show "node_of f (fst d, snd d @ [x]) \<noteq> None" using k(3) by (rule subst)
next
  assume "node_of f (fst d, snd d @ [x]) \<noteq> None"
  then have "(fst d, snd d @ [x]) \<in> set (children d f)" by (simp only: children_iff) simp
  then show "x \<in> (\<lambda>k. last (snd k)) ` set (children d f)" by (rule rev_image_eqI) simp
qed

lemma Open_file: "faults f (SysOpen p) = None \<Longrightarrow> node_at f p = Some (RegFile c m) \<Longrightarrow> os_Open f p = Inr (RegFile c m)"
  by (simp add: os_Open_def del: follow.simps)

subsection \<open>Lemmas: moving and removing plain files\<close>

lemma below_ne: "below k k' \<Longrightarrow> snd k \<noteq> [] \<Longrightarrow> snd k' \<noteq> []"
  by (cases k; cases k') auto

lemma leaf_iff: "leaf f k \<longleftrightarrow> snd k \<noteq> [] \<and> (\<forall>k'. below k k' \<longrightarrow> k' \<noteq> k \<longrightarrow> node_of f k' = None)"
  unfolding leaf_def node_of_def using below_ne by (metis option.distinct(1))

text \<open>Three places that do not lie inside one another: the new file, the target and its backup.\<close>

definition apart :: "pkey list \<Rightarrow> bool" where
  "apart ks \<longleftrightarrow> distinct ks \<and> (\<forall>a\<in>set ks. \<forall>b\<in>set ks. a \<noteq> b \<longrightarrow> \<not> below a b)"

definition leaves :: "fs \<Rightarrow> pkey list \<Rightarrow> bool" where
  "leaves f ks \<longleftrightarrow> apart ks \<and> (\<forall>k\<in>set ks. leaf f k)"

lemma leafI: "snd k \<noteq> [] \<Longrightarrow> (\<And>k'. below k k' \<Longrightarrow> k' \<noteq> k \<Longrightarrow> node_of f k' = None) \<Longrightarrow> leaf f k"
  by (simp only: leaf_iff) simp

lemma leafD: "leaf f k \<Longrightarrow> below k k' \<Longrightarrow> k' \<noteq> k \<Longrightarrow> node_of f k' = None"
  by (simp only: leaf_iff simp_thms)

lemma leaves_keep:
  assumes l: "leaves f ks" and same: "\<And>k. k \<notin> set ks \<Longrightarrow> node_of f' k = node_of f k"
  shows "leaves f' ks"
proof -
  have "leaf f' k" if k: "k \<in> set ks" for k
  proof (rule leafI)
    have lk: "leaf f k" using l k by (simp add: leaves_def)
    then show "snd k \<noteq> []" by (simp add: leaf_def)
    fix k' assume b: "below k k'" "k' \<noteq> k"
    have "k' \<notin> set ks" using l k b unfolding leaves_def apart_def by metis
    from same [OF this] show "node_of f' k' = None" using leafD [OF lk b] by simp
  qed
  moreover have "apart ks" using l by (simp add: leaves_def)
  ultimately show ?thesis by (simp add: leaves_def)
qed

lemma Rename_leaves:
  assumes l: "leaves f ks" and a: "path_key p \<in> set ks" "path_key q \<in> set ks" "path_key p \<noteq> path_key q"
    and r: "os_Rename p q f = (r, f')"
  shows "(\<exists>e. r = Inl e) \<and> f' = f \<or> r = Inr () \<and> faults f' = faults f \<and> leaves f' ks \<and>
    (\<forall>k. node_of f' k = (if k = path_key q then node_of f (path_key p) else if k = path_key p then None else node_of f k))"
proof -
  have lf: "leaf f (path_key p)" "leaf f (path_key q)" using l a unfolding leaves_def by blast+
  have "(\<exists>e. r = Inl e) \<and> f' = f \<or> r = Inr () \<and> f' = move_tree (path_key p) (path_key q) f"
    using r a(3) by (auto simp: os_Rename_def split: option.splits node.splits if_splits)
  then show ?thesis
  proof
    assume m: "r = Inr () \<and> f' = move_tree (path_key p) (path_key q) f"
    then have now: "node_of f' k = (if k = path_key q then node_of f (path_key p) else if k = path_key p then None else node_of f k)" for k
      using node_of_move_leaf [OF lf a(3)] by blast
    have "leaves f' ks" using leaves_keep [OF l, of f'] now a by metis
    with m now show ?thesis by simp
  qed simp
qed

lemma Remove_leaves:
  assumes l: "leaves f ks" and a: "path_key p \<in> set ks" and r: "os_Remove p f = (r, f')"
  shows "(\<exists>e. r = Inl e) \<and> f' = f \<or> r = Inr () \<and> faults f' = faults f \<and> leaves f' ks \<and>
    (\<forall>k. node_of f' k = (if k = path_key p then None else node_of f k))"
proof -
  have "snd (path_key p) \<noteq> []" using l a unfolding leaves_def leaf_def by blast
  then have now: "node_of (f\<lparr>nodes := AList.delete (path_key p) (nodes f)\<rparr>) k = (if k = path_key p then None else node_of f k)" for k
    by (auto simp: node_of_def delete_conv')
  have "leaves (f\<lparr>nodes := AList.delete (path_key p) (nodes f)\<rparr>) ks"
    using leaves_keep [OF l] now a by metis
  note ok = this now
  have "(\<exists>e. r = Inl e) \<and> f' = f \<or> r = Inr () \<and> f' = f\<lparr>nodes := AList.delete (path_key p) (nodes f)\<rparr>"
    using r by (auto simp: os_Remove_def split: option.splits if_splits)
  then show ?thesis
  proof
    assume "r = Inr () \<and> f' = f\<lparr>nodes := AList.delete (path_key p) (nodes f)\<rparr>"
    then have "r = Inr ()" "faults f' = faults f" "leaves f' ks"
      "node_of f' k = (if k = path_key p then None else node_of f k)" for k using ok by simp_all
    then show ?thesis by blast
  qed simp
qed

lemma Rename_ok:
  assumes "faults f = (\<lambda>_. None)" "node_at f p = Some (RegFile c m)" "node_at f q = None \<or> (\<exists>c' m'. node_at f q = Some (RegFile c' m'))"
    "node_of f (parent (path_key q)) = Some (Directory d)" "path_key p \<noteq> path_key q"
  shows "fst (os_Rename p q f) = Inr ()"
  using assms node_at_ne [of f q] by (auto simp: os_Rename_def)

end
