(* ===== verification/Go_Tree.thy ===== *)
theory Go_Tree
  imports Go_OS
begin

text \<open>
  What every call of package \<open>os\<close> keeps: a locale for the properties of a file system that no system call
  destroys, with the two of them that the components rest on. The faults of the environment are the same before
  and after a call, and the nodes always form trees: every node but the two roots lies in a directory. A package
  that works on files shows once, inside the locale, that it keeps every such property.
\<close>

subsection \<open>Invariants of the file system\<close>

locale fs_invariant =
  fixes keeps :: "fs \<Rightarrow> bool"
  assumes keeps_OpenWrite: "keeps f \<Longrightarrow> os_OpenWrite trunc p m f = (r, f') \<Longrightarrow> keeps f'"
    and keeps_CreateNew: "keeps f \<Longrightarrow> os_CreateNew p m f = (r, f') \<Longrightarrow> keeps f'"
    and keeps_Mkdir: "keeps f \<Longrightarrow> os_Mkdir p m f = (r, f') \<Longrightarrow> keeps f'"
    and keeps_Write: "keeps f \<Longrightarrow> file_Write p d f = (u, f') \<Longrightarrow> keeps f'"
    and keeps_MkdirAll: "keeps f \<Longrightarrow> os_MkdirAll p m f = (u, f') \<Longrightarrow> keeps f'"
    and keeps_Remove: "keeps f \<Longrightarrow> os_Remove p f = (u, f') \<Longrightarrow> keeps f'"
    and keeps_RemoveAll: "keeps f \<Longrightarrow> os_RemoveAll p f = (u, f') \<Longrightarrow> keeps f'"
    and keeps_Rename: "keeps f \<Longrightarrow> os_Rename p q f = (u, f') \<Longrightarrow> keeps f'"
    and keeps_Chmod: "keeps f \<Longrightarrow> os_Chmod p m f = (u, f') \<Longrightarrow> keeps f'"
begin

lemmas keeps_os = keeps_OpenWrite keeps_CreateNew keeps_Mkdir keeps_Write keeps_MkdirAll keeps_Remove keeps_RemoveAll keeps_Rename keeps_Chmod

lemma keeps_WriteFile: "keeps f \<Longrightarrow> os_WriteFile p d m f = (u, f') \<Longrightarrow> keeps f'"
  by (auto simp: os_WriteFile_def split: prod.splits sum.splits dest: keeps_os)

end

subsection \<open>Faults\<close>

lemma faults_drop [simp]: "faults (drop_tree k f) = faults f"
  by (simp add: drop_tree_def)

lemma faults_os:
  "os_OpenWrite trunc p m f = (r, f') \<Longrightarrow> faults f' = faults f"
  "os_CreateNew p m f = (r, f') \<Longrightarrow> faults f' = faults f"
  "os_Mkdir p m f = (r, f') \<Longrightarrow> faults f' = faults f"
  "file_Write p d f = (u, f') \<Longrightarrow> faults f' = faults f"
  "os_MkdirAll p m f = (u, f') \<Longrightarrow> faults f' = faults f"
  "os_Remove p f = (u, f') \<Longrightarrow> faults f' = faults f"
  "os_RemoveAll p f = (u, f') \<Longrightarrow> faults f' = faults f"
  "os_Rename p q f = (u, f') \<Longrightarrow> faults f' = faults f"
  "os_Chmod p m f = (u, f') \<Longrightarrow> faults f' = faults f"
  by (auto simp: os_OpenWrite_def os_CreateNew_def os_Mkdir_def put_new_def file_Write_def os_MkdirAll_def os_Remove_def os_RemoveAll_def os_Rename_def os_Chmod_def
      dest: mkdir_each_keeps split: option.splits sum.splits node.splits if_splits simp del: follow.simps)

interpretation env: fs_invariant "\<lambda>f. faults f = fl" for fl
  by unfold_locales (auto dest: faults_os)

subsection \<open>Trees\<close>

definition tree_ok :: "fs \<Rightarrow> bool" where
  "tree_ok f \<longleftrightarrow> (\<forall>(k, n)\<in>set (nodes f). snd k \<noteq> [] \<and> (\<exists>m. node_of f (parent k) = Some (Directory m)))"

lemma tree_ok_parent:
  assumes "tree_ok f" "node_of f k = Some n" "snd k \<noteq> []"
  shows "\<exists>m. node_of f (parent k) = Some (Directory m)"
proof -
  have "(k, n) \<in> set (nodes f)" using assms(2,3) by (auto simp: node_of_def intro: map_of_SomeD)
  with assms(1) show ?thesis unfolding tree_ok_def by blast
qed

lemma below_iff_prefix: "below k k' \<longleftrightarrow> fst k = fst k' \<and> prefix (snd k) (snd k')"
  by (cases k, cases k') (auto simp: prefix_def, metis append_take_drop_id)

lemma below_append:
  assumes "below k k'"
  obtains r es es' where "k = (r, es)" "k' = (r, es @ es')"
  using assms by (cases k, cases k') (auto simp: below_iff_prefix prefix_def)

lemma tree_ok_ancestor:
  assumes "tree_ok f" "node_of f (r, es @ es') = Some n" "es' \<noteq> []"
  shows "\<exists>m. node_of f (r, es) = Some (Directory m)"
  using assms(2,3)
proof (induction es' arbitrary: n rule: rev_induct)
  case (snoc x xs)
  from tree_ok_parent [OF assms(1) snoc.prems(1)] obtain m where m: "node_of f (r, es @ xs) = Some (Directory m)"
    by (auto simp: butlast_append)
  then show ?case using snoc.IH by (cases "xs = []") auto
qed simp

text \<open>The keys of the table, which is what the invariant is about.\<close>

lemma tree_ok_keys:
  "tree_ok f \<longleftrightarrow> (\<forall>k\<in>fst ` set (nodes f). snd k \<noteq> [] \<and> (\<exists>m. node_of f (parent k) = Some (Directory m)))"
  by (auto simp: tree_ok_def)

lemma key_node: "k \<in> fst ` set (nodes f) \<Longrightarrow> snd k \<noteq> [] \<Longrightarrow> \<exists>n. node_of f k = Some n"
  by (simp add: node_of_def) (metis map_of_eq_None_iff not_None_eq)

lemma keys_put: "snd k \<noteq> [] \<Longrightarrow> fst ` set (nodes (put_node k n f)) = insert k (fst ` set (nodes f))"
  by (simp add: put_node_def dom_update)

lemma tree_put:
  assumes "tree_ok f" and k: "snd k \<noteq> []" "\<exists>m. node_of f (parent k) = Some (Directory m)"
    and same: "\<And>m. node_of f k = Some (Directory m) \<Longrightarrow> node_is_dir n"
  shows "tree_ok (put_node k n f)"
  unfolding tree_ok_keys
proof
  fix k' assume "k' \<in> fst ` set (nodes (put_node k n f))"
  then have "k' = k \<or> k' \<in> fst ` set (nodes f)" using keys_put [OF k(1), of n f] by blast
  then have k': "snd k' \<noteq> []" "\<exists>m. node_of f (parent k') = Some (Directory m)"
    using assms(1) k unfolding tree_ok_keys by auto
  from k'(2) obtain m where m: "node_of f (parent k') = Some (Directory m)" by blast
  have "\<exists>m. node_of (put_node k n f) (parent k') = Some (Directory m)"
  proof (cases "parent k' = k")
    case True
    then have "node_is_dir n" using m same by simp
    then show ?thesis using True k(1) by (cases n) (auto simp: node_of_put)
  qed (use m in \<open>simp add: node_of_put\<close>)
  with k'(1) show "snd k' \<noteq> [] \<and> (\<exists>m. node_of (put_node k n f) (parent k') = Some (Directory m))" by simp
qed

text \<open>A node that is there is replaced by one of its kind.\<close>

lemma tree_replace:
  assumes "tree_ok f" "node_of f k = Some old" "node_is_dir old \<longrightarrow> node_is_dir n" "snd k \<noteq> []"
  shows "tree_ok (put_node k n f)"
  using assms tree_ok_parent [OF assms(1,2,4)] by (intro tree_put) auto

lemma tree_OpenWrite:
  assumes "tree_ok f" "os_OpenWrite trunc p m f = (r, f')"
  shows "tree_ok f'"
proof -
  have "f' = f \<or> (\<exists>q c m'. node_at f q = Some (RegFile c m') \<and> f' = put_node (path_key q) (RegFile [] m') f)
    \<or> (\<exists>q d. node_at f q = None \<and> node_of f (parent (path_key q)) = Some (Directory d) \<and> f' = put_node (path_key q) (RegFile [] m) f)"
    using assms(2) by (auto simp: os_OpenWrite_def simp del: follow.simps split: option.splits sum.splits node.splits if_splits)
  then show ?thesis
  proof (elim disjE exE conjE)
    fix q c m' assume q: "node_at f q = Some (RegFile c m')" "f' = put_node (path_key q) (RegFile [] m') f"
    then show ?thesis using tree_replace [OF assms(1), of "path_key q"] file_not_root [OF q(1)] by (simp add: node_at_def)
  next
    fix q d assume q: "node_at f q = None" "node_of f (parent (path_key q)) = Some (Directory d)" "f' = put_node (path_key q) (RegFile [] m) f"
    then have "snd (path_key q) \<noteq> []" by (auto simp: node_at_def node_of_def)
    with q show ?thesis using tree_put [OF assms(1), of "path_key q"] by (simp add: node_at_def)
  qed (use assms(1) in simp)
qed

lemma tree_new:
  assumes "tree_ok f"
  shows "os_CreateNew p m f = (r, f') \<Longrightarrow> tree_ok f'" and "os_Mkdir p m f = (r, f') \<Longrightarrow> tree_ok f'"
proof -
  have "tree_ok f2" if "put_new p n f = (r, f2)" for n f2
  proof (cases "node_at f p")
    case None
    then have "snd (path_key p) \<noteq> []" "node_of f (path_key p) = None" by (auto simp: node_at_def node_of_def)
    then show ?thesis using that None assms
      by (auto simp: put_new_def intro!: tree_put split: option.splits node.splits)
  qed (use that assms in \<open>auto simp: put_new_def\<close>)
  then show "os_CreateNew p m f = (r, f') \<Longrightarrow> tree_ok f'" "os_Mkdir p m f = (r, f') \<Longrightarrow> tree_ok f'"
    using assms by (auto simp: os_CreateNew_def os_Mkdir_def split: option.splits)
qed

lemma tree_Write:
  assumes "tree_ok f" "file_Write p d f = (r, f')"
  shows "tree_ok f'"
proof -
  have "f' = f \<or> (\<exists>c m. node_at f p = Some (RegFile c m) \<and> f' = put_node (path_key p) (RegFile (c @ d) m) f)"
    using assms(2) by (auto simp: file_Write_def split: option.splits node.splits)
  then show ?thesis
  proof (elim disjE exE conjE)
    fix c m assume q: "node_at f p = Some (RegFile c m)" "f' = put_node (path_key p) (RegFile (c @ d) m) f"
    then show ?thesis using tree_replace [OF assms(1), of "path_key p"] file_not_root [OF q(1)] by (simp add: node_at_def)
  qed (use assms(1) in simp)
qed

lemma tree_Chmod:
  assumes "tree_ok f" "os_Chmod p m f = (r, f')"
  shows "tree_ok f'"
proof -
  have "f' = f \<or> (\<exists>q n. node_at f q = Some n \<and> f' = put_node (path_key q) (with_perm m n) f)"
    using assms(2) by (auto simp: os_Chmod_def simp del: follow.simps split: option.splits sum.splits)
  then show ?thesis
  proof (elim disjE exE conjE)
    fix q n assume q: "node_at f q = Some n" "f' = put_node (path_key q) (with_perm m n) f"
    show ?thesis
    proof (cases "snd (path_key q) = []")
      case True
      with q(2) assms(1) show ?thesis by (simp add: put_node_def)
    next
      case False
      then show ?thesis using q tree_replace [OF assms(1), of "path_key q" n "with_perm m n"]
        by (cases n) (simp_all add: node_at_def)
    qed
  qed (use assms(1) in simp)
qed

lemma tree_mkdir_each:
  "tree_ok f \<Longrightarrow> node_of f (r, take j es) = Some (Directory m) \<Longrightarrow>
   mkdir_each (map (\<lambda>i. (r, take i es)) [Suc j..<Suc (length es)]) perm f = (u, f') \<Longrightarrow> tree_ok f'"
proof (induction "length es - j" arbitrary: j f m)
  case (Suc d)
  let ?k = "(r, take (Suc j) es)"
  have j: "j < length es" using Suc(2) by simp
  then have parent: "parent ?k = (r, take j es)" by (simp add: take_Suc_conv_app_nth)
  have split: "[Suc j..<Suc (length es)] = Suc j # [Suc (Suc j)..<Suc (length es)]" using j by (simp add: upt_conv_Cons)
  note run = Suc(5) [unfolded split, simplified]
  show ?case
  proof (cases "node_of f ?k")
    case None
    show ?thesis
    proof (cases "faults f (SysMkdir (render ?k))")
      case (Some e)
      with run None Suc(3) show ?thesis by simp
    next
      case no: None
      have "tree_ok (put_node ?k (Directory perm) f)"
      proof (rule tree_put [OF Suc(3)])
        show "snd ?k \<noteq> []" using j by auto
        show "\<exists>m. node_of f (parent ?k) = Some (Directory m)" unfolding parent using Suc(4) by blast
      qed (use None in simp)
      moreover have "node_of (put_node ?k (Directory perm) f) ?k = Some (Directory perm)"
        using j by (auto simp: node_of_put)
      moreover have "d = length es - Suc j" using Suc(2) by simp
      ultimately show ?thesis using Suc(1) [of "Suc j" "put_node ?k (Directory perm) f"] run None no by simp
    qed
  next
    case (Some n)
    show ?thesis
    proof (cases n)
      case (Directory m')
      moreover have "d = length es - Suc j" using Suc(2) by simp
      ultimately show ?thesis using Suc(1) [of "Suc j" f] Suc(3) run Some by simp
    qed (use run Some Suc(3) in auto)
  qed
qed simp

lemma tree_MkdirAll:
  assumes "tree_ok f" "os_MkdirAll p m f = (u, f')"
  shows "tree_ok f'"
proof -
  obtain r es where k: "path_key p = (r, es)" by fastforce
  have "node_of f (r, take 0 es) = Some (Directory 493)" by (simp add: node_of_def)
  from tree_mkdir_each [OF assms(1) this, of m] show ?thesis
    using assms by (auto simp: os_MkdirAll_def ancestors_def k split: if_splits)
qed

lemma keys_delete: "fst ` set (AList.delete k xs) = fst ` set xs - {k}"
proof -
  have "set (map fst (AList.delete k xs)) = set (map fst xs) - {k}" by (simp only: delete_keys set_removeAll)
  then show ?thesis by (simp only: set_map)
qed

text \<open>Taking keys away keeps a tree when no key that stays lies in one that goes.\<close>

lemma tree_shrink:
  assumes "tree_ok f" and sub: "fst ` set (nodes f') \<subseteq> fst ` set (nodes f)"
    and same: "\<And>k m. k \<in> fst ` set (nodes f') \<Longrightarrow> node_of f (parent k) = Some (Directory m) \<Longrightarrow> node_of f' (parent k) = Some (Directory m)"
  shows "tree_ok f'"
  unfolding tree_ok_keys
proof
  fix k assume k: "k \<in> fst ` set (nodes f')"
  with sub have "k \<in> fst ` set (nodes f)" by blast
  with assms(1) have "snd k \<noteq> []" "\<exists>m. node_of f (parent k) = Some (Directory m)" unfolding tree_ok_keys by blast+
  then show "snd k \<noteq> [] \<and> (\<exists>m. node_of f' (parent k) = Some (Directory m))" using same [OF k] by blast
qed

lemma tree_Remove:
  assumes "tree_ok f" "os_Remove p f = (u, f')"
  shows "tree_ok f'"
proof -
  let ?k = "path_key p" and ?f = "f\<lparr>nodes := AList.delete (path_key p) (nodes f)\<rparr>"
  have "f' = f \<or> f' = ?f \<and> snd ?k \<noteq> [] \<and> (\<exists>n. node_of f ?k = Some n \<and> (node_is_dir n \<longrightarrow> children ?k f = []))"
    using assms(2) by (auto simp: os_Remove_def path_node_def node_at_def split: option.splits if_splits)
  then show ?thesis
  proof (elim disjE exE conjE)
    fix n assume r: "f' = ?f" "snd ?k \<noteq> []" "node_of f ?k = Some n" "node_is_dir n \<longrightarrow> children ?k f = []"
    show ?thesis
    proof (rule tree_shrink [OF assms(1)])
      show "fst ` set (nodes f') \<subseteq> fst ` set (nodes f)" by (auto simp: r(1) keys_delete)
      fix k m assume k: "k \<in> fst ` set (nodes f')" "node_of f (parent k) = Some (Directory m)"
      then have kf: "k \<in> fst ` set (nodes f)" by (simp add: r(1) keys_delete)
      then have "snd k \<noteq> []" using assms(1) unfolding tree_ok_keys by blast
      have "parent k \<noteq> ?k"
      proof
        assume p: "parent k = ?k"
        then have "children ?k f = []" using k(2) r(3,4) by simp
        then have "k \<notin> set (children ?k f)" by simp
        then have "node_of f k = None" using children_iff p \<open>snd k \<noteq> []\<close> by metis
        with key_node [OF kf \<open>snd k \<noteq> []\<close>] show False by simp
      qed
      then show "node_of f' (parent k) = Some (Directory m)" using k(2) by (simp add: r(1) node_of_def delete_conv' split: if_splits)
    qed
  qed (use assms(1) in simp)
qed

lemma node_of_drop: "node_of (drop_tree k f) k' = (if below k k' \<and> snd k' \<noteq> [] then None else node_of f k')"
proof -
  have "map_of (filter (\<lambda>(k', n). \<not> below k k') xs) k' = (if below k k' then None else map_of xs k')" for xs :: "(pkey \<times> node) list"
    by (induction xs) auto
  then show ?thesis by (auto simp: node_of_def drop_tree_def)
qed

lemma below_parent: "below k (parent k') \<Longrightarrow> below k k'"
  by (cases k') (auto simp: below_iff_prefix prefixeq_butlast intro: prefix_order.trans simp del: below.simps)

lemma tree_drop:
  assumes "tree_ok f"
  shows "tree_ok (drop_tree k f)"
proof (rule tree_shrink [OF assms])
  show "fst ` set (nodes (drop_tree k f)) \<subseteq> fst ` set (nodes f)" by (auto simp: drop_tree_def)
  fix k' m assume k': "k' \<in> fst ` set (nodes (drop_tree k f))" "node_of f (parent k') = Some (Directory m)"
  then have "\<not> below k k'" by (auto simp: drop_tree_def)
  then have "\<not> below k (parent k')" using below_parent by blast
  then show "node_of (drop_tree k f) (parent k') = Some (Directory m)" using k'(2) by (simp add: node_of_drop)
qed

lemma tree_RemoveAll: "tree_ok f \<Longrightarrow> os_RemoveAll p f = (u, f') \<Longrightarrow> tree_ok f'"
  by (auto simp: os_RemoveAll_def tree_drop split: if_splits option.splits)

subsection \<open>Moving a tree\<close>

text \<open>
  Where a rename puts a node: what lay at or below the source lies at the same place below the target. Nothing
  was at the target but a file, and neither of the two lies in the other.
\<close>

lemma rebase_iff: "below a k \<Longrightarrow> rebase a b k = k' \<longleftrightarrow> below b k' \<and> rebase b a k' = k"
  by (cases a; cases b; cases k; cases k') (auto simp: rebase_def, (metis append_take_drop_id)+)

lemma rebase_below: "below a k \<Longrightarrow> below b (rebase a b k)"
  by (auto simp: rebase_def below_iff_prefix simp del: below.simps)

lemma map_of_rebase:
  "map_of (map (\<lambda>(k, n). (rebase a b k, n)) (filter (\<lambda>(k, n). below a k) xs)) k'
     = (if below b k' then map_of xs (rebase b a k') else None)"
proof (induction xs)
  case (Cons x xs)
  obtain k n where x: "x = (k, n)" by fastforce
  show ?case
  proof (cases "below a k")
    case True
    then show ?thesis using Cons rebase_iff [of a k b k'] by (auto simp: x)
  next
    case False
    then have "below b k' \<Longrightarrow> rebase b a k' \<noteq> k" using rebase_below [of b k' a] by auto
    then show ?thesis using Cons False by (auto simp: x)
  qed
qed simp

lemma node_of_move:
  assumes "snd a \<noteq> []" "snd b \<noteq> []"
  shows "node_of (move_tree a b f) k =
    (if below b k \<and> node_of f (rebase b a k) \<noteq> None then node_of f (rebase b a k)
     else if below a k \<or> below b k then None else node_of f k)"
proof (cases "snd k = []")
  case True
  then have "\<not> below a k" "\<not> below b k" using below_ne assms by blast+
  with True show ?thesis by (simp add: node_of_def)
next
  case False
  have "snd (rebase b a k) \<noteq> []" using assms(1) by (auto simp: rebase_def)
  with False show ?thesis
    by (auto simp: node_of_def move_tree_def map_of_rebase map_of_filter_key map_add_def split: option.split)
qed

lemma below_parent_iff:
  assumes "k \<noteq> b"
  shows "below b (parent k) \<longleftrightarrow> below b k"
proof
  assume "below b k"
  then obtain r es es' where k: "b = (r, es)" "k = (r, es @ es')" by (rule below_append)
  with assms have "parent k = (r, es @ butlast es')" by (simp add: butlast_append)
  then show "below b (parent k)" by (simp add: k(1))
qed (rule below_parent)

lemma not_below_parent: "snd b \<noteq> [] \<Longrightarrow> \<not> below b (parent b)"
proof
  assume "snd b \<noteq> []" "below b (parent b)"
  then have "length (snd b) \<le> length (butlast (snd b))" "0 < length (snd b)"
    by (cases b; auto simp: below_iff_prefix simp del: below.simps length_butlast dest: prefix_length_le)+
  then show False unfolding length_butlast by linarith
qed

lemma rebase_parent:
  assumes "below a k" "k' = rebase a b k" "k \<noteq> a"
  shows "parent k' = rebase a b (parent k)"
proof -
  obtain r es es' where k: "a = (r, es)" "k = (r, es @ es')" using assms(1) by (rule below_append)
  with assms(3) show ?thesis by (simp add: assms(2) rebase_def butlast_append)
qed

text \<open>A subtree moves as a whole: below the target its nodes lie as they lay below the source.\<close>

lemma tree_move:
  assumes t: "tree_ok f" and ab: "\<not> below a b" "\<not> below b a" and ne: "snd a \<noteq> []" "snd b \<noteq> []"
    and pb: "node_of f (parent b) = Some (Directory d)"
  shows "tree_ok (move_tree a b f)"
  unfolding tree_ok_keys
proof
  let ?f = "move_tree a b f"
  note now = node_of_move [OF ne, of f]
  have key: "snd k \<noteq> [] \<and> (\<exists>m. node_of f (parent k) = Some (Directory m))" if "k \<in> fst ` set (nodes f)" for k
    using t that unfolding tree_ok_keys by blast
  fix k' assume "k' \<in> fst ` set (nodes ?f)"
  then obtain n where "(k', n) \<in> set (nodes ?f)" by auto
  then have "(\<exists>k. (k, n) \<in> set (nodes f) \<and> below a k \<and> k' = rebase a b k)
      \<or> ((k', n) \<in> set (nodes f) \<and> \<not> below a k' \<and> \<not> below b k')" by (auto simp: move_tree_def)
  then consider (moved) k where "k \<in> fst ` set (nodes f)" "below a k" "k' = rebase a b k"
    | (stays) "k' \<in> fst ` set (nodes f)" "\<not> below a k'" "\<not> below b k'"
    by (metis fst_conv image_eqI)
  then show "snd k' \<noteq> [] \<and> (\<exists>m. node_of ?f (parent k') = Some (Directory m))"
  proof cases
    case moved
    have "snd k' \<noteq> []" using moved(3) ne(2) by (simp add: rebase_def)
    moreover have "\<exists>m. node_of ?f (parent k') = Some (Directory m)"
    proof (cases "k = a")
      case True
      have "\<not> below b (parent b)" using ne(2) not_below_parent by blast
      moreover have "\<not> below a (parent b)" using ab(1) below_parent by blast
      ultimately show ?thesis using True moved(3) pb by (simp add: now)
    next
      case False
      then have a: "below a (parent k)" using moved(2) below_parent_iff by blast
      have "parent k' = rebase a b (parent k)" using moved(2,3) False by (rule rebase_parent)
      then have "below b (parent k')" "rebase b a (parent k') = parent k"
        using rebase_iff [OF a, of b "parent k'"] by simp_all
      then show ?thesis using key [OF moved(1)] by (auto simp: now)
    qed
    ultimately show ?thesis by blast
  next
    case stays
    then have "\<not> below a (parent k')" "\<not> below b (parent k')" using below_parent by blast+
    with key [OF stays(1)] show ?thesis by (simp add: now)
  qed
qed

lemma tree_Rename:
  assumes t: "tree_ok f" and run: "os_Rename p q f = (u, f')"
  shows "tree_ok f'"
proof -
  let ?a = "path_key p" and ?b = "path_key q"
  have "f' = f \<or> f' = move_tree ?a ?b f \<and> ?a \<noteq> ?b \<and>
      (\<exists>n d. node_of f ?a = Some n \<and> (node_is_dir n \<longrightarrow> \<not> below ?a ?b \<and> snd ?a \<noteq> [])
        \<and> (\<nexists>m. node_of f ?b = Some (Directory m)) \<and> node_of f (parent ?b) = Some (Directory d))"
    using run by (auto simp: os_Rename_def path_node_def node_at_def split: option.splits node.splits if_splits)
  then show ?thesis
  proof (elim disjE exE conjE)
    fix n d assume m: "f' = move_tree ?a ?b f" "?a \<noteq> ?b" and n: "node_of f ?a = Some n" "node_is_dir n \<longrightarrow> \<not> below ?a ?b \<and> snd ?a \<noteq> []"
      and b: "\<nexists>m. node_of f ?b = Some (Directory m)" "node_of f (parent ?b) = Some (Directory d)"
    have ne: "snd ?a \<noteq> []" "snd ?b \<noteq> []" using n b(1) by (auto simp: node_of_def)
    have dir: "\<exists>m. node_of f k = Some (Directory m)" if "below k k'" "k \<noteq> k'" "node_of f k' = Some x" for k k' x
    proof -
      note k' = that
      obtain r es es' where k: "k = (r, es)" "k' = (r, es @ es')" using k'(1) by (rule below_append)
      then show ?thesis using tree_ok_ancestor [OF t, of r es es' x] k'(2,3) by auto
    qed
    have "\<not> below ?b ?a" using dir [of ?b ?a n] m(2) n(1) b(1) by auto
    moreover have "\<not> below ?a ?b"
    proof
      assume ab: "below ?a ?b"
      then have "below ?a (parent ?b)" using below_parent_iff m(2) by metis
      then have "node_is_dir n" using dir [of ?a "parent ?b" "Directory d"] b(2) n(1) by (cases "?a = parent ?b") auto
      with n(2) ab show False by blast
    qed
    ultimately show ?thesis using tree_move [OF t _ _ ne b(2)] m(1) by simp
  qed (use t in simp)
qed

interpretation tree: fs_invariant tree_ok
  by unfold_locales (fact tree_OpenWrite tree_new tree_Write tree_MkdirAll tree_Remove tree_RemoveAll tree_Rename tree_Chmod)+

end
