(* ===== verification/Go_Glob.thy ===== *)
theory Go_Glob
  imports Go_Tree
begin

text \<open>
  \<open>filepath.Match\<close> and \<open>filepath.Glob\<close> on Unix, for names of one-byte characters. A pattern is parsed once: a
  malformed one is an error whatever it is matched against, as in the library.
\<close>

subsection \<open>Patterns\<close>

datatype glob_elem = AnyRun | AnyChar | OneChar char | CharClass bool "(char \<times> char) list"

definition ErrBadPattern :: go_error where
  "ErrBadPattern = Errorf ''syntax error in pattern''"

abbreviation backslash :: char where "backslash \<equiv> CHR 0x5C"

text \<open>A character of a class, possibly escaped; the class goes on behind it.\<close>

fun get_esc :: "string \<Rightarrow> (char \<times> string) option" where
  "get_esc [] = None"
| "get_esc (c # s) =
     (if c = CHR ''-'' \<or> c = CHR '']'' then None
      else if c = backslash then (case s of [] \<Rightarrow> None | d # r \<Rightarrow> if r = [] then None else Some (d, r))
      else if s = [] then None else Some (c, s))"

lemma get_esc_shorter: "get_esc s = Some (c, r) \<Longrightarrow> length r < length s"
  by (cases s) (auto split: if_splits list.splits)

text \<open>The ranges of a class up to its closing bracket; there is at least one.\<close>

function class_ranges :: "bool \<Rightarrow> string \<Rightarrow> ((char \<times> char) list \<times> string) option" where
  "class_ranges some s =
     (if some \<and> s \<noteq> [] \<and> hd s = CHR '']'' then Some ([], tl s)
      else case get_esc s of
        None \<Rightarrow> None
      | Some (lo, s1) \<Rightarrow>
          (case (if hd s1 = CHR ''-'' then get_esc (tl s1) else Some (lo, s1)) of
             None \<Rightarrow> None
           | Some (hi, s2) \<Rightarrow>
               if length s \<le> length s2 then None
               else (case class_ranges True s2 of None \<Rightarrow> None | Some (rs, rest) \<Rightarrow> Some ((lo, hi) # rs, rest))))"
  by pat_completeness auto
termination by (relation "measure (\<lambda>(some, s). length s)") auto

declare class_ranges.simps [simp del]

text \<open>The guard that makes the recursion end is never met.\<close>

lemma class_guard:
  assumes "get_esc s = Some (lo, s1)" "(if hd s1 = CHR ''-'' then get_esc (tl s1) else Some (lo, s1)) = Some (hi, s2)"
  shows "length s2 < length s"
proof -
  have "length s1 < length s" by (rule get_esc_shorter [OF assms(1)])
  moreover have "length s2 \<le> length s1"
    using assms(2) get_esc_shorter [of "tl s1" hi s2] by (auto split: if_splits)
  ultimately show ?thesis by simp
qed

lemma class_ranges_shorter: "class_ranges some s = Some (rs, r) \<Longrightarrow> length r < length s"
proof (induction some s arbitrary: rs rule: class_ranges.induct)
  case (1 some s)
  show ?case
  proof (cases "some \<and> s \<noteq> [] \<and> hd s = CHR '']''")
    case True
    then show ?thesis using 1(2) [unfolded class_ranges.simps [of some s]] by (cases s) simp_all
  next
    case False
    obtain lo s1 where lo: "get_esc s = Some (lo, s1)"
      using 1(2) False by (auto simp: class_ranges.simps [of some s] split: option.splits)
    obtain hi s2 where hi: "(if hd s1 = CHR ''-'' then get_esc (tl s1) else Some (lo, s1)) = Some (hi, s2)"
      using 1(2) False lo by (auto simp: class_ranges.simps [of some s] split: option.splits)
    note less = class_guard [OF lo hi]
    obtain rs' where "class_ranges True s2 = Some (rs', r)"
      using 1(2) False lo hi less by (auto simp: class_ranges.simps [of some s] split: option.splits)
    with 1(1) [OF False lo refl hi refl] less show ?thesis by fastforce
  qed
qed

text \<open>A whole pattern; nothing when it is malformed.\<close>

function parse_glob :: "string \<Rightarrow> glob_elem list option" where
  "parse_glob [] = Some []"
| "parse_glob (c # s) =
     (if c = CHR ''*'' then map_option ((#) AnyRun) (parse_glob s)
      else if c = CHR ''?'' then map_option ((#) AnyChar) (parse_glob s)
      else if c = CHR ''['' then
        (let negated = (s \<noteq> [] \<and> hd s = CHR ''^'')
         in case class_ranges False (if negated then tl s else s) of
              None \<Rightarrow> None
            | Some (rs, r) \<Rightarrow> map_option ((#) (CharClass negated rs)) (parse_glob r))
      else if c = backslash then (case s of [] \<Rightarrow> None | d # r \<Rightarrow> map_option ((#) (OneChar d)) (parse_glob r))
      else map_option ((#) (OneChar c)) (parse_glob s))"
  by pat_completeness auto
termination
  by (relation "measure length") (auto dest!: class_ranges_shorter split: if_splits)

fun glob_match :: "glob_elem list \<Rightarrow> string \<Rightarrow> bool" where
  "glob_match [] s \<longleftrightarrow> s = []"
| "glob_match (AnyRun # ps) s \<longleftrightarrow>
     glob_match ps s \<or> (case s of [] \<Rightarrow> False | c # cs \<Rightarrow> c \<noteq> slash \<and> glob_match (AnyRun # ps) cs)"
| "glob_match (AnyChar # ps) s \<longleftrightarrow> (case s of [] \<Rightarrow> False | c # cs \<Rightarrow> c \<noteq> slash \<and> glob_match ps cs)"
| "glob_match (OneChar d # ps) s \<longleftrightarrow> (case s of [] \<Rightarrow> False | c # cs \<Rightarrow> c = d \<and> glob_match ps cs)"
| "glob_match (CharClass negated rs # ps) s \<longleftrightarrow>
     (case s of [] \<Rightarrow> False
      | c # cs \<Rightarrow> list_ex (\<lambda>(lo, hi). (of_char lo :: nat) \<le> of_char c \<and> (of_char c :: nat) \<le> of_char hi) rs \<noteq> negated
          \<and> glob_match ps cs)"

definition filepath_Match :: "string \<Rightarrow> string \<Rightarrow> bool go_result" where
  "filepath_Match pattern name =
     (case parse_glob pattern of None \<Rightarrow> Inl ErrBadPattern | Some ps \<Rightarrow> Inr (glob_match ps name))"

subsection \<open>Glob\<close>

definition has_meta :: "string \<Rightarrow> bool" where
  "has_meta p \<longleftrightarrow> (\<exists>c\<in>set p. c \<in> set ''*?['' \<or> c = backslash)"

definition clean_glob_path :: "string \<Rightarrow> string" where
  "clean_glob_path d = (if d = [] then ''.'' else if d = [slash] then d else butlast d)"

text \<open>The names of an open directory, sorted; errors are ignored.\<close>

definition dir_names :: "fs \<Rightarrow> string \<Rightarrow> string list" where
  "dir_names f dir =
     (case os_Stat f dir of
        Inr (Directory m) \<Rightarrow>
          (case os_Open f dir of
             Inl _ \<Rightarrow> []
           | Inr _ \<Rightarrow>
               if faults f (SysReadDir dir) \<noteq> None then []
               else (case follow (Suc max_links) f dir of
                       Inl _ \<Rightarrow> []
                     | Inr q \<Rightarrow> sort (remdups (map (\<lambda>k. last (snd k)) (children (path_key q) f)))))
      | _ \<Rightarrow> [])"

fun glob_names :: "string \<Rightarrow> string \<Rightarrow> string list \<Rightarrow> string list go_result" where
  "glob_names dir pattern [] = Inr []"
| "glob_names dir pattern (n # ns) =
     (case filepath_Match pattern n of
        Inl e \<Rightarrow> Inl e
      | Inr matched \<Rightarrow>
          (case glob_names dir pattern ns of
             Inl e \<Rightarrow> Inl e
           | Inr ms \<Rightarrow> Inr (if matched then filepath_Join [dir, n] # ms else ms)))"

definition glob_dir :: "fs \<Rightarrow> string \<Rightarrow> string \<Rightarrow> string list go_result" where
  "glob_dir f dir pattern = glob_names dir pattern (dir_names f dir)"

fun glob_dirs :: "fs \<Rightarrow> string \<Rightarrow> string list \<Rightarrow> string list go_result" where
  "glob_dirs f pattern [] = Inr []"
| "glob_dirs f pattern (d # ds) =
     (case glob_dir f d pattern of
        Inl e \<Rightarrow> Inl e
      | Inr ms \<Rightarrow> (case glob_dirs f pattern ds of Inl e \<Rightarrow> Inl e | Inr ms' \<Rightarrow> Inr (ms @ ms')))"

text \<open>At most 10000 elements of a pattern have meta characters.\<close>

fun glob_limit :: "nat \<Rightarrow> string \<Rightarrow> fs \<Rightarrow> string list go_result" where
  "glob_limit 0 pattern f = Inl ErrBadPattern"
| "glob_limit (Suc n) pattern f =
     (case filepath_Match pattern [] of
        Inl e \<Rightarrow> Inl e
      | Inr _ \<Rightarrow>
          if \<not> has_meta pattern
          then (case os_Lstat f pattern of Inl _ \<Rightarrow> Inr [] | Inr _ \<Rightarrow> Inr [pattern])
          else let base = drop (length (dir_part pattern)) pattern; dir = clean_glob_path (dir_part pattern)
               in if \<not> has_meta dir then glob_dir f dir base
                  else if dir = pattern then Inl ErrBadPattern
                  else (case glob_limit n dir f of Inl e \<Rightarrow> Inl e | Inr ds \<Rightarrow> glob_dirs f base ds))"

definition filepath_Glob :: "string \<Rightarrow> fs \<Rightarrow> string list go_result" where
  "filepath_Glob pattern f = glob_limit 10000 pattern f"

subsection \<open>Patterns with literal text, stars and question marks\<close>

text \<open>Without brackets and escapes a pattern is never malformed, and its elements are its characters.\<close>

definition simple_elem :: "char \<Rightarrow> glob_elem" where
  "simple_elem c = (if c = CHR ''*'' then AnyRun else if c = CHR ''?'' then AnyChar else OneChar c)"

definition simple_pattern :: "string \<Rightarrow> bool" where
  "simple_pattern p \<longleftrightarrow> CHR ''['' \<notin> set p \<and> backslash \<notin> set p"

lemma simple_pattern_simps [simp]:
  "simple_pattern []"
  "simple_pattern (c # p) \<longleftrightarrow> c \<noteq> CHR ''['' \<and> c \<noteq> backslash \<and> simple_pattern p"
  "simple_pattern (p @ q) \<longleftrightarrow> simple_pattern p \<and> simple_pattern q"
  by (auto simp: simple_pattern_def)

lemma has_meta_simps [simp]:
  "\<not> has_meta []"
  "has_meta (c # p) \<longleftrightarrow> c \<in> set ''*?['' \<or> c = backslash \<or> has_meta p"
  "has_meta (p @ q) \<longleftrightarrow> has_meta p \<or> has_meta q"
  by (auto simp: has_meta_def)

lemma literal_simple: "\<not> has_meta p \<Longrightarrow> simple_pattern p"
  by (auto simp: has_meta_def simple_pattern_def)

lemma parse_simple: "simple_pattern p \<Longrightarrow> parse_glob p = Some (map simple_elem p)"
  by (induction p) (auto simp: simple_pattern_def simple_elem_def)

definition simple_match :: "string \<Rightarrow> string \<Rightarrow> bool" where
  "simple_match p s = glob_match (map simple_elem p) s"

lemma Match_simple: "simple_pattern p \<Longrightarrow> filepath_Match p s = Inr (simple_match p s)"
  by (simp add: filepath_Match_def parse_simple simple_match_def)

lemma glob_names_simple:
  "simple_pattern p \<Longrightarrow> glob_names dir p ns = Inr (map (\<lambda>n. filepath_Join [dir, n]) (filter (simple_match p) ns))"
  by (induction ns) (simp_all add: Match_simple)

text \<open>The directory of a joined path, as \<open>Glob\<close> takes it apart.\<close>

lemma Join_split:
  assumes "a \<noteq> []" "elem_ok e" "e \<noteq> ''..''"
  shows "clean_glob_path (dir_part (filepath_Join [a, e])) = filepath_Clean a"
    and "filepath_Join [a, e] = dir_part (filepath_Join [a, e]) @ e"
    and "set (dir_part (filepath_Join [a, e])) \<subseteq> insert slash (set (filepath_Clean a))"
proof -
  obtain r es where k: "path_key a = (r, es)" by fastforce
  have c: "clean_elems r es" using path_key_clean [OF k] .
  have "filepath_Join [a, e] = render (r, es @ [e])"
    using path_key_name [OF assms] k assms(1,2) path_key_Clean by (simp add: filepath_Join_def filepath_Clean_def elem_ok_def)
  moreover define pre where "pre = (if r then [slash] else []) @ (if es = [] then [] else strings_Join [slash] es @ [slash])"
  ultimately have j: "filepath_Join [a, e] = pre @ e" by (simp add: strings_Join_snoc)
  have e: "\<forall>c\<in>set (rev e). c \<noteq> slash" using assms(2) by (auto simp: elem_ok_def)
  have "rev pre = [] \<or> hd (rev pre) = slash" by (auto simp: pre_def hd_rev)
  then have "dropWhile (\<lambda>c. c \<noteq> slash) (rev e @ rev pre) = rev pre"
    using e by (cases "rev pre") (simp_all add: dropWhile_append)
  then have d: "dir_part (filepath_Join [a, e]) = pre" by (simp add: dir_part_def j)
  then show "filepath_Join [a, e] = dir_part (filepath_Join [a, e]) @ e" by (simp add: j)
  have ne: "es \<noteq> [] \<Longrightarrow> strings_Join [slash] es \<noteq> []"
    using c by (cases es; cases "tl es") (auto simp: clean_elems_def elem_ok_def)
  have cl: "filepath_Clean a = render (r, es)" by (simp add: filepath_Clean_def k)
  show "clean_glob_path (dir_part (filepath_Join [a, e])) = filepath_Clean a"
    unfolding d cl using ne by (cases "es = []"; cases r) (simp_all add: clean_glob_path_def pre_def butlast_append)
  show "set (dir_part (filepath_Join [a, e])) \<subseteq> insert slash (set (filepath_Clean a))"
    unfolding d cl pre_def by (cases "es = []"; cases r) auto
qed

text \<open>One directory is read when it has no meta characters itself.\<close>

lemma glob_limit_dir:
  assumes "simple_pattern p" "has_meta p" "\<not> has_meta d" "clean_glob_path (dir_part p) = d" "drop (length (dir_part p)) p = base"
  shows "glob_limit (Suc n) p f = glob_dir f d base"
  using assms by (simp add: Match_simple)

lemma Glob_one_dir:
  assumes "dir \<noteq> []" "elem_ok pat" "pat \<noteq> ''..''" "simple_pattern pat" "has_meta pat" "\<not> has_meta (filepath_Clean dir)"
  shows "filepath_Glob (filepath_Join [dir, pat]) f =
    Inr (map (\<lambda>n. filepath_Join [filepath_Clean dir, n]) (filter (simple_match pat) (dir_names f (filepath_Clean dir))))"
proof -
  note sp = Join_split [OF assms(1-3)]
  let ?p = "filepath_Join [dir, pat]"
  have "simple_pattern (dir_part ?p @ pat)" "has_meta (dir_part ?p @ pat)"
    using assms(4-6) sp(3) by (auto simp: simple_pattern_def has_meta_def)
  then have p: "simple_pattern ?p" "has_meta ?p" unfolding sp(2) [symmetric] .
  have "drop (length (dir_part ?p)) ?p = pat" using sp(2) by (metis append_eq_conv_conj)
  from glob_limit_dir [OF p assms(6) sp(1) this, of 9999 f] show ?thesis by (simp add: filepath_Glob_def glob_dir_def glob_names_simple [OF assms(4)])
qed

end
