(* ===== verification/Filer.thy ===== *)
theory Filer
  imports Go_Glob
begin

text \<open>
  The file helpers (src/filer/ops.go, src/filer/entry.go and src/filer/marshal.go) over the file system of
  \<open>Go_OS\<close>. Times, the tables of users and groups (src/filer/entry_unix.go) and the two codecs (JSON
  and YAML) come from outside and are parameters.
\<close>

subsection \<open>State and type of a file\<close>

definition filer_IsDir :: "fs \<Rightarrow> string \<Rightarrow> bool" where
  "filer_IsDir f p = (case os_Stat f p of Inl _ \<Rightarrow> False | Inr n \<Rightarrow> node_is_dir n)"

fun node_is_link :: "node \<Rightarrow> bool" where
  "node_is_link (SymLink t) = True"
| "node_is_link _ = False"

definition filer_IsLink :: "fs \<Rightarrow> string \<Rightarrow> bool" where
  "filer_IsLink f p = (case os_Lstat f p of Inl _ \<Rightarrow> False | Inr n \<Rightarrow> node_is_link n)"

definition filer_Exist :: "fs \<Rightarrow> string \<Rightarrow> bool" where
  "filer_Exist f p = (case os_Stat f p of Inl e \<Rightarrow> e = ErrExist | Inr _ \<Rightarrow> True)"

definition filer_NotExist :: "fs \<Rightarrow> string \<Rightarrow> bool" where
  "filer_NotExist f p = (case os_Stat f p of Inl e \<Rightarrow> e = ErrNotExist | Inr _ \<Rightarrow> False)"

text \<open>
  The test on the first 512 bytes. The code compares a floating-point quotient of two numbers up to 512
  with \<open>0.1\<close>; a quotient above one tenth exceeds it by more than \<open>1 / 5120\<close>, and one tenth itself rounds
  to the literal, so the test is the one on integers. An empty file reads as an error at its end.
\<close>

definition text_byte :: "char \<Rightarrow> bool" where
  "text_byte c \<longleftrightarrow> (let b = of_char c :: nat in \<not> (b < 9 \<or> (b > 13 \<and> b < 32) \<or> b = 127))"

definition filer_IsText :: "fs \<Rightarrow> string \<Rightarrow> bool" where
  "filer_IsText f p =
     (case os_ReadFile f p of
        Inl _ \<Rightarrow> False
      | Inr content \<Rightarrow>
          let buf = take 512 content
          in if buf = [] then False
             else if list_ex (\<lambda>c. c = CHR 0x00) buf then False
             else if 10 * length (filter (\<lambda>c. \<not> text_byte c) buf) > length buf then False
             else True)"

subsection \<open>Moving and measuring\<close>

definition filer_Move :: "string \<Rightarrow> string \<Rightarrow> bool \<Rightarrow> unit os" where
  "filer_Move srcPath dstPath overwrite f =
     (case os_Stat f dstPath of
        Inr info \<Rightarrow>
          if \<not> overwrite then (Inl ErrExist, f)
          else let dst = (if node_is_dir info then filepath_Join [dstPath, filepath_Base srcPath] else dstPath)
               in case os_RemoveAll dst f of
                    (Inl err, f1) \<Rightarrow> (Inl err, f1)
                  | (Inr _, f1) \<Rightarrow> os_Rename srcPath dst f1
      | Inl _ \<Rightarrow> os_Rename srcPath dstPath f)"

text \<open>
  \<open>filepath.WalkDir\<close> with the function of \<open>DirSize\<close>: the entries of a directory in the order of their
  names, the first error ends the walk. A link is an entry that is not a directory. The additions wrap at
  64 bits; here the sum wraps once, at the end, which is the same number.
\<close>

definition dir_entries :: "fs \<Rightarrow> pkey \<Rightarrow> pkey list" where
  "dir_entries f k = map (\<lambda>x. (fst k, snd k @ [x])) (sort (remdups (map (\<lambda>k'. last (snd k')) (children k f))))"

fun sum_results :: "int go_result list \<Rightarrow> int go_result" where
  "sum_results [] = Inr 0"
| "sum_results (Inl e # rs) = Inl e"
| "sum_results (Inr n # rs) = (case sum_results rs of Inl e \<Rightarrow> Inl e | Inr m \<Rightarrow> Inr (n + m))"

definition max_depth :: "fs \<Rightarrow> nat" where
  "max_depth f = foldr max (map (\<lambda>(k, n). length (snd k)) (nodes f)) 0"

lemma max_depth_node: "(k, n) \<in> set (nodes f) \<Longrightarrow> length (snd k) \<le> max_depth f"
proof -
  have "x \<in> set xs \<Longrightarrow> x \<le> foldr max xs (0 :: nat)" for x xs
    by (induction xs) auto
  then show "(k, n) \<in> set (nodes f) \<Longrightarrow> length (snd k) \<le> max_depth f"
    unfolding max_depth_def by force
qed

lemma dir_entries_depth: "c \<in> set (dir_entries f k) \<Longrightarrow> length (snd c) = Suc (length (snd k)) \<and> length (snd c) \<le> max_depth f"
proof -
  assume c: "c \<in> set (dir_entries f k)"
  then obtain x where x: "c = (fst k, snd k @ [x])" "x \<in> (\<lambda>k'. last (snd k')) ` set (children k f)"
    by (auto simp: dir_entries_def)
  then have "node_of f c \<noteq> None" using child_names [of x k f] by simp
  then obtain n where "map_of (nodes f) c = Some n" using x(1) by (auto simp: node_of_def split: if_splits)
  then have "length (snd c) \<le> max_depth f" by (intro max_depth_node map_of_SomeD)
  with x(1) show ?thesis by simp
qed

function walk_dir_size :: "fs \<Rightarrow> pkey \<Rightarrow> int go_result" where
  "walk_dir_size f k =
     (case faults f (SysLstat (render k)) of
        Some e \<Rightarrow> Inl e
      | None \<Rightarrow>
          (case node_of f k of
             None \<Rightarrow> Inl ErrNotExist
           | Some n \<Rightarrow>
               if node_is_dir n
               then (case faults f (SysReadDir (render k)) of
                       Some e \<Rightarrow> Inl e
                     | None \<Rightarrow> sum_results (map (walk_dir_size f) (dir_entries f k)))
               else Inr (int (node_size n))))"
  by pat_completeness auto
termination
proof (relation "measure (\<lambda>(f, k). Suc (max_depth f) - length (snd k))")
  fix f k n c
  assume "c \<in> set (dir_entries f k)"
  from dir_entries_depth [OF this] show "((f, c), f, k) \<in> measure (\<lambda>(f, k). Suc (max_depth f) - length (snd k))"
    by (simp add: Suc_diff_le)
qed simp

declare walk_dir_size.simps [simp del]

definition filer_DirSize :: "fs \<Rightarrow> string \<Rightarrow> int go_result" where
  "filer_DirSize f dirPath =
     (if dirPath = [] then Inl ErrNotExist else map_sum id wrap64 (walk_dir_size f (path_key dirPath)))"

subsection \<open>Reading and writing\<close>

definition filer_Read :: "fs \<Rightarrow> string \<Rightarrow> bytes go_result" where
  "filer_Read f p = os_ReadFile f p"

definition filer_Glob :: "string \<Rightarrow> fs \<Rightarrow> string list go_result" where
  "filer_Glob pattern f =
     (case filepath_Glob pattern f of Inl err \<Rightarrow> Inl err | Inr matches \<Rightarrow> Inr matches)"

definition filer_ReadText :: "fs \<Rightarrow> string \<Rightarrow> string go_result" where
  "filer_ReadText f p = os_ReadFile f p"

definition filer_Readlink :: "fs \<Rightarrow> string \<Rightarrow> string" where
  "filer_Readlink f p =
     (if filer_IsLink f p then (case os_Readlink f p of Inr rp \<Rightarrow> rp | Inl _ \<Rightarrow> []) else [])"

text \<open>The directory of a file is made first when it is not there.\<close>

definition with_dir :: "string \<Rightarrow> unit os \<Rightarrow> unit os" where
  "with_dir p act f =
     (if filer_NotExist f (filepath_Dir p)
      then (case os_MkdirAll (filepath_Dir p) 511 f of (Inl e, f1) \<Rightarrow> (Inl e, f1) | (Inr _, f1) \<Rightarrow> act f1)
      else act f)"

definition filer_Append :: "string \<Rightarrow> bytes \<Rightarrow> unit os" where
  "filer_Append p data =
     with_dir p (\<lambda>f. case os_OpenWrite False p 420 f of
                       (Inl e, f1) \<Rightarrow> (Inl e, f1)
                     | (Inr q, f1) \<Rightarrow> file_Write q data f1)"

definition filer_Write :: "string \<Rightarrow> bytes \<Rightarrow> unit os" where
  "filer_Write p data = with_dir p (os_WriteFile p data 420)"

subsection \<open>Information\<close>

record filer_FileInfo =
  ff_Name :: string
  ff_Size :: int
  ff_Mode :: nat
  ff_ModTime :: int
  ff_Symlink :: string
  ff_Owner :: string
  ff_Group :: string
  ff_IsDir :: bool
  ff_Data :: bytes

text \<open>
  What the operating system says of a file beyond its node: its time, the numbers of its owner and group where
  the stat record has them, and the two tables of names, which are looked up by the number in decimal.
\<close>

record stat_env =
  sv_ModTime :: "pkey \<Rightarrow> int"
  sv_windows :: bool
  sv_Sys :: "pkey \<Rightarrow> (nat \<times> nat) option"
  sv_LookupId :: "string \<Rightarrow> string go_result"
  sv_LookupGroupId :: "string \<Rightarrow> string go_result"

definition getFileOwner_unix :: "stat_env \<Rightarrow> pkey \<Rightarrow> string \<times> string \<times> go_error option" where
  "getFileOwner_unix sv k =
     (case sv_Sys sv k of
        None \<Rightarrow> ([], [], Some (Errorf ''not a syscall.Stat_t''))
      | Some (uid, gid) \<Rightarrow>
          (case sv_LookupId sv (strconv_Itoa (int uid)) of
             Inl err \<Rightarrow> ([], [], Some err)
           | Inr usr \<Rightarrow>
               (case sv_LookupGroupId sv (strconv_Itoa (int gid)) of
                  Inl err \<Rightarrow> ([], [], Some err)
                | Inr grp \<Rightarrow> (usr, grp, None))))"

definition getFileOwner_windows :: "string \<times> string \<times> go_error option" where
  "getFileOwner_windows = ([], [], Some (Errorf ''Not implemented''))"

definition getFileOwner :: "stat_env \<Rightarrow> pkey \<Rightarrow> string \<times> string \<times> go_error option" where
  "getFileOwner sv k = (if sv_windows sv then getFileOwner_windows else getFileOwner_unix sv k)"

text \<open>The entries drop the error: an owner whose group has no name has no name either.\<close>

lemma getFileOwner_all_or_nothing:
  "getFileOwner sv k = (usr, grp, Some err) \<Longrightarrow> usr = [] \<and> grp = []"
  by (auto simp: getFileOwner_def getFileOwner_unix_def getFileOwner_windows_def split: if_splits option.splits sum.splits)

definition info_of :: "stat_env \<Rightarrow> fs \<Rightarrow> string \<Rightarrow> string \<Rightarrow> node \<Rightarrow> bool \<Rightarrow> filer_FileInfo" where
  "info_of sv f name p n isDir =
     (let (uName, gName, _) = getFileOwner sv (path_key p) in
     \<lparr>ff_Name = name, ff_Size = int (node_size n), ff_Mode = node_perm n mod 512, ff_ModTime = sv_ModTime sv (path_key p),
      ff_Symlink = filer_Readlink f p, ff_Owner = uName, ff_Group = gName,
      ff_IsDir = isDir, ff_Data = []\<rparr>)"

fun list_infos :: "stat_env \<Rightarrow> fs \<Rightarrow> string \<Rightarrow> string list \<Rightarrow> filer_FileInfo list go_result" where
  "list_infos sv f dir [] = Inr []"
| "list_infos sv f dir (name # names) =
     (let fp = filepath_Join [dir, name]
      in case os_Lstat f fp of
           Inl e \<Rightarrow> Inl e
         | Inr n \<Rightarrow>
             (case list_infos sv f dir names of
                Inl e \<Rightarrow> Inl e
              | Inr infos \<Rightarrow> Inr (info_of sv f name fp n (filer_IsDir f fp) # infos)))"

definition filer_List :: "stat_env \<Rightarrow> fs \<Rightarrow> string \<Rightarrow> filer_FileInfo list go_result" where
  "filer_List sv f dir =
     (case faults f (SysReadDir dir) of
        Some e \<Rightarrow> Inl e
      | None \<Rightarrow>
          (case os_Open f dir of
             Inl e \<Rightarrow> Inl e
           | Inr n \<Rightarrow>
               if \<not> node_is_dir n then Inl (ErrIO ''not a directory'')
               else (case follow (Suc max_links) f dir of
                       Inl e \<Rightarrow> Inl e
                     | Inr q \<Rightarrow> list_infos sv f dir (map (\<lambda>k. last (snd k)) (dir_entries f (path_key q))))))"

definition filer_Info :: "stat_env \<Rightarrow> fs \<Rightarrow> string \<Rightarrow> bool \<Rightarrow> filer_FileInfo go_result" where
  "filer_Info sv f p readData =
     (case os_Stat f p of
        Inl e \<Rightarrow> Inl e
      | Inr n \<Rightarrow>
          let detail = info_of sv f (filepath_Base p) p n (node_is_dir n)
          in if readData \<and> \<not> node_is_dir n
             then (case os_ReadFile f p of Inl e \<Rightarrow> Inl e | Inr content \<Rightarrow> Inr (detail\<lparr>ff_Data := content\<rparr>))
             else Inr detail)"

subsection \<open>Encoded data\<close>

text \<open>
  The marshallers of encoding/json and yaml.v3 are parameters: one makes bytes of a value, the other reads
  bytes into a value, which it may leave partly filled when it fails.
\<close>

definition SaveJson :: "('d \<Rightarrow> bytes go_result) \<Rightarrow> string \<Rightarrow> 'd \<Rightarrow> unit os" where
  "SaveJson json_MarshalIndent p data f =
     (case json_MarshalIndent data of Inl e \<Rightarrow> (Inl e, f) | Inr buf \<Rightarrow> filer_Write p buf f)"

definition ReadJson :: "(bytes \<Rightarrow> 'd \<Rightarrow> go_error option \<times> 'd) \<Rightarrow> fs \<Rightarrow> string \<Rightarrow> 'd \<Rightarrow> go_error option \<times> 'd" where
  "ReadJson json_Unmarshal f p data =
     (case filer_Read f p of Inl e \<Rightarrow> (Some e, data) | Inr buf \<Rightarrow> json_Unmarshal buf data)"

definition ReadJsonT :: "(bytes \<Rightarrow> 'd \<Rightarrow> go_error option \<times> 'd) \<Rightarrow> 'd \<Rightarrow> fs \<Rightarrow> string \<Rightarrow> 'd \<times> go_error option" where
  "ReadJsonT json_Unmarshal zero f p =
     (case filer_Read f p of
        Inl e \<Rightarrow> (zero, Some e)
      | Inr buf \<Rightarrow> (case json_Unmarshal buf zero of (err, result) \<Rightarrow> (result, err)))"

definition SaveYaml :: "('d \<Rightarrow> bytes go_result) \<Rightarrow> string \<Rightarrow> 'd \<Rightarrow> unit os" where
  "SaveYaml yaml_Marshal p data f =
     (case yaml_Marshal data of Inl e \<Rightarrow> (Inl e, f) | Inr buf \<Rightarrow> filer_Write p buf f)"

definition ReadYaml :: "(bytes \<Rightarrow> 'd \<Rightarrow> go_error option \<times> 'd) \<Rightarrow> fs \<Rightarrow> string \<Rightarrow> 'd \<Rightarrow> go_error option \<times> 'd" where
  "ReadYaml yaml_Unmarshal f p data =
     (case filer_Read f p of Inl e \<Rightarrow> (Some e, data) | Inr buf \<Rightarrow> yaml_Unmarshal buf data)"

definition ReadYamlT :: "(bytes \<Rightarrow> 'd \<Rightarrow> go_error option \<times> 'd) \<Rightarrow> 'd \<Rightarrow> fs \<Rightarrow> string \<Rightarrow> 'd \<times> go_error option" where
  "ReadYamlT yaml_Unmarshal zero f p =
     (case filer_Read f p of
        Inl e \<Rightarrow> (zero, Some e)
      | Inr buf \<Rightarrow> (case yaml_Unmarshal buf zero of (err, result) \<Rightarrow> (result, err)))"

subsection \<open>Lemmas: what was written is read\<close>

lemma follow_not_link: "follow n f p = Inr q \<Longrightarrow> \<nexists>t. node_at f q = Some (SymLink t)"
  by (induction n f p rule: follow.induct) (auto simp: follow.simps split: option.splits node.splits if_splits)

lemma follow_ne: "follow n f p = Inr q \<Longrightarrow> p \<noteq> [] \<and> q \<noteq> []"
  by (induction n f p rule: follow.induct) (auto simp: follow.simps split: option.splits node.splits if_splits)

lemma follow_self: "\<nexists>t. node_at f q = Some (SymLink t) \<Longrightarrow> q \<noteq> [] \<Longrightarrow> follow (Suc n) f q = Inr q"
  by (auto simp: follow.simps split: option.splits node.splits)

text \<open>Writing a file does not change where a path leads.\<close>

lemma follow_put:
  "follow n f p = Inr q \<Longrightarrow> follow n (put_node (path_key q) (RegFile c m) f) p = Inr q"
proof (induction n f p rule: follow.induct)
  case (2 n f p)
  let ?f = "put_node (path_key q) (RegFile c m) f"
  have q: "\<nexists>t. node_at f q = Some (SymLink t)" by (rule follow_not_link [OF 2(2)])
  show ?case
  proof (cases "\<exists>t. node_at f p = Some (SymLink t)")
    case True
    then obtain t where t: "node_at f p = Some (SymLink t)" by blast
    then have "path_key p \<noteq> path_key q" using q by (auto simp: node_at_def)
    then have "node_at ?f p = Some (SymLink t)" using t by (simp add: node_at_def node_of_put)
    then show ?thesis using 2 t node_at_ne(2) [OF t] by (simp add: follow.simps)
  next
    case False
    then have "p = q" "p \<noteq> []" using 2(2) by (auto simp: follow.simps split: option.splits node.splits if_splits)
    then show ?thesis using False by (simp add: follow.simps node_at_def node_of_put split: option.split node.split)
  qed
qed simp

lemma OpenWrite_ok:
  assumes "os_OpenWrite trunc p perm f = (Inr q, f')"
  shows "follow (Suc max_links) f' p = Inr q" "faults f' = faults f"
    "\<exists>m. node_at f' q = Some (RegFile (case node_at f q of Some (RegFile c _) \<Rightarrow> if trunc then [] else c | _ \<Rightarrow> []) m)"
    "follow (Suc max_links) f p = Inr q"
proof -
  have q: "follow (Suc max_links) f p = Inr q"
    using assms by (auto simp: os_OpenWrite_def split: option.splits sum.splits node.splits)
  have nq: "snd (path_key q) = [] \<Longrightarrow> \<exists>m. node_at f q = Some (Directory m)"
    by (simp add: node_at_def node_of_def)
  have "(\<exists>c m. node_at f q = Some (RegFile c m) \<and> f' = (if trunc then put_node (path_key q) (RegFile [] m) f else f))
      \<or> (node_at f q = None \<and> f' = put_node (path_key q) (RegFile [] perm) f)"
  proof (cases "node_at f q")
    case None
    then show ?thesis using assms q
      by (auto simp: os_OpenWrite_def split: option.splits node.splits)
  next
    case (Some n)
    then show ?thesis using assms q
      by (cases n) (auto simp: os_OpenWrite_def split: option.splits)
  qed
  then show "follow (Suc max_links) f' p = Inr q" "faults f' = faults f"
    "\<exists>m. node_at f' q = Some (RegFile (case node_at f q of Some (RegFile c _) \<Rightarrow> if trunc then [] else c | _ \<Rightarrow> []) m)"
    "follow (Suc max_links) f p = Inr q"
    using q follow_put [OF q] nq by (auto simp: node_at_def node_of_put)
qed

lemma file_Write_at:
  assumes "file_Write q data f = (Inr (), f')" "follow (Suc max_links) f p = Inr q" "node_at f q = Some (RegFile c m)"
  shows "follow (Suc max_links) f' p = Inr q" "faults f' = faults f" "node_at f' q = Some (RegFile (c @ data) m)"
proof -
  have f': "f' = put_node (path_key q) (RegFile (c @ data) m) f" using assms(1,3) by (auto simp: file_Write_def split: option.splits)
  show "follow (Suc max_links) f' p = Inr q" unfolding f' by (rule follow_put [OF assms(2)])
  show "faults f' = faults f" "node_at f' q = Some (RegFile (c @ data) m)"
    using assms(3) unfolding f' by (auto simp: node_at_def node_of_put) (auto simp: node_of_def)
qed

text \<open>The file a path leads to, when it leads to a regular file.\<close>

definition content_at :: "fs \<Rightarrow> string \<Rightarrow> bytes option" where
  "content_at f p =
     (case follow (Suc max_links) f p of
        Inl _ \<Rightarrow> None
      | Inr q \<Rightarrow> (case node_at f q of Some (RegFile c m) \<Rightarrow> Some c | _ \<Rightarrow> None))"

lemma Read_content: "faults f = (\<lambda>_. None) \<Longrightarrow> content_at f p = Some c \<Longrightarrow> filer_Read f p = Inr c"
  by (auto simp: filer_Read_def os_ReadFile_def os_Open_def content_at_def split: sum.splits option.splits node.splits)

lemma with_dir_run:
  assumes "with_dir p act f = (Inr (), f')"
  obtains f1 where "act f1 = (Inr (), f')" "faults f1 = faults f"
    "f1 = f \<or> (filer_NotExist f (filepath_Dir p) \<and> os_MkdirAll (filepath_Dir p) 511 f = (Inr (), f1))"
  using assms MkdirAll_ok(1) by (auto simp: with_dir_def split: if_splits prod.splits sum.splits)

lemma filer_Write_content:
  assumes "filer_Write p data f = (Inr (), f')"
  shows "content_at f' p = Some data" "faults f' = faults f"
proof -
  obtain f1 where f1: "os_WriteFile p data 420 f1 = (Inr (), f')" "faults f1 = faults f"
    using assms unfolding filer_Write_def by (elim with_dir_run)
  then obtain q f2 where o: "os_OpenWrite True p 420 f1 = (Inr q, f2)" "file_Write q data f2 = (Inr (), f')"
    by (auto simp: os_WriteFile_def split: prod.splits sum.splits)
  obtain m where n: "node_at f2 q = Some (RegFile [] m)" using OpenWrite_ok(3) [OF o(1)] by (auto split: option.splits node.splits)
  note w = file_Write_at [OF o(2) OpenWrite_ok(1) [OF o(1)] n]
  show "content_at f' p = Some data" "faults f' = faults f"
    using w f1(2) OpenWrite_ok(2) [OF o(1)] by (simp_all add: content_at_def)
qed

lemma filer_Append_content:
  assumes "filer_Append p data f = (Inr (), f')" "content_at f p = Some c" "\<not> filer_NotExist f (filepath_Dir p)"
  shows "content_at f' p = Some (c @ data)" "faults f' = faults f"
proof -
  obtain q f2 where o: "os_OpenWrite False p 420 f = (Inr q, f2)" "file_Write q data f2 = (Inr (), f')"
    using assms by (auto simp: filer_Append_def with_dir_def split: prod.splits sum.splits)
  have "node_at f q = Some (RegFile c m) \<Longrightarrow> \<exists>m. node_at f2 q = Some (RegFile c m)" for m
    using OpenWrite_ok(3) [OF o(1)] by auto
  moreover have "\<exists>m. node_at f q = Some (RegFile c m)"
    using assms(2) OpenWrite_ok(4) [OF o(1)] by (auto simp: content_at_def split: option.splits node.splits)
  ultimately obtain m where n: "node_at f2 q = Some (RegFile c m)" by blast
  note w = file_Write_at [OF o(2) OpenWrite_ok(1) [OF o(1)] n]
  show "content_at f' p = Some (c @ data)" "faults f' = faults f"
    using w OpenWrite_ok(2) [OF o(1)] by (simp_all add: content_at_def)
qed

text \<open>
  C29. What was written is read, through symbolic links too, when no system call fails. When a write of a file reports
  success, reading the file succeeds and gives exactly the data; when appending to a file that has its directory
  reports success, reading it gives the old content and then the new data.
\<close>

theorem filer_write_append_read:
  assumes "faults f = (\<lambda>_. None)"
  shows "(filer_Write p data f = (Inr (), f') \<longrightarrow> filer_Read f' p = Inr data)
    \<and> (filer_Append p data f = (Inr (), f') \<and> content_at f p = Some old \<and> \<not> filer_NotExist f (filepath_Dir p)
        \<longrightarrow> filer_Read f' p = Inr (old @ data))"
  using assms filer_Write_content filer_Append_content by (auto intro: Read_content)

definition demo_link_fs :: fs where
  "demo_link_fs = \<lparr>nodes = [((False, [''l'']), SymLink ''t''), ((False, [''t'']), RegFile ''old'' 420)], faults = (\<lambda>_. None)\<rparr>"

lemma demo_link_keys: "path_key ''l'' = (False, [''l''])" "path_key ''t'' = (False, [''t''])" "path_key ''.'' = (False, [])"
  "filepath_Dir ''l'' = ''.''" "filepath_Join [''.'', ''t''] = ''t''"
  by code_simp+

lemma demo_link_follow: "follow (Suc max_links) demo_link_fs ''l'' = Inr ''t''"
  by (simp add: follow.simps demo_link_fs_def node_at_def node_of_def demo_link_keys max_links_def filepath_IsAbs_def numeral_eq_Suc)

theorem filer_write_append_read_witness:
  "\<exists>f'. filer_Write ''l'' ''new'' demo_link_fs = (Inr (), f') \<and> filer_Read f' ''l'' = Inr ''new''"
proof -
  let ?f = "put_node (False, [''t'']) (RegFile [] 420) demo_link_fs"
  have "\<not> filer_NotExist demo_link_fs ''.''"
    by (simp add: filer_NotExist_def os_Stat_def node_at_def node_of_def demo_link_keys demo_link_fs_def)
  moreover have "node_at demo_link_fs ''t'' = Some (RegFile ''old'' 420)" "faults demo_link_fs = (\<lambda>_. None)"
    by (simp_all add: node_at_def node_of_def demo_link_keys demo_link_fs_def)
  then have "os_OpenWrite True ''l'' 420 demo_link_fs = (Inr ''t'', ?f)"
    using demo_link_follow by (simp add: os_OpenWrite_def demo_link_keys)
  moreover obtain f' where "file_Write ''t'' ''new'' ?f = (Inr (), f')"
    by (simp add: file_Write_def node_at_def node_of_put demo_link_keys demo_link_fs_def)
  ultimately have w: "filer_Write ''l'' ''new'' demo_link_fs = (Inr (), f')"
    by (simp add: filer_Write_def with_dir_def demo_link_keys os_WriteFile_def)
  then show ?thesis using filer_write_append_read [of demo_link_fs "''l''" "''new''" f'] by (simp add: demo_link_fs_def)
qed

subsection \<open>Moving a file onto itself\<close>

text \<open>
  A move that overwrites destroys the file when source and destination are the same: the destination is
  removed first, so the rename finds nothing, the call fails, and the file is gone.
\<close>

theorem filer_Move_onto_itself:
  assumes "faults f = (\<lambda>_. None)" and "node_at f p = Some (RegFile c m)" and "\<not> ends_with_dot p"
  shows "\<exists>f'. filer_Move p p True f = (Inl ErrNotExist, f') \<and> node_at f' p = None"
proof -
  let ?f = "drop_tree (path_key p) f"
  have ne: "p \<noteq> []" by (rule node_at_ne(1) [OF assms(2)])
  have st: "os_Stat f p = Inr (RegFile c m)" using assms by (simp add: os_Stat_def)
  have rm: "os_RemoveAll p f = (Inr (), ?f)" using assms(1,3) ne by (simp add: os_RemoveAll_def)
  have "snd (path_key p) \<noteq> []" using assms(2) by (auto simp: node_at_def node_of_def)
  then have gone: "node_at ?f p = None" by (simp add: node_at_def node_of_drop)
  then have "os_Rename p p ?f = (Inl ErrNotExist, ?f)" using assms(1) ne by (simp add: os_Rename_def drop_tree_def)
  then show ?thesis using st rm gone by (simp add: filer_Move_def)
qed

theorem filer_Move_onto_itself_witness:
  "\<exists>f'. filer_Move ''t'' ''t'' True demo_link_fs = (Inl ErrNotExist, f') \<and> node_at f' ''t'' = None"
  by (rule filer_Move_onto_itself)
    (simp_all add: demo_link_fs_def node_at_def node_of_def demo_link_keys ends_with_dot_def strings_HasSuffix_def suffix_def)

subsection \<open>The size of a directory\<close>

text \<open>The files below a directory, and their sizes.\<close>

definition files_below :: "fs \<Rightarrow> pkey \<Rightarrow> pkey set" where
  "files_below f k = {k'. below k k' \<and> (\<exists>n. node_of f k' = Some n \<and> \<not> node_is_dir n)}"

definition size_at :: "fs \<Rightarrow> pkey \<Rightarrow> int" where
  "size_at f k = (case node_of f k of None \<Rightarrow> 0 | Some n \<Rightarrow> int (node_size n))"

lemma set_dir_entries: "c \<in> set (dir_entries f k) \<longleftrightarrow> (\<exists>x n. c = (fst k, snd k @ [x]) \<and> node_of f c = Some n)"
  using child_names [of _ k f] by (auto simp: dir_entries_def image_iff)

lemma distinct_dir_entries: "distinct (dir_entries f k)"
  by (simp add: dir_entries_def distinct_map inj_on_def)

lemma files_below_dir:
  assumes "tree_ok f" "node_of f k = Some n" "node_is_dir n"
  shows "files_below f k = (\<Union>c\<in>set (dir_entries f k). files_below f c)"
proof (intro set_eqI iffI)
  fix k' assume "k' \<in> files_below f k"
  then obtain n' where k': "below k k'" "node_of f k' = Some n'" "\<not> node_is_dir n'" by (auto simp: files_below_def)
  from k'(1) obtain r es es' where e: "k = (r, es)" "k' = (r, es @ es')" by (rule below_append)
  have "es' \<noteq> []" using e k' assms(2,3) by auto
  then obtain x xs where x: "es' = x # xs" by (cases es') auto
  have "\<exists>n. node_of f (r, es @ [x]) = Some n"
    using tree_ok_ancestor [OF assms(1), of r "es @ [x]" xs n'] k'(2) e x by (cases "xs = []") auto
  then have "(r, es @ [x]) \<in> set (dir_entries f k)" using e by (simp add: set_dir_entries)
  moreover have "k' \<in> files_below f (r, es @ [x])" using k' e x by (simp add: files_below_def below_iff_prefix del: below.simps)
  ultimately show "k' \<in> (\<Union>c\<in>set (dir_entries f k). files_below f c)" by blast
next
  fix k' assume "k' \<in> (\<Union>c\<in>set (dir_entries f k). files_below f c)"
  then obtain x where "k' \<in> files_below f (fst k, snd k @ [x])" by (auto simp: set_dir_entries)
  then show "k' \<in> files_below f k"
    by (auto simp: files_below_def below_iff_prefix simp del: below.simps intro: append_prefixD)
qed

lemma files_below_file:
  assumes "tree_ok f" "node_of f k = Some n" "\<not> node_is_dir n"
  shows "files_below f k = {k}"
proof -
  have "k' = k" if b: "below k k'" "node_of f k' = Some n'" for k' n'
  proof -
    from b(1) obtain r es es' where e: "k = (r, es)" "k' = (r, es @ es')" by (rule below_append)
    have "es' = []"
    proof (rule ccontr)
      assume "es' \<noteq> []"
      then have "\<exists>m. node_of f k = Some (Directory m)" using tree_ok_ancestor [OF assms(1)] b(2) e by blast
      with assms(2,3) show False by auto
    qed
    with e show ?thesis by simp
  qed
  then show ?thesis using assms(2,3) by (auto simp: files_below_def)
qed

lemma finite_files_below: "finite (files_below f k)"
proof (rule finite_subset)
  show "files_below f k \<subseteq> fst ` set (nodes f)"
    by (auto simp: files_below_def node_of_def split: if_splits dest!: map_of_SomeD intro: rev_image_eqI)
qed simp

lemma files_below_disjoint:
  "snd c \<noteq> snd d \<Longrightarrow> length (snd c) = length (snd d) \<Longrightarrow> files_below f c \<inter> files_below f d = {}"
  by (auto simp: files_below_def below_iff_prefix prefix_def append_eq_append_conv simp del: below.simps)

lemma sum_results_Inr: "sum_results (map (\<lambda>x. Inr (g x)) xs) = Inr (sum_list (map g xs))"
  by (induction xs) auto

lemma walk_dir_size_sum:
  "faults f = (\<lambda>_. None) \<Longrightarrow> tree_ok f \<Longrightarrow> node_of f k = Some n \<Longrightarrow>
     walk_dir_size f k = Inr (sum (size_at f) (files_below f k))"
proof (induction f k arbitrary: n rule: walk_dir_size.induct)
  case (1 f k)
  show ?case
  proof (cases "node_is_dir n")
    case False
    with files_below_file [OF 1(3,4)] 1(2,4) show ?thesis
      by (subst walk_dir_size.simps) (simp add: size_at_def)
  next
    case True
    have "walk_dir_size f c = Inr (sum (size_at f) (files_below f c))" if "c \<in> set (dir_entries f k)" for c
    proof -
      obtain m where m: "node_of f c = Some m" using \<open>c \<in> set (dir_entries f k)\<close> by (auto simp: set_dir_entries)
      show ?thesis
        by (rule 1(1) [OF _ 1(4) True _ that 1(2,3) m]) (simp_all add: 1(2))
    qed
    then have "map (walk_dir_size f) (dir_entries f k) = map (\<lambda>c. Inr (sum (size_at f) (files_below f c))) (dir_entries f k)"
      by (intro map_cong) simp_all
    then have "sum_results (map (walk_dir_size f) (dir_entries f k)) = Inr (\<Sum>c\<leftarrow>dir_entries f k. sum (size_at f) (files_below f c))"
      by (simp only: sum_results_Inr)
    then have "walk_dir_size f k = Inr (\<Sum>c\<leftarrow>dir_entries f k. sum (size_at f) (files_below f c))"
      using 1(2,4) True by (subst walk_dir_size.simps) simp
    also have "(\<Sum>c\<leftarrow>dir_entries f k. sum (size_at f) (files_below f c)) = (\<Sum>c\<in>set (dir_entries f k). sum (size_at f) (files_below f c))"
      by (rule sum_list_distinct_conv_sum_set [OF distinct_dir_entries])
    also have "\<dots> = sum (size_at f) (\<Union>c\<in>set (dir_entries f k). files_below f c)"
    proof (rule sum.UNION_disjoint [symmetric])
      show "\<forall>c\<in>set (dir_entries f k). \<forall>d\<in>set (dir_entries f k). c \<noteq> d \<longrightarrow> files_below f c \<inter> files_below f d = {}"
        by (auto simp: set_dir_entries intro!: files_below_disjoint)
    qed (simp_all add: finite_files_below)
    finally show ?thesis using files_below_dir [OF 1(3,4) True] by simp
  qed
qed

text \<open>
  C30. \<open>DirSize\<close> is the sum it should be: without failing system calls, in a file system whose nodes lie in
  directories, it ends and returns the sum, as a 64-bit number, of the sizes of all nodes at or below the
  path that are not directories - symbolic links included, with the length of their target, although the
  code means to skip them.
\<close>

theorem filer_DirSize_sum:
  assumes "faults f = (\<lambda>_. None)" and "tree_ok f" and "node_at f p = Some n" and "p \<noteq> []"
  shows "filer_DirSize f p = Inr (wrap64 (sum (size_at f) {k. below (path_key p) k \<and> (\<exists>n. node_of f k = Some n \<and> \<not> node_is_dir n)}))"
  using walk_dir_size_sum [OF assms(1,2)] assms(3)
  assms(4) by (simp add: filer_DirSize_def node_at_def files_below_def [symmetric])

theorem filer_DirSize_sum_witness:
  "filer_DirSize demo_link_fs ''.'' = Inr 4"
proof -
  have ok: "tree_ok demo_link_fs" by (simp add: tree_ok_def demo_link_fs_def node_of_def)
  have below: "{k. below (path_key ''.'') k \<and> (\<exists>n. node_of demo_link_fs k = Some n \<and> \<not> node_is_dir n)} =
      {(False, [''l'']), (False, [''t''])}"
    by (auto simp: demo_link_keys node_of_def demo_link_fs_def split: if_splits)
  have size: "size_at demo_link_fs (False, [''l'']) = 1" "size_at demo_link_fs (False, [''t'']) = 3"
    by (simp_all add: size_at_def node_of_def demo_link_fs_def)
  have "filer_DirSize demo_link_fs ''.'' = Inr (wrap64 (sum (size_at demo_link_fs) {(False, [''l'']), (False, [''t''])}))"
    using filer_DirSize_sum [OF _ ok, of "''.''" "Directory 493"] below
    by (simp add: demo_link_fs_def node_at_def node_of_def demo_link_keys)
  then show ?thesis by (simp add: size wrap64_id in_int64_def min_int64_def max_int64_def)
qed

subsection \<open>Embedded files\<close>

text \<open>
  \<open>ReleaseEmbedFS\<close> (src/filer/embed.go). An embedded file system is what a walk over it visits, in order; the
  walk ends at the first error. \<open>pick\<close> is the name that \<open>os.MkdirTemp\<close> makes from a pattern; 448 is 0700.
\<close>

datatype embed_visit = EmbedDir string | EmbedFile string "bytes go_result" | EmbedError go_error

definition os_MkdirTemp :: "(string \<Rightarrow> string) \<Rightarrow> string \<Rightarrow> string os" where
  "os_MkdirTemp pick pattern f = os_Mkdir (pick pattern) 448 f"

text \<open>The type of an entry has no permission bits, so a file is created with the mode 0.\<close>

definition release_file :: "string \<Rightarrow> bytes go_result \<Rightarrow> unit os" where
  "release_file target data f =
     (case data of Inl err \<Rightarrow> (Inl err, f) | Inr bs \<Rightarrow> os_WriteFile target bs 0 f)"

fun release_visit :: "string \<Rightarrow> string \<Rightarrow> embed_visit \<Rightarrow> unit os" where
  "release_visit root tempDir (EmbedError err) f = (Inl err, f)"
| "release_visit root tempDir (EmbedDir p) f =
     (case filepath_Rel root p of
        Inl err \<Rightarrow> (Inl err, f)
      | Inr relPath \<Rightarrow> os_MkdirAll (filepath_Join [tempDir, relPath]) 493 f)"
| "release_visit root tempDir (EmbedFile p data) f =
     (case filepath_Rel root p of
        Inl err \<Rightarrow> (Inl err, f)
      | Inr relPath \<Rightarrow> release_file (filepath_Join [tempDir, relPath]) data f)"

fun release_walk :: "string \<Rightarrow> string \<Rightarrow> embed_visit list \<Rightarrow> unit os" where
  "release_walk root tempDir [] f = (Inr (), f)"
| "release_walk root tempDir (v # vs) f =
     (case release_visit root tempDir v f of
        (Inl err, f1) \<Rightarrow> (Inl err, f1)
      | (Inr _, f1) \<Rightarrow> release_walk root tempDir vs f1)"

definition ReleaseEmbedFS :: "(string \<Rightarrow> string) \<Rightarrow> embed_visit list \<Rightarrow> string \<Rightarrow> string list \<Rightarrow> string os" where
  "ReleaseEmbedFS pick visits root args f =
     (case os_MkdirTemp pick (case args of [] \<Rightarrow> ''efs-*'' | a # _ \<Rightarrow> a) f of
        (Inl err, f1) \<Rightarrow> (Inl err, f1)
      | (Inr tempDir, f1) \<Rightarrow>
          (case release_walk root tempDir visits f1 of
             (Inl err, f2) \<Rightarrow> (Inl err, snd (os_RemoveAll tempDir f2))
           | (Inr _, f2) \<Rightarrow> (Inr tempDir, f2)))"

text \<open>When it fails, nothing is left at or below the temporary directory, unless its removal fails too.\<close>

lemma RemoveAll_gone:
  assumes "faults f (SysRemoveAll p) = None" "below (path_key p) k" "p \<noteq> []" "\<not> ends_with_dot p"
  shows "map_of (nodes (snd (os_RemoveAll p f))) k = None"
  using assms by (auto simp: os_RemoveAll_def drop_tree_def map_of_eq_None_iff)

lemma release_visit_faults: "release_visit root d v f = (r, f1) \<Longrightarrow> faults f1 = faults f"
  by (cases v) (auto simp: release_file_def dest: faults_os env.keeps_WriteFile [OF refl] split: sum.splits)

lemma release_walk_faults: "release_walk root d vs f = (r, f1) \<Longrightarrow> faults f1 = faults f"
proof (induction vs arbitrary: f)
  case (Cons v vs)
  obtain r2 f2 where v: "release_visit root d v f = (r2, f2)" by fastforce
  with Cons show ?case using release_visit_faults [OF v] by (cases r2) auto
qed simp

lemma ReleaseEmbedFS_cleans:
  assumes run: "ReleaseEmbedFS pick visits root args f = (Inl err, f')" and ok: "faults f (SysRemoveAll d) = None"
    and tmp: "os_MkdirTemp pick (case args of [] \<Rightarrow> ''efs-*'' | a # _ \<Rightarrow> a) f = (Inr d, f1)" and k: "below (path_key d) k" "\<not> ends_with_dot d"
  shows "map_of (nodes f') k = None"
proof -
  from run tmp obtain f2 where w: "release_walk root d visits f1 = (Inl err, f2)" "f' = snd (os_RemoveAll d f2)"
    by (auto simp: ReleaseEmbedFS_def split: prod.splits sum.splits)
  have f1: "faults f1 = faults f" "d \<noteq> []"
    using tmp by (auto simp: os_MkdirTemp_def os_Mkdir_def put_new_def node_at_ne split: option.splits node.splits)
  with release_walk_faults [OF w(1)] ok have "faults f2 (SysRemoveAll d) = None" by simp
  from RemoveAll_gone [OF this k(1) f1(2) k(2)] w(2) show ?thesis by simp
qed

text \<open>A released file cannot be read by its owner.\<close>

lemma ReleaseEmbedFS_mode:
  "node_at (snd (ReleaseEmbedFS (\<lambda>_. ''t'') [EmbedDir ''a'', EmbedFile ''a/x'' (Inr ''hi'')] ''a'' [] empty_fs)) ''t/x''
     = Some (RegFile ''hi'' 0)"
  by code_simp

end
