(* ===== verification/Archive.thy ===== *)
theory Archive
  imports Filer
begin

text \<open>
  Archives (src/archive/zip.go and src/archive/tar.gz.go) over the file system of \<open>Go_OS\<close>. The formats
  belong to archive/zip, archive/tar and compress/gzip: what a file's bytes decode to, what entries encode
  to, and the errors of the streams are parameters.
\<close>

subsection \<open>Making a zip file\<close>

record zip_entry =
  ze_Name :: string
  ze_IsDir :: bool
  ze_Data :: bytes
  ze_OpenErr :: "go_error option"
  ze_CopyErr :: "go_error option"

text \<open>
  \<open>zl_encode\<close> is the file a writer makes of its entries, \<open>zl_add_err\<close> the error it reports while the next
  entry is added, \<open>zl_decode\<close> what a reader finds in a file. The writer buffers, so the file is written when
  the writer is closed.
\<close>

record zip_lib =
  zl_encode :: "(string \<times> bytes) list \<Rightarrow> bytes"
  zl_add_err :: "(string \<times> bytes) list \<Rightarrow> go_error option"
  zl_decode :: "bytes \<Rightarrow> zip_entry list go_result"

text \<open>
  The calls that \<open>filepath.Walk\<close> makes for a tree, for everything that is not a directory: an error, or the
  path of a file. For a directory the function returns nil, or the error of reading it.
\<close>

function walk_tree :: "fs \<Rightarrow> pkey \<Rightarrow> string \<Rightarrow> string go_result list" where
  "walk_tree f k p =
     (case os_Lstat f p of
        Inl e \<Rightarrow> [Inl e]
      | Inr n \<Rightarrow>
          if node_is_dir n
          then (case faults f (SysReadDir p) of
                  Some e \<Rightarrow> [Inl e]
                | None \<Rightarrow> concat (map (\<lambda>c. walk_tree f c (filepath_Join [p, last (snd c)])) (dir_entries f k)))
          else [Inr p])"
  by pat_completeness auto
termination
proof (relation "measure (\<lambda>(f, k, p). Suc (max_depth f) - length (snd k))")
  fix f k p n c
  assume "c \<in> set (dir_entries f k)"
  from dir_entries_depth [OF this]
  show "((f, c, filepath_Join [p, last (snd c)]), f, k, p) \<in> measure (\<lambda>(f, k, p). Suc (max_depth f) - length (snd k))"
    by (simp add: Suc_diff_le)
qed simp

declare walk_tree.simps [simp del]

definition zipFile :: "zip_lib \<Rightarrow> fs \<Rightarrow> string \<Rightarrow> (go_error option \<times> (string \<times> bytes) list)" where
  "zipFile lib f srcPath =
     (case zl_add_err lib [] of
        Some e \<Rightarrow> (Some e, [])
      | None \<Rightarrow>
          (case os_ReadFile f srcPath of
             Inl e \<Rightarrow> (Some e, [(filepath_Base srcPath, [])])
           | Inr content \<Rightarrow> (None, [(filepath_Base srcPath, content)])))"

fun zip_steps ::
  "zip_lib \<Rightarrow> fs \<Rightarrow> string \<Rightarrow> string go_result list \<Rightarrow> (string \<times> bytes) list \<Rightarrow> (go_error option \<times> (string \<times> bytes) list)" where
  "zip_steps lib f srcPath [] es = (None, es)"
| "zip_steps lib f srcPath (Inl e # steps) es = (Some e, es)"
| "zip_steps lib f srcPath (Inr p # steps) es =
     (case filepath_Rel srcPath p of
        Inl e \<Rightarrow> (Some e, es)
      | Inr relPath \<Rightarrow>
          (case zl_add_err lib es of
             Some e \<Rightarrow> (Some e, es)
           | None \<Rightarrow>
               let name = filepath_Join [filepath_Base srcPath, relPath]
               in case os_ReadFile f p of
                    Inl e \<Rightarrow> (Some e, es @ [(name, [])])
                  | Inr content \<Rightarrow> zip_steps lib f srcPath steps (es @ [(name, content)])))"

definition zipDir :: "zip_lib \<Rightarrow> fs \<Rightarrow> string \<Rightarrow> (go_error option \<times> (string \<times> bytes) list)" where
  "zipDir lib f srcPath = zip_steps lib f srcPath (walk_tree f (path_key srcPath) srcPath) []"

definition zip_path :: "string \<Rightarrow> string" where
  "zip_path path = filepath_Join [filepath_Dir path, filepath_Base path @ ''.zip'']"

text \<open>The errors of closing the writer and the file are not looked at.\<close>

definition Zip :: "zip_lib \<Rightarrow> string \<Rightarrow> fs \<Rightarrow> go_error option \<times> fs" where
  "Zip lib path f =
     (if \<not> filer_Exist f path then (Some ErrNotExist, f)
      else case os_OpenWrite True (zip_path path) 438 f of
             (Inl e, f1) \<Rightarrow> (Some e, f1)
           | (Inr h, f1) \<Rightarrow>
               let (err, es) = (if filer_IsDir f1 path then zipDir lib f1 path else zipFile lib f1 path);
                   f2 = snd (file_Write h (zl_encode lib es) f1)
               in case err of
                    Some e \<Rightarrow> (Some e, snd (os_Remove (zip_path path) f2))
                  | None \<Rightarrow> (None, f2))"

subsection \<open>Extracting a zip file\<close>

text \<open>The path of an entry, and whether it is skipped.\<close>

definition entry_dest :: "string \<Rightarrow> string \<Rightarrow> string" where
  "entry_dest extractDir name = filepath_Join [extractDir, name]"

definition zip_slip :: "string \<Rightarrow> string \<Rightarrow> bool" where
  "zip_slip extractDir name =
     (case filepath_Rel extractDir (entry_dest extractDir name) of
        Inl _ \<Rightarrow> True
      | Inr rel \<Rightarrow> strings_HasPrefix rel ''..'' \<or> filepath_IsAbs rel)"

text \<open>What is left to do for a file after its directory has been made.\<close>

definition extract_file :: "zip_entry \<Rightarrow> string \<Rightarrow> fs \<Rightarrow> go_error option \<times> fs" where
  "extract_file ze destPath f =
     (case ze_OpenErr ze of
        Some e \<Rightarrow> (Some e, f)
      | None \<Rightarrow>
          (case os_OpenWrite True destPath 438 f of
             (Inl e, f1) \<Rightarrow> (Some e, f1)
           | (Inr h, f1) \<Rightarrow>
               (case file_Write h (ze_Data ze) f1 of
                  (Inl e, f2) \<Rightarrow> (Some e, f2)
                | (Inr _, f2) \<Rightarrow> (ze_CopyErr ze, f2))))"

fun unzip_entries :: "string \<Rightarrow> zip_entry list \<Rightarrow> fs \<Rightarrow> go_error option \<times> fs" where
  "unzip_entries extractDir [] f = (None, f)"
| "unzip_entries extractDir (ze # zes) f =
     (let destPath = entry_dest extractDir (ze_Name ze)
      in if zip_slip extractDir (ze_Name ze) then unzip_entries extractDir zes f
         else if ze_IsDir ze
         then (case os_MkdirAll destPath 493 f of
                 (Inl e, f1) \<Rightarrow> (Some e, f1) | (Inr _, f1) \<Rightarrow> unzip_entries extractDir zes f1)
         else (case os_MkdirAll (filepath_Dir destPath) 493 f of
                 (Inl e, f1) \<Rightarrow> (Some e, f1)
               | (Inr _, f1) \<Rightarrow>
                   (case extract_file ze destPath f1 of
                      (Some e, f2) \<Rightarrow> (Some e, f2)
                    | (None, f2) \<Rightarrow> unzip_entries extractDir zes f2)))"

definition Unzip :: "zip_lib \<Rightarrow> string \<Rightarrow> fs \<Rightarrow> go_error option \<times> fs" where
  "Unzip lib path f =
     (case os_ReadFile f path of
        Inl e \<Rightarrow> (Some e, f)
      | Inr content \<Rightarrow>
          (case zl_decode lib content of
             Inl e \<Rightarrow> (Some e, f)
           | Inr zes \<Rightarrow> unzip_entries (filepath_Dir path) zes f))"

subsection \<open>One file of a tar.gz\<close>

record tar_entry =
  th_Name :: string
  th_Regular :: bool
  th_Data :: bytes
  th_CopyErr :: "go_error option"

text \<open>What \<open>tar.Reader.Next\<close> answers, call by call, before the end: an entry, or an error.\<close>

type_synonym tar_steps = "tar_entry go_result list"

fun untar_steps :: "string \<Rightarrow> string \<Rightarrow> string \<Rightarrow> tar_steps \<Rightarrow> fs \<Rightarrow> go_error option \<times> fs" where
  "untar_steps tarGzPath filename dest [] f =
     (Some (Errorf (''archive: '' @ filename @ '' not found in '' @ tarGzPath)), f)"
| "untar_steps tarGzPath filename dest (Inl e # steps) f = (Some e, f)"
| "untar_steps tarGzPath filename dest (Inr hdr # steps) f =
     (if \<not> th_Regular hdr then untar_steps tarGzPath filename dest steps f
      else if filepath_Base (th_Name hdr) \<noteq> filename then untar_steps tarGzPath filename dest steps f
      else case os_OpenWrite True dest 493 f of
             (Inl e, f1) \<Rightarrow> (Some e, f1)
           | (Inr out, f1) \<Rightarrow>
               (case file_Write out (th_Data hdr) f1 of
                  (Inl e, f2) \<Rightarrow> (Some e, f2)
                | (Inr _, f2) \<Rightarrow> (th_CopyErr hdr, f2)))"

definition UntarFile :: "(bytes \<Rightarrow> tar_steps go_result) \<Rightarrow> string \<Rightarrow> string \<Rightarrow> string \<Rightarrow> fs \<Rightarrow> go_error option \<times> fs" where
  "UntarFile gunzip tarGzPath filename dest f =
     (if tarGzPath = [] then (Some (Errorf ''tar.gz path is required''), f)
      else if filename = [] then (Some (Errorf ''filename is required''), f)
      else if dest = [] then (Some (Errorf ''destination path is required''), f)
      else case os_ReadFile f tarGzPath of
             Inl e \<Rightarrow> (Some e, f)
           | Inr content \<Rightarrow>
               (case gunzip content of
                  Inl e \<Rightarrow> (Some e, f)
                | Inr steps \<Rightarrow> untar_steps tarGzPath filename dest steps f))"

subsection \<open>Nothing is extracted outside\<close>

lemma Join_dotdot_prefix:
  "es \<noteq> [] \<Longrightarrow> hd es = ''..'' \<Longrightarrow> prefix ''..'' (strings_Join [slash] es)"
  by (cases es; cases "tl es") auto

lemma zip_slip_below:
  assumes "\<not> zip_slip dir name"
  shows "below (path_key dir) (path_key (entry_dest dir name))"
proof -
  let ?t = "entry_dest dir name"
  obtain br bs where b: "path_key dir = (br, bs)" by fastforce
  obtain tr ts where t: "path_key ?t = (tr, ts)" by fastforce
  obtain rel where rel: "filepath_Rel dir ?t = Inr rel" "\<not> prefix ''..'' rel"
    using assms by (auto simp: zip_slip_def split: sum.splits)
  show ?thesis
  proof (cases "(br, bs) = (tr, ts)")
    case True
    then show ?thesis using b t by simp
  next
    case False
    let ?ts = "if ts = [] \<and> \<not> tr then [''.''] else ts"
    from rel(1) False b t have r: "br = tr" and re: "rel_elems bs ?ts = Some es \<Longrightarrow> rel = strings_Join [slash] es"
      and ex: "rel_elems bs ?ts \<noteq> None" for es
      by (auto simp: filepath_Rel_def Let_def split: if_splits option.splits)
    obtain b' t' where sc: "strip_common bs ?ts = (b', t')" by fastforce
    from strip_common_spec [OF this] obtain c where c: "bs = c @ b'" "?ts = c @ t'" by blast
    have rel': "rel = strings_Join [slash] (replicate (length b') ''..'' @ t')"
      using ex sc by (intro re) (auto simp: rel_elems_def split: if_splits)
    have "b' = []"
    proof (rule ccontr)
      assume "b' \<noteq> []"
      then have "hd (replicate (length b') ''..'' @ t') = ''..''" "replicate (length b') ''..'' @ t' \<noteq> []"
        by (auto simp: neq_Nil_conv)
      from Join_dotdot_prefix [OF this(2,1)] rel(2) rel' show False by simp
    qed
    then have bs: "?ts = bs @ t'" using c by simp
    show ?thesis
    proof (cases "ts = [] \<and> \<not> tr")
      case True
      then have "[''.''] = bs @ t'" using bs by simp
      moreover have "''.'' \<notin> set bs" using path_key_clean [OF b] by (auto simp: clean_elems_def list_all_iff elem_ok_def)
      ultimately have "bs = []" by (cases bs) auto
      then show ?thesis using True r b t by simp
    next
      case False
      then have "ts = bs @ t'" using bs by (simp split: if_splits)
      then show ?thesis using r b t by simp
    qed
  qed
qed

lemma clean_elems_butlast: "clean_elems r (ds @ [e]) \<Longrightarrow> clean_elems r ds"
proof -
  assume c: "clean_elems r (ds @ [e])"
  then obtain k ns where ns: "ds @ [e] = replicate k ''..'' @ ns" "''..'' \<notin> set ns" "r \<longrightarrow> k = 0"
    unfolding clean_elems_def by blast
  have "\<exists>k ns. ds = replicate k ''..'' @ ns \<and> ''..'' \<notin> set ns \<and> (r \<longrightarrow> k = 0)"
  proof (cases "ns = []")
    case True
    then have k: "k > 0" using ns(1) by (cases k) auto
    then have "ds @ [e] = replicate (k - 1) ''..'' @ [''..'']" using ns(1) True
      by (cases k) (simp_all add: replicate_append_same)
    then have "ds = replicate (k - 1) ''..'' @ []" by simp
    moreover have "r \<longrightarrow> k - 1 = 0" using ns(3) by simp
    ultimately show ?thesis by (metis empty_iff list.set(1))
  next
    case False
    then have "ds = replicate k ''..'' @ butlast ns" using ns(1) by (metis butlast_append butlast_snoc)
    moreover have "''..'' \<notin> set (butlast ns)" using ns(2) by (meson in_set_butlastD)
    ultimately show ?thesis using ns(3) by blast
  qed
  with c show ?thesis by (simp add: clean_elems_def)
qed

lemma Dir_render:
  assumes c: "clean_elems r es"
  shows "path_key (filepath_Dir (render (r, es))) = (r, butlast es)"
proof (cases es rule: rev_cases)
  case Nil
  then have "path_key (dir_part (render (r, es))) = (r, [])"
    by (cases r) (simp_all add: dir_part_def path_key_def path_elems_def filepath_IsAbs_def)
  then show ?thesis using Nil by (simp only: filepath_Dir_def path_key_Clean butlast.simps)
next
  case (snoc ds e)
  have e: "e \<noteq> []" "\<forall>c\<in>set e. c \<noteq> slash" using c snoc by (auto simp: clean_elems_def elem_ok_def)
  have ds: "clean_elems r ds" using c snoc by (simp add: clean_elems_butlast)
  let ?pre = "(if r then [slash] else []) @ (if ds = [] then [] else strings_Join [slash] ds @ [slash])"
  have p: "render (r, ds @ [e]) = ?pre @ e" by (simp add: strings_Join_snoc)
  have ends: "rev ?pre = [] \<or> hd (rev ?pre) = slash" by simp
  have "path_key ?pre = (r, ds)"
  proof (cases "ds = []")
    case True
    then show ?thesis by (cases r) (simp_all add: path_key_def path_elems_def filepath_IsAbs_def)
  next
    case False
    have "path_key (render (r, ds) @ slash # []) = (r, ds)"
      using path_key_slash [of "render (r, ds)" "[]"] render_not_Nil [OF ds] path_key_render [OF ds]
      by (simp add: path_elems_def)
    with False show ?thesis by (cases r) simp_all
  qed
  moreover have "dropWhile (\<lambda>c. c \<noteq> slash) (rev e @ xs) = xs" if "xs = [] \<or> hd xs = slash" for xs
    using e(2) that by (cases xs) (simp_all add: dropWhile_append)
  from this [OF ends] have "dropWhile (\<lambda>c. c \<noteq> slash) (rev e @ rev ?pre) = rev ?pre" .
  then have "dir_part (?pre @ e) = ?pre" by (simp only: dir_part_def rev_append rev_rev_ident)
  ultimately show ?thesis unfolding snoc p filepath_Dir_def path_key_Clean butlast_snoc by simp
qed

lemma Dir_Join: "a \<noteq> [] \<Longrightarrow> path_key (filepath_Dir (filepath_Join [a, b])) = parent (path_key (filepath_Join [a, b]))"
proof -
  assume a: "a \<noteq> []"
  obtain s where s: "filepath_Join [a, b] = filepath_Clean s" using a by (auto simp: filepath_Join_def)
  obtain r es where k: "path_key s = (r, es)" by fastforce
  note c = path_key_clean [OF k]
  have "filepath_Join [a, b] = render (r, es)" using s k by (simp only: filepath_Clean_def)
  then show ?thesis using Dir_render [OF c] path_key_render [OF c] by simp
qed

text \<open>What holds of the file system while an archive is extracted into the directory with key \<open>D\<close>.\<close>

definition extracting :: "pkey \<Rightarrow> fs \<Rightarrow> bool" where
  "extracting D f \<longleftrightarrow>
     (\<forall>k. below k D \<longrightarrow> (\<exists>m. node_of f k = Some (Directory m))) \<and> (\<forall>k t. below D k \<longrightarrow> node_of f k \<noteq> Some (SymLink t))"

definition outside_kept :: "pkey \<Rightarrow> fs \<Rightarrow> fs \<Rightarrow> bool" where
  "outside_kept D f f' \<longleftrightarrow> (\<forall>k. \<not> below D k \<longrightarrow> node_of f' k = node_of f k)"

lemma extracting_dir: "extracting D f \<Longrightarrow> below k D \<Longrightarrow> \<exists>m. node_of f k = Some (Directory m)"
  unfolding extracting_def by blast

lemma extracting_no_link: "extracting D f \<Longrightarrow> below D k \<Longrightarrow> node_of f k \<noteq> Some (SymLink t)"
  unfolding extracting_def by blast

lemma outside_keptD: "outside_kept D f f' \<Longrightarrow> \<not> below D k \<Longrightarrow> node_of f' k = node_of f k"
  unfolding outside_kept_def by blast

lemma outside_kept_trans: "outside_kept D f f1 \<Longrightarrow> outside_kept D f1 f' \<Longrightarrow> outside_kept D f f'"
  unfolding outside_kept_def by simp

lemma extracting_keep:
  assumes "extracting D f" "outside_kept D f f'"
    "\<And>k. below D k \<Longrightarrow> node_of f' k = node_of f k \<or> (\<exists>c m. node_of f' k = Some (RegFile c m) \<and> k \<noteq> D) \<or> (\<exists>m. node_of f' k = Some (Directory m))"
  shows "extracting D f'"
  unfolding extracting_def
proof (intro conjI allI impI)
  fix k assume k: "below k D"
  then obtain m where m: "node_of f k = Some (Directory m)" using assms(1) unfolding extracting_def by blast
  show "\<exists>m. node_of f' k = Some (Directory m)"
  proof (cases "below D k")
    case True
    then have "k = D" using k by (cases k; cases D) (auto simp: below_iff_prefix simp del: below.simps)
    with assms(3) [OF True] m show ?thesis by auto
  next
    case False
    then show ?thesis using outside_keptD [OF assms(2) False] m by simp
  qed
next
  fix k t assume b: "below D k"
  show "node_of f' k \<noteq> Some (SymLink t)"
    using assms(3) [OF b] extracting_no_link [OF assms(1) b, of t] by auto
qed

lemma extracting_MkdirAll:
  assumes ex: "extracting D f" and p: "below D (path_key p) \<or> below (path_key p) D" and run: "os_MkdirAll p m f = (r, f')"
  shows "extracting D f' \<and> outside_kept D f f'"
proof -
  note keep = MkdirAll_keeps [OF run]
  have out: "outside_kept D f f'"
    unfolding outside_kept_def
  proof (intro allI impI)
    fix k assume k: "\<not> below D k"
    show "node_of f' k = node_of f k"
    proof (rule ccontr)
      assume n: "node_of f' k \<noteq> node_of f k"
      with keep [of k] have a: "k \<in> set (ancestors (path_key p))" "node_of f k = None" by auto
      from a(1) have "below k (path_key p)"
        by (auto simp: ancestors_def below_iff_prefix take_is_prefix simp del: below.simps)
      then have "below k D" using p k
        by (auto simp: below_iff_prefix simp del: below.simps dest: prefix_same_cases intro: prefix_order.trans)
      from extracting_dir [OF ex this] a(2) show False by simp
    qed
  qed
  moreover have "extracting D f'"
    by (rule extracting_keep [OF ex out]) (use keep in blast)
  ultimately show ?thesis by blast
qed

text \<open>What writing one file may change: the node at its path, which becomes a regular file.\<close>

definition only_file :: "string \<Rightarrow> fs \<Rightarrow> fs \<Rightarrow> bool" where
  "only_file p f f' \<longleftrightarrow> (\<forall>k. k \<noteq> path_key p \<longrightarrow> node_of f' k = node_of f k)
     \<and> (node_at f' p = node_at f p \<or> ((\<exists>c m. node_at f' p = Some (RegFile c m)) \<and> (\<forall>m. node_at f p \<noteq> Some (Directory m))))"

lemma only_file_refl: "only_file p f f"
  by (simp add: only_file_def)

lemma only_file_put:
  "only_file p f f1 \<Longrightarrow> \<forall>m. node_at f1 p \<noteq> Some (Directory m) \<Longrightarrow> only_file p f (put_node (path_key p) (RegFile c m) f1)"
  unfolding only_file_def by (auto simp: node_at_def node_of_put)

lemma OpenWrite_only_file:
  assumes "os_OpenWrite trunc p perm f = (r, f')" "\<nexists>t. node_at f p = Some (SymLink t)"
  shows "only_file p f f' \<and> (\<forall>q. r = Inr q \<longrightarrow> q = p \<and> (\<exists>c m. node_at f' p = Some (RegFile c m)))"
proof (cases "p = []")
  case True
  then show ?thesis using assms(1) by (auto simp: os_OpenWrite_def follow.simps only_file_refl split: option.splits)
next
  case False
  have fl: "follow (Suc max_links) f p = Inr p" by (rule follow_self [OF assms(2) False])
  have root: "snd (path_key p) = [] \<Longrightarrow> node_at f p = Some (Directory 493)" by (simp add: node_at_def node_of_def)
  show ?thesis
  proof (cases "node_at f p")
    case None
    then have "(\<exists>e. r = Inl e \<and> f' = f) \<or> (r = Inr p \<and> f' = put_node (path_key p) (RegFile [] perm) f)"
      using assms(1) unfolding os_OpenWrite_def fl by (auto split: option.splits node.splits)
    then show ?thesis using None root only_file_put [OF only_file_refl, of f p "[]" perm]
      by (auto simp: only_file_refl node_at_def node_of_put)
  next
    case (Some n)
    then have "(\<exists>e. r = Inl e \<and> f' = f)
        \<or> (\<exists>c m. n = RegFile c m \<and> r = Inr p \<and> (f' = f \<or> f' = put_node (path_key p) (RegFile [] m) f))"
      using assms(1) unfolding os_OpenWrite_def fl by (cases n) (auto split: option.splits if_splits)
    then show ?thesis using Some root only_file_put [OF only_file_refl, of f p "[]"]
      by (auto simp: only_file_refl node_at_def node_of_put)
  qed
qed

lemma file_Write_only_file:
  assumes "file_Write p data f1 = (r, f')" "only_file p f f1" "node_at f1 p = Some (RegFile c m)"
  shows "only_file p f f'"
  using assms only_file_put [OF assms(2)] by (auto simp: file_Write_def split: option.splits)

lemma extract_file_only:
  assumes link: "\<nexists>t. node_at f p = Some (SymLink t)" and run: "extract_file ze p f = (r, f')"
  shows "only_file p f f'"
proof (cases "ze_OpenErr ze")
  case None
  obtain q f1 where o: "os_OpenWrite True p 438 f = (q, f1)" by fastforce
  note ok = OpenWrite_only_file [OF o link]
  show ?thesis
  proof (cases q)
    case (Inl e)
    then show ?thesis using run None o ok by (simp add: extract_file_def)
  next
    case (Inr h)
    then obtain c m where h: "h = p" "node_at f1 p = Some (RegFile c m)" using ok by blast
    obtain x f2 where w: "file_Write p (ze_Data ze) f1 = (x, f2)" by fastforce
    have "only_file p f f2" using file_Write_only_file [OF w _ h(2)] ok by blast
    moreover have "f' = f2" using run None o Inr h w by (auto simp: extract_file_def split: sum.splits)
    ultimately show ?thesis by simp
  qed
qed (use run only_file_refl in \<open>auto simp: extract_file_def\<close>)

lemma extracting_file:
  assumes ex: "extracting D f" and p: "below D (path_key p)" and run: "extract_file ze p f = (r, f')"
  shows "extracting D f' \<and> outside_kept D f f'"
proof -
  have "\<nexists>t. node_at f p = Some (SymLink t)" using extracting_no_link [OF ex p] by (auto simp: node_at_def)
  note only = extract_file_only [OF this run, unfolded only_file_def]
  have out: "outside_kept D f f'" using only p unfolding outside_kept_def by metis
  moreover have "extracting D f'"
  proof (rule extracting_keep [OF ex out])
    fix k assume "below D k"
    show "node_of f' k = node_of f k \<or> (\<exists>c m. node_of f' k = Some (RegFile c m) \<and> k \<noteq> D) \<or> (\<exists>m. node_of f' k = Some (Directory m))"
    proof (cases "k = path_key p")
      case True
      have "k \<noteq> D" if "node_at f' p \<noteq> node_at f p"
        using only that True extracting_dir [OF ex, of D] by (auto simp: node_at_def)
      then show ?thesis using only True by (auto simp: node_at_def)
    next
      case False
      then have "node_of f' k = node_of f k" using only by blast
      then show ?thesis ..
    qed
  qed
  ultimately show ?thesis by blast
qed

lemma below_or_above_parent: "below D k \<Longrightarrow> below D (parent k) \<or> below (parent k) D"
proof -
  assume "below D k"
  then obtain r es es' where e: "D = (r, es)" "k = (r, es @ es')" by (rule below_append)
  show ?thesis
  proof (cases es' rule: rev_cases)
    case Nil
    then show ?thesis using e by (simp add: below_iff_prefix prefixeq_butlast del: below.simps)
  next
    case (snoc xs x)
    then show ?thesis using e by (simp add: below_iff_prefix butlast_append del: below.simps)
  qed
qed

text \<open>One entry, as the loop treats it.\<close>

definition unzip_entry :: "string \<Rightarrow> zip_entry \<Rightarrow> fs \<Rightarrow> go_error option \<times> fs" where
  "unzip_entry dir ze f =
     (if zip_slip dir (ze_Name ze) then (None, f)
      else if ze_IsDir ze
      then (case os_MkdirAll (entry_dest dir (ze_Name ze)) 493 f of (Inl e, f1) \<Rightarrow> (Some e, f1) | (Inr _, f1) \<Rightarrow> (None, f1))
      else (case os_MkdirAll (filepath_Dir (entry_dest dir (ze_Name ze))) 493 f of
              (Inl e, f1) \<Rightarrow> (Some e, f1) | (Inr _, f1) \<Rightarrow> extract_file ze (entry_dest dir (ze_Name ze)) f1))"

lemma unzip_entries_Cons:
  "unzip_entries dir (ze # zes) f =
     (case unzip_entry dir ze f of (Some e, f1) \<Rightarrow> (Some e, f1) | (None, f1) \<Rightarrow> unzip_entries dir zes f1)"
  by (simp add: unzip_entry_def Let_def split: prod.split sum.split option.split)

lemma unzip_entry_kept:
  assumes dir: "dir \<noteq> []" and ex: "extracting (path_key dir) f" and run: "unzip_entry dir ze f = (r, f')"
  shows "extracting (path_key dir) f' \<and> outside_kept (path_key dir) f f'"
proof -
  let ?D = "path_key dir" and ?p = "entry_dest dir (ze_Name ze)"
  consider (skipped) "zip_slip dir (ze_Name ze)" | (folder) "\<not> zip_slip dir (ze_Name ze)" "ze_IsDir ze"
    | (plain) "\<not> zip_slip dir (ze_Name ze)" "\<not> ze_IsDir ze" by blast
  then show ?thesis
  proof cases
    case skipped
    then show ?thesis using ex run by (simp add: unzip_entry_def outside_kept_def)
  next
    case folder
    obtain x f1 where m: "os_MkdirAll ?p 493 f = (x, f1)" by fastforce
    have "f1 = f'" using folder run m by (auto simp: unzip_entry_def split: sum.splits)
    then show ?thesis using extracting_MkdirAll [OF ex disjI1 [OF zip_slip_below [OF folder(1)]] m] by simp
  next
    case plain
    note below = zip_slip_below [OF plain(1)]
    obtain x f1 where m: "os_MkdirAll (filepath_Dir ?p) 493 f = (x, f1)" by fastforce
    have "path_key (filepath_Dir ?p) = parent (path_key ?p)" unfolding entry_dest_def by (rule Dir_Join [OF dir])
    then have "below ?D (path_key (filepath_Dir ?p)) \<or> below (path_key (filepath_Dir ?p)) ?D"
      using below_or_above_parent [OF below] by simp
    note ok = extracting_MkdirAll [OF ex this m]
    show ?thesis
    proof (cases x)
      case (Inl e)
      then show ?thesis using run m ok plain by (simp add: unzip_entry_def)
    next
      case (Inr u)
      then have "extract_file ze ?p f1 = (r, f')" using run m plain by (simp add: unzip_entry_def)
      then show ?thesis using extracting_file [OF ok [THEN conjunct1] below] ok outside_kept_trans by blast
    qed
  qed
qed

lemma unzip_entries_kept:
  assumes dir: "dir \<noteq> []"
  shows "unzip_entries dir zes f = (r, f') \<Longrightarrow> extracting (path_key dir) f \<Longrightarrow>
    extracting (path_key dir) f' \<and> outside_kept (path_key dir) f f'"
proof (induction zes arbitrary: f)
  case Nil
  then show ?case by (simp add: outside_kept_def)
next
  case (Cons ze zes)
  obtain x f1 where one: "unzip_entry dir ze f = (x, f1)" by fastforce
  note ok = unzip_entry_kept [OF dir Cons.prems(2) one]
  show ?case
  proof (cases x)
    case (Some e)
    then show ?thesis using Cons.prems(1) one ok unfolding unzip_entries_Cons by simp
  next
    case None
    then have "unzip_entries dir zes f1 = (r, f')" using Cons.prems(1) one unfolding unzip_entries_Cons by simp
    from Cons.IH [OF this] ok show ?thesis using outside_kept_trans by blast
  qed
qed

text \<open>
  C27. Extraction stays inside. Whatever the archive's entries are called, and whatever fails, \<open>Unzip\<close> changes
  nothing outside the directory of the archive, provided that this directory exists and nothing in it is a
  symbolic link: every path outside has the node it had before.
\<close>

theorem Unzip_stays_inside:
  assumes "Unzip lib path f = (r, f')"
    and "\<forall>k. below k (path_key (filepath_Dir path)) \<longrightarrow> (\<exists>m. node_of f k = Some (Directory m))"
    and "\<forall>k t. below (path_key (filepath_Dir path)) k \<longrightarrow> node_of f k \<noteq> Some (SymLink t)"
    and "\<not> below (path_key (filepath_Dir path)) k"
  shows "node_of f' k = node_of f k"
proof -
  have ex: "extracting (path_key (filepath_Dir path)) f" using assms(2,3) unfolding extracting_def by blast
  have "f' = f \<or> (\<exists>zes. unzip_entries (filepath_Dir path) zes f = (r, f'))"
    using assms(1) by (auto simp: Unzip_def split: sum.splits)
  then show ?thesis
  proof
    assume "\<exists>zes. unzip_entries (filepath_Dir path) zes f = (r, f')"
    then obtain zes where "unzip_entries (filepath_Dir path) zes f = (r, f')" by blast
    moreover have "filepath_Dir path \<noteq> []" by (simp add: filepath_Dir_def)
    ultimately have "outside_kept (path_key (filepath_Dir path)) f f'" using unzip_entries_kept ex by blast
    then show ?thesis using assms(4) by (rule outside_keptD)
  qed simp
qed

text \<open>An archive with one entry that points out of its directory and one that does not.\<close>

definition demo_zip_fs :: fs where
  "demo_zip_fs = \<lparr>nodes = [((False, [''d'']), Directory 493), ((False, [''d'', ''a'']), RegFile ''zip'' 420)], faults = (\<lambda>_. None)\<rparr>"

definition demo_zip_lib :: zip_lib where
  "demo_zip_lib = \<lparr>zl_encode = (\<lambda>_. ''zip''), zl_add_err = (\<lambda>_. None),
     zl_decode = (\<lambda>_. Inr [\<lparr>ze_Name = ''../x'', ze_IsDir = False, ze_Data = ''bad'', ze_OpenErr = None, ze_CopyErr = None\<rparr>,
                           \<lparr>ze_Name = ''y'', ze_IsDir = False, ze_Data = ''good'', ze_OpenErr = None, ze_CopyErr = None\<rparr>])\<rparr>"

lemma demo_zip_dir: "filepath_Dir ''d/a'' = ''d''" "path_key ''d'' = (False, [''d''])"
  by code_simp+

theorem Unzip_stays_inside_witness:
  "\<exists>f'. Unzip demo_zip_lib ''d/a'' demo_zip_fs = (fst (Unzip demo_zip_lib ''d/a'' demo_zip_fs), f')
     \<and> node_of f' (False, [''x'']) = None"
proof -
  obtain r f' where run: "Unzip demo_zip_lib ''d/a'' demo_zip_fs = (r, f')" by fastforce
  have "\<exists>m. node_of demo_zip_fs k = Some (Directory m)" if "below k (False, [''d''])" for k
    using that by (cases k) (auto simp: demo_zip_fs_def node_of_def take_Cons' split: if_splits)
  moreover have "node_of demo_zip_fs k \<noteq> Some (SymLink t)" for k t
    by (simp add: demo_zip_fs_def node_of_def)
  ultimately have "node_of f' (False, [''x'']) = node_of demo_zip_fs (False, [''x''])"
    by (intro Unzip_stays_inside [OF run]) (simp_all add: demo_zip_dir)
  then show ?thesis using run by (simp add: demo_zip_fs_def node_of_def)
qed

subsection \<open>The chosen entry of a tar.gz\<close>

definition tar_wanted :: "string \<Rightarrow> tar_entry go_result \<Rightarrow> bool" where
  "tar_wanted filename step \<longleftrightarrow>
     (case step of Inl _ \<Rightarrow> True | Inr hdr \<Rightarrow> th_Regular hdr \<and> filepath_Base (th_Name hdr) = filename)"

lemma untar_steps_first:
  "untar_steps tgz filename dest steps f =
     (case filter (tar_wanted filename) steps of
        [] \<Rightarrow> (Some (Errorf (''archive: '' @ filename @ '' not found in '' @ tgz)), f)
      | step # _ \<Rightarrow> untar_steps tgz filename dest [step] f)"
proof (induction steps)
  case (Cons step steps)
  then show ?case by (cases step) (auto simp: tar_wanted_def)
qed simp

lemma untar_one:
  assumes "untar_steps tgz filename dest [Inr hdr] f = (r, f')" "tar_wanted filename (Inr hdr)" "\<nexists>t. node_at f dest = Some (SymLink t)"
  shows "only_file dest f f' \<and> (r = None \<longrightarrow> content_at f' dest = Some (th_Data hdr))"
proof -
  obtain q f1 where o: "os_OpenWrite True dest 493 f = (q, f1)" by fastforce
  note ok = OpenWrite_only_file [OF o assms(3)]
  show ?thesis
  proof (cases q)
    case (Inl e)
    then show ?thesis using assms(1,2) o ok by (auto simp: tar_wanted_def)
  next
    case (Inr h)
    then have h: "h = dest" using ok by blast
    from OpenWrite_ok [OF o [unfolded Inr]] obtain m where n: "node_at f1 dest = Some (RegFile [] m)"
        and fl: "follow (Suc max_links) f1 dest = Inr dest"
      unfolding h by (auto split: option.splits node.splits)
    obtain x f2 where w: "file_Write dest (th_Data hdr) f1 = (x, f2)" by fastforce
    have only: "only_file dest f f2" using file_Write_only_file [OF w _ n] ok by blast
    have f': "f' = f2" "r = None \<Longrightarrow> x = Inr ()"
      using assms(1,2) o Inr h w by (auto simp: tar_wanted_def split: sum.splits)
    show ?thesis
    proof (cases x)
      case (Inr u)
      then have "file_Write dest (th_Data hdr) f1 = (Inr (), f2)" using w by simp
      from file_Write_at [OF this fl n] have "content_at f2 dest = Some (th_Data hdr)" by (simp add: content_at_def del: follow.simps)
      then show ?thesis using only f'(1) by simp
    next
      case (Inl e)
      then show ?thesis using only f' by auto
    qed
  qed
qed

text \<open>
  C28. \<open>UntarFile\<close> extracts the entry it was asked for. Of the entries before the first error of the stream, it
  takes the first regular file whose last path element is the wanted name; when it reports success the
  destination holds exactly the data of that entry. The destination must not be a symbolic link (its target would
  be written instead); then, whatever is returned, no other path changes, and when the stream has no such entry
  nothing changes and the error says so. The archive is there and starts as a gzip
  stream, and no path or name is empty.
\<close>

theorem UntarFile_exact:
  assumes "gunzip content = Inr steps" and "os_ReadFile f tgz = Inr content" and "tgz \<noteq> []" and "filename \<noteq> []" and "dest \<noteq> []"
    and "\<nexists>t. node_at f dest = Some (SymLink t)" and "UntarFile gunzip tgz filename dest f = (r, f')"
  shows "(\<forall>k. k \<noteq> path_key dest \<longrightarrow> node_of f' k = node_of f k)
    \<and> (case filter (tar_wanted filename) steps of
         [] \<Rightarrow> r = Some (Errorf (''archive: '' @ filename @ '' not found in '' @ tgz)) \<and> f' = f
       | Inl e # _ \<Rightarrow> r = Some e \<and> f' = f
       | Inr hdr # _ \<Rightarrow> r = None \<longrightarrow> content_at f' dest = Some (th_Data hdr))"
proof -
  have run: "untar_steps tgz filename dest steps f = (r, f')" using assms by (simp add: UntarFile_def)
  show ?thesis
  proof (cases "filter (tar_wanted filename) steps")
    case Nil
    then show ?thesis using run by (simp add: untar_steps_first [of _ _ _ steps])
  next
    case (Cons step rest)
    then have one: "untar_steps tgz filename dest [step] f = (r, f')" using run by (simp add: untar_steps_first [of _ _ _ steps])
    have "step \<in> set (filter (tar_wanted filename) steps)" using Cons by simp
    then have w: "tar_wanted filename step" by simp
    show ?thesis
    proof (cases step)
      case (Inl e)
      then show ?thesis using one Cons by simp
    next
      case (Inr hdr)
      from untar_one [OF one [unfolded Inr] w [unfolded Inr] assms(6)] show ?thesis
        using Cons Inr by (simp add: only_file_def)
    qed
  qed
qed

definition demo_tar :: tar_steps where
  "demo_tar = [Inr \<lparr>th_Name = ''p/t'', th_Regular = False, th_Data = [], th_CopyErr = None\<rparr>,
               Inr \<lparr>th_Name = ''t'', th_Regular = True, th_Data = ''body'', th_CopyErr = None\<rparr>]"

theorem UntarFile_exact_witness:
  "\<exists>f'. UntarFile (\<lambda>_. Inr demo_tar) ''d/a'' ''t'' ''o'' demo_zip_fs = (None, f') \<and> content_at f' ''o'' = Some ''body''
     \<and> node_of f' (False, [''d'', ''a'']) = Some (RegFile ''zip'' 420)"
proof -
  have o: "path_key ''o'' = (False, [''o''])" by code_simp
  have read: "os_ReadFile demo_zip_fs ''d/a'' = Inr ''zip''" by code_simp
  have nolink: "\<nexists>t. node_at demo_zip_fs ''o'' = Some (SymLink t)"
    by (simp add: node_at_def node_of_def o demo_zip_fs_def)
  have wanted: "filter (tar_wanted ''t'') demo_tar = [Inr \<lparr>th_Name = ''t'', th_Regular = True, th_Data = ''body'', th_CopyErr = None\<rparr>]"
    by code_simp
  have run: "fst (UntarFile (\<lambda>_. Inr demo_tar) ''d/a'' ''t'' ''o'' demo_zip_fs) = None" by code_simp
  obtain r f' where u: "UntarFile (\<lambda>_. Inr demo_tar) ''d/a'' ''t'' ''o'' demo_zip_fs = (r, f')" by fastforce
  then have r: "r = None" using run by simp
  note ok = UntarFile_exact [OF refl read _ _ _ nolink u, unfolded wanted o]
  have "node_of f' (False, [''d'', ''a'']) = node_of demo_zip_fs (False, [''d'', ''a''])" "content_at f' ''o'' = Some ''body''"
    using ok r by simp_all
  then show ?thesis using u r by (simp add: demo_zip_fs_def node_of_def)
qed

end
