(* ===== verification/Upgrade.thy ===== *)
theory Upgrade
  imports Go_OS
begin

text \<open>
  Self-update (src/upgrade): fetching the update description, the checksum of the package, and the
  replacement of the running binary with its roll back. Parameters of the model: \<open>http_get\<close> is
  \<open>request.Get\<close>, \<open>with_query\<close> is \<open>url.Parse\<close> followed by setting the query and printing the URL,
  \<open>unmarshal\<close> is \<open>json.Unmarshal\<close> into a pointer (\<open>null\<close> makes it nil), \<open>sha\<close> is SHA-256, \<open>executable\<close> is
  \<open>os.Executable\<close> and the download handler is a transformer of the file system.
\<close>

subsection \<open>Errors and records\<close>

datatype upgrade_error = Plain go_error | ErrRollback go_error go_error

text \<open>A sentinel: no other error of the package is equal to it.\<close>

definition ErrNoUpdate :: go_error where
  "ErrNoUpdate = ErrIO ''no update''"

record UpdateInfo =
  ui_Error :: string
  ui_Version :: string
  ui_Package :: string
  ui_Checksum :: string

type_synonym DownloadHandler = "string \<Rightarrow> string \<Rightarrow> string os"

record Updater =
  up_Server :: string
  up_Version :: string
  up_TargetPath :: string
  up_TargetMode :: nat
  up_Download :: "DownloadHandler option"

record BinaryUpdater =
  bu_NewVersion :: string
  bu_OldVersion :: string
  bu_TargetPath :: string
  bu_TargetMode :: nat
  bu_NewBinary :: string
  bu_Checksum :: bytes

definition NewUpdater :: "string \<Rightarrow> string \<Rightarrow> Updater" where
  "NewUpdater server version =
     \<lparr>up_Server = server, up_Version = version, up_TargetPath = [], up_TargetMode = 0, up_Download = None\<rparr>"

subsection \<open>Checksums\<close>

text \<open>\<open>hex.DecodeString\<close>: two hexadecimal digits of either case per byte.\<close>

definition hex_digit :: "char \<Rightarrow> nat option" where
  "hex_digit c =
     (let n = of_char c :: nat
      in if 48 \<le> n \<and> n \<le> 57 then Some (n - 48)
         else if 97 \<le> n \<and> n \<le> 102 then Some (n - 87)
         else if 65 \<le> n \<and> n \<le> 70 then Some (n - 55)
         else None)"

fun hex_DecodeString :: "string \<Rightarrow> bytes go_result" where
  "hex_DecodeString [] = Inr []"
| "hex_DecodeString [a] =
     (if hex_digit a = None then Inl (Errorf ''encoding/hex: invalid byte'')
      else Inl (Errorf ''encoding/hex: odd length hex string''))"
| "hex_DecodeString (a # b # rest) =
     (case (hex_digit a, hex_digit b) of
        (Some x, Some y) \<Rightarrow>
          (case hex_DecodeString rest of
             Inl e \<Rightarrow> Inl e | Inr d \<Rightarrow> Inr (char_of (16 * x + y) # d))
      | _ \<Rightarrow> Inl (Errorf ''encoding/hex: invalid byte''))"

definition parseChecksum :: "string \<Rightarrow> bytes go_result" where
  "parseChecksum s =
     (if s = [] then Inr []
      else case hex_DecodeString s of
             Inl e \<Rightarrow> Inl e
           | Inr decoded \<Rightarrow>
               if length decoded \<noteq> 32 then Inl (Errorf ''invalid checksum length'') else Inr decoded)"

definition verifyChecksum :: "(bytes \<Rightarrow> bytes) \<Rightarrow> fs \<Rightarrow> string \<Rightarrow> bytes \<Rightarrow> go_error option" where
  "verifyChecksum sha f filePath checksum =
     (if checksum = [] then None
      else case os_ReadFile f filePath of
             Inl e \<Rightarrow> Some e
           | Inr data \<Rightarrow>
               if checksum \<noteq> sha data then Some (Errorf ''updated file has wrong checksum'') else None)"

subsection \<open>Replacing the binary\<close>

text \<open>The second half of \<open>commitBinary\<close>: the new file takes the target's place, or the backup goes back.\<close>

definition install_new :: "string \<Rightarrow> string \<Rightarrow> string \<Rightarrow> bool \<Rightarrow> fs \<Rightarrow> upgrade_error option \<times> fs" where
  "install_new newBinary targetPath backupPath targetMoved f =
     (case os_Rename newBinary targetPath f of
        (Inl err, f1) \<Rightarrow>
          if targetMoved
          then (case os_Rename backupPath targetPath f1 of
                  (Inl rollbackErr, f2) \<Rightarrow> (Some (ErrRollback err rollbackErr), f2)
                | (Inr _, f2) \<Rightarrow> (Some (Plain err), f2))
          else (Some (Plain err), f1)
      | (Inr _, f1) \<Rightarrow>
          if targetMoved then (None, snd (os_Remove backupPath f1)) else (None, f1))"

definition commitBinary ::
  "(bytes \<Rightarrow> bytes) \<Rightarrow> string \<Rightarrow> string \<Rightarrow> nat \<Rightarrow> string \<Rightarrow> fs \<Rightarrow> upgrade_error option \<times> fs" where
  "commitBinary sha newBinary targetPath targetMode oldVersion f =
     (case verifyChecksum sha f newBinary [] of
        Some e \<Rightarrow> (Some (Plain e), f)
      | None \<Rightarrow>
          (case os_Chmod newBinary targetMode f of
             (Inl e, f1) \<Rightarrow> (Some (Plain e), f1)
           | (Inr _, f1) \<Rightarrow>
               let backupPath = targetPath @ ''-'' @ oldVersion
               in case os_Stat f1 targetPath of
                    Inr info \<Rightarrow>
                      (case os_Remove backupPath f1 of (removed, f2) \<Rightarrow>
                         (case removed of
                            Inl e \<Rightarrow>
                              if \<not> errors_Is e ErrNotExist then (Some (Plain e), f2)
                              else (case os_Rename targetPath backupPath f2 of
                                      (Inl e, f3) \<Rightarrow> (Some (Plain e), f3)
                                    | (Inr _, f3) \<Rightarrow> install_new newBinary targetPath backupPath True f3)
                          | Inr _ \<Rightarrow>
                              (case os_Rename targetPath backupPath f2 of
                                 (Inl e, f3) \<Rightarrow> (Some (Plain e), f3)
                               | (Inr _, f3) \<Rightarrow> install_new newBinary targetPath backupPath True f3)))
                  | Inl e \<Rightarrow>
                      if errors_Is e ErrNotExist then install_new newBinary targetPath backupPath False f1
                      else (Some (Plain e), f1)))"

definition BinaryUpdater_Init :: "string go_result \<Rightarrow> fs \<Rightarrow> BinaryUpdater \<Rightarrow> BinaryUpdater go_result" where
  "BinaryUpdater_Init executable f u0 =
     (let u1 = (if bu_NewVersion u0 = [] then u0\<lparr>bu_NewVersion := ''new''\<rparr> else u0);
          u2 = (if bu_OldVersion u1 = [] then u1\<lparr>bu_OldVersion := ''old''\<rparr> else u1);
          r3 = (if bu_TargetPath u2 = []
                then (case executable of Inl e \<Rightarrow> Inl e | Inr p \<Rightarrow> Inr (u2\<lparr>bu_TargetPath := p\<rparr>))
                else Inr u2)
      in case r3 of
           Inl e \<Rightarrow> Inl e
         | Inr u3 \<Rightarrow>
             let u4 = (if bu_TargetMode u3 = 0
                       then (case os_Stat f (bu_TargetPath u3) of
                               Inr info \<Rightarrow> u3\<lparr>bu_TargetMode := node_perm info mod 512\<rparr>
                             | Inl _ \<Rightarrow> u3\<lparr>bu_TargetMode := 493\<rparr>)
                       else u3)
             in Inr (if bu_NewBinary u4 = []
                     then u4\<lparr>bu_NewBinary := bu_TargetPath u4 @ ''-'' @ bu_NewVersion u4 @ ''.tmp''\<rparr>
                     else u4))"

definition VerifyChecksum :: "(bytes \<Rightarrow> bytes) \<Rightarrow> fs \<Rightarrow> BinaryUpdater \<Rightarrow> go_error option" where
  "VerifyChecksum sha f u = verifyChecksum sha f (bu_NewBinary u) (bu_Checksum u)"

definition CommitBinary :: "(bytes \<Rightarrow> bytes) \<Rightarrow> BinaryUpdater \<Rightarrow> fs \<Rightarrow> upgrade_error option \<times> fs" where
  "CommitBinary sha u f = commitBinary sha (bu_NewBinary u) (bu_TargetPath u) (bu_TargetMode u) (bu_OldVersion u) f"

subsection \<open>Checking and applying\<close>

definition buildUpdateURL ::
  "(string \<Rightarrow> (string \<times> string) list \<Rightarrow> string go_result) \<Rightarrow> string \<Rightarrow> string \<Rightarrow> Updater \<Rightarrow> string go_result" where
  "buildUpdateURL with_query goos goarch u =
     (if up_Server u = [] then Inl (Errorf ''server url is required'')
      else with_query (up_Server u) [(''ver'', up_Version u), (''os'', goos), (''arch'', goarch)])"

text \<open>
  \<open>Check\<close>. The description is decoded through a pointer to a pointer, so the body \<open>null\<close> leaves a nil
  pointer behind, and reading its field panics.
\<close>

definition Updater_Check ::
  "(string \<Rightarrow> (string \<times> string) list \<Rightarrow> string go_result) \<Rightarrow> string \<Rightarrow> string \<Rightarrow> (string \<Rightarrow> bytes go_result)
   \<Rightarrow> (bytes \<Rightarrow> UpdateInfo option go_result) \<Rightarrow> Updater \<Rightarrow> UpdateInfo go_result" where
  "Updater_Check with_query goos goarch http_get unmarshal u =
     (case buildUpdateURL with_query goos goarch u of
        Inl e \<Rightarrow> Inl e
      | Inr urlStr \<Rightarrow>
          (case http_get urlStr of
             Inl e \<Rightarrow> Inl e
           | Inr body \<Rightarrow>
               (case unmarshal body of
                  Inl e \<Rightarrow> Inl e
                | Inr None \<Rightarrow> Inl (Panic ''invalid memory address or nil pointer dereference'')
                | Inr (Some info) \<Rightarrow>
                    if ui_Error info \<noteq> [] then Inl (Errorf (ui_Error info))
                    else if ui_Package info = [] then Inl ErrNoUpdate
                    else Inr info)))"

text \<open>\<open>Apply\<close> from the description on: \<open>checked\<close> is the result of \<open>Check\<close>.\<close>

definition apply_info ::
  "(bytes \<Rightarrow> bytes) \<Rightarrow> string go_result \<Rightarrow> DownloadHandler \<Rightarrow> Updater \<Rightarrow> UpdateInfo \<Rightarrow> fs \<Rightarrow> upgrade_error option \<times> fs" where
  "apply_info sha executable default_handler u info f =
     (if \<not> strings_HasPrefix (ui_Package info) ''https://'' then (Some (Plain ErrNoUpdate), f)
      else case (if ui_Checksum info \<noteq> [] then parseChecksum (ui_Checksum info) else Inr []) of
        Inl e \<Rightarrow> (Some (Plain e), f)
      | Inr checksum \<Rightarrow>
          (case BinaryUpdater_Init executable f
                  \<lparr>bu_NewVersion = ui_Version info, bu_OldVersion = up_Version u,
                   bu_TargetPath = up_TargetPath u, bu_TargetMode = up_TargetMode u,
                   bu_NewBinary = [], bu_Checksum = checksum\<rparr> of
             Inl e \<Rightarrow> (Some (Plain e), f)
           | Inr b \<Rightarrow>
               let handler = (case up_Download u of None \<Rightarrow> default_handler | Some h \<Rightarrow> h)
               in case handler (ui_Package info) (bu_NewBinary b) f of
                    (Inl e, f1) \<Rightarrow> (Some (Plain e), f1)
                  | (Inr output, f1) \<Rightarrow>
                      let b' = (if output \<noteq> [] then b\<lparr>bu_NewBinary := output\<rparr> else b)
                      in case VerifyChecksum sha f1 b' of
                           Some e \<Rightarrow> (Some (Plain e), f1)
                         | None \<Rightarrow> CommitBinary sha b' f1))"

definition Updater_Apply ::
  "UpdateInfo go_result \<Rightarrow> (bytes \<Rightarrow> bytes) \<Rightarrow> string go_result \<Rightarrow> DownloadHandler \<Rightarrow> Updater \<Rightarrow> fs \<Rightarrow> upgrade_error option \<times> fs" where
  "Updater_Apply checked sha executable default_handler u f =
     (case checked of
        Inl e \<Rightarrow> if errors_Is e ErrNoUpdate then (Some (Plain ErrNoUpdate), f) else (Some (Plain e), f)
      | Inr info \<Rightarrow> apply_info sha executable default_handler u info f)"

text \<open>The default handler downloads to the output path; \<open>download\<close> is \<open>request.Download\<close>.\<close>

definition defaultDownloadHandler :: "(string \<Rightarrow> string \<Rightarrow> bool \<Rightarrow> string os) \<Rightarrow> DownloadHandler" where
  "defaultDownloadHandler download pkgURL outputPath f =
     (case download pkgURL outputPath True f of
        (Inl e, f') \<Rightarrow> (Inl e, f') | (Inr _, f') \<Rightarrow> (Inr outputPath, f'))"

text \<open>The text of a failed roll back, whose second error may be nil, and the error it wraps.\<close>

definition ErrRollback_Error :: "(go_error \<Rightarrow> string) \<Rightarrow> go_error \<Rightarrow> go_error option \<Rightarrow> string" where
  "ErrRollback_Error err_text err rollback =
     (case rollback of None \<Rightarrow> err_text err | Some r \<Rightarrow> err_text err @ ''; rollback failed: '' @ err_text r)"

fun upgrade_Unwrap :: "upgrade_error \<Rightarrow> go_error" where
  "upgrade_Unwrap (ErrRollback err r) = err"
| "upgrade_Unwrap (Plain err) = err"

subsection \<open>Restart\<close>

text \<open>
  The process is replaced, or on Windows a new one is started, with its program, arguments and environment,
  and this one exits. \<open>start\<close> and \<open>exec\<close> are the errors of the two system calls; \<open>os.Args\<close> begins with the
  program's name.
\<close>

datatype restarted = RestartFailed go_error | StartedAndExits string "string list" "string list" | Replaced string "string list" "string list"

definition Updater_Restart :: "bool \<Rightarrow> string go_result \<Rightarrow> (string \<Rightarrow> go_error option) \<Rightarrow> (string \<Rightarrow> go_error option)
    \<Rightarrow> string list \<Rightarrow> string list \<Rightarrow> Updater \<Rightarrow> restarted" where
  "Updater_Restart windows executable start exec args env u =
     (case (if up_TargetPath u = [] then executable else Inr (up_TargetPath u)) of
        Inl err \<Rightarrow> RestartFailed err
      | Inr self \<Rightarrow>
          if windows
          then (case start self of Some err \<Rightarrow> RestartFailed err | None \<Rightarrow> StartedAndExits self (self # drop 1 args) env)
          else (case exec self of Some err \<Rightarrow> RestartFailed err | None \<Rightarrow> Replaced self args env))"

subsection \<open>The functions of the package\<close>

record UpdateParam =
  pa_Server :: string
  pa_Version :: string

definition CheckUpdate ::
  "(string \<Rightarrow> (string \<times> string) list \<Rightarrow> string go_result) \<Rightarrow> string \<Rightarrow> string \<Rightarrow> (string \<Rightarrow> bytes go_result)
   \<Rightarrow> (bytes \<Rightarrow> UpdateInfo option go_result) \<Rightarrow> UpdateParam \<Rightarrow> UpdateInfo go_result" where
  "CheckUpdate with_query goos goarch http_get unmarshal param =
     Updater_Check with_query goos goarch http_get unmarshal (NewUpdater (pa_Server param) (pa_Version param))"

definition ApplyUpdate ::
  "(Updater \<Rightarrow> UpdateInfo go_result) \<Rightarrow> (bytes \<Rightarrow> bytes) \<Rightarrow> string go_result \<Rightarrow> DownloadHandler \<Rightarrow> UpdateParam \<Rightarrow> fs \<Rightarrow> upgrade_error option \<times> fs" where
  "ApplyUpdate check sha executable default_handler param f =
     (let u = NewUpdater (pa_Server param) (pa_Version param) in Updater_Apply (check u) sha executable default_handler u f)"

definition upgrade_Restart :: "bool \<Rightarrow> string go_result \<Rightarrow> (string \<Rightarrow> go_error option) \<Rightarrow> (string \<Rightarrow> go_error option)
    \<Rightarrow> string list \<Rightarrow> string list \<Rightarrow> restarted" where
  "upgrade_Restart windows executable start exec args env =
     Updater_Restart windows executable start exec args env (NewUpdater [] [])"

text \<open>Without a server nothing is asked and nothing is changed.\<close>

lemma ApplyUpdate_no_server:
  assumes "pa_Server param = []"
  shows "ApplyUpdate (Updater_Check wq os arch get um) sha executable dh param f = (Some (Plain (Errorf ''server url is required'')), f)"
  using assms by (simp add: ApplyUpdate_def NewUpdater_def Updater_Apply_def Updater_Check_def buildUpdateURL_def errors_Is_def ErrNoUpdate_def)

text \<open>The running program is found when no target is set: the package's own restart always asks for it.\<close>

lemma upgrade_Restart_self:
  "upgrade_Restart windows executable start exec args env = Replaced self as es \<Longrightarrow> executable = Inr self \<and> as = args \<and> es = env"
  by (auto simp: upgrade_Restart_def Updater_Restart_def NewUpdater_def split: sum.splits option.splits if_splits)

subsection \<open>The replacement is atomic\<close>

text \<open>The places a commit works on: the new binary, the target and the backup, none inside another.\<close>

definition binaries :: "fs \<Rightarrow> string \<Rightarrow> string \<Rightarrow> string \<Rightarrow> bool" where
  "binaries f n t b \<longleftrightarrow> leaves f [path_key n, path_key t, path_key b]"

lemma binaries_apart: "binaries f n t b \<Longrightarrow> path_key n \<noteq> path_key t \<and> path_key t \<noteq> path_key b \<and> path_key n \<noteq> path_key b"
  by (auto simp: binaries_def leaves_def apart_def)

text \<open>Everything but the three places is as it was.\<close>

definition rest_kept :: "fs \<Rightarrow> fs \<Rightarrow> string \<Rightarrow> string \<Rightarrow> string \<Rightarrow> bool" where
  "rest_kept f f' n t b \<longleftrightarrow> (\<forall>k. k \<noteq> path_key n \<longrightarrow> k \<noteq> path_key t \<longrightarrow> k \<noteq> path_key b \<longrightarrow> node_of f' k = node_of f k)"

lemma rest_keptI: "(\<And>k. k \<noteq> path_key n \<Longrightarrow> k \<noteq> path_key t \<Longrightarrow> k \<noteq> path_key b \<Longrightarrow> node_of f' k = node_of f k) \<Longrightarrow> rest_kept f f' n t b"
  unfolding rest_kept_def by blast

lemma rest_kept_at:
  "rest_kept f f' n t b \<Longrightarrow> path_key p \<notin> {path_key n, path_key t, path_key b} \<Longrightarrow> node_at f' p = node_at f p"
  unfolding rest_kept_def node_at_def by blast

lemma rest_kept_refl [simp]: "rest_kept f f n t b"
  by (rule rest_keptI) simp

lemma rest_kept_trans: "rest_kept f g n t b \<Longrightarrow> rest_kept g h n t b \<Longrightarrow> rest_kept f h n t b"
  unfolding rest_kept_def by metis

lemma binaries_Rename:
  assumes "binaries f n t b" "os_Rename p q f = (r, f')" "p \<in> {n, t, b}" "q \<in> {n, t, b}" "path_key p \<noteq> path_key q"
  shows "(\<exists>e. r = Inl e) \<and> f' = f \<or> r = Inr () \<and> binaries f' n t b \<and> rest_kept f f' n t b \<and> faults f' = faults f
    \<and> (\<forall>x. node_at f' x = (if path_key x = path_key q then node_at f p
          else if path_key x = path_key p then None else node_at f x))"
proof -
  have "path_key p \<in> set [path_key n, path_key t, path_key b]" "path_key q \<in> set [path_key n, path_key t, path_key b]"
    using assms(3,4) by auto
  from Rename_leaves [OF assms(1) [unfolded binaries_def] this assms(5,2)] show ?thesis
  proof
    assume ok: "r = Inr () \<and> faults f' = faults f \<and> leaves f' [path_key n, path_key t, path_key b] \<and>
      (\<forall>k. node_of f' k = (if k = path_key q then node_of f (path_key p) else if k = path_key p then None else node_of f k))"
    then have now: "node_of f' k = (if k = path_key q then node_of f (path_key p) else if k = path_key p then None else node_of f k)" for k
      by blast
    have "rest_kept f f' n t b" by (rule rest_keptI) (use now assms(3,4) in auto)
    with ok now show ?thesis by (simp add: binaries_def node_at_def)
  qed simp
qed

lemma binaries_Remove:
  assumes "binaries f n t b" "os_Remove b f = (r, f')"
  shows "(\<exists>e. r = Inl e) \<and> f' = f \<or> r = Inr () \<and> binaries f' n t b \<and> rest_kept f f' n t b \<and> faults f' = faults f
    \<and> (\<forall>x. node_at f' x = (if path_key x = path_key b then None else node_at f x))"
proof -
  have "path_key b \<in> set [path_key n, path_key t, path_key b]" by simp
  from Remove_leaves [OF assms(1) [unfolded binaries_def] this assms(2)] show ?thesis
  proof
    assume ok: "r = Inr () \<and> faults f' = faults f \<and> leaves f' [path_key n, path_key t, path_key b] \<and>
      (\<forall>k. node_of f' k = (if k = path_key b then None else node_of f k))"
    then have now: "node_of f' k = (if k = path_key b then None else node_of f k)" for k by blast
    have "rest_kept f f' n t b" by (rule rest_keptI) (use now in auto)
    with ok now show ?thesis by (simp add: binaries_def node_at_def)
  qed simp
qed

lemma binaries_Chmod:
  assumes "binaries f n t b" "os_Chmod n mode f = (r, f')" "node_at f n = Some (RegFile c m)"
  shows "(\<exists>e. r = Inl e) \<and> f' = f \<or> r = Inr () \<and> binaries f' n t b \<and> rest_kept f f' n t b \<and> faults f' = faults f
    \<and> (\<forall>x. node_at f' x = (if path_key x = path_key n then Some (RegFile c mode) else node_at f x))"
proof (cases "faults f (SysChmod n)")
  case None
  let ?g = "put_node (path_key n) (RegFile c mode) f"
  have ne: "snd (path_key n) \<noteq> []" using assms(1) by (simp add: binaries_def leaves_def leaf_def)
  have run: "r = Inr ()" "f' = ?g" using None assms(2,3) by (auto simp: os_Chmod_def)
  have "node_of ?g k = node_of f k" if "k \<notin> set [path_key n, path_key t, path_key b]" for k
    using that by (simp add: node_of_put)
  then have "binaries ?g n t b"
    unfolding binaries_def by (rule leaves_keep [OF assms(1) [unfolded binaries_def]])
  moreover have "rest_kept f ?g n t b" by (rule rest_keptI) (simp add: node_of_put)
  ultimately show ?thesis using run ne by (simp add: node_at_put)
qed (use assms in \<open>auto simp: os_Chmod_def\<close>)

text \<open>What the second half leaves behind, from a state where the target was moved or was never there.\<close>

lemma install_new_outcome:
  assumes "binaries f n t b" "install_new n t b moved f = (r, f')" "moved \<Longrightarrow> node_at f t = None"
  shows "rest_kept f f' n t b \<and> (case r of
      None \<Rightarrow> node_at f' t = node_at f n
    | Some (Plain e) \<Rightarrow> node_at f' t = (if moved then node_at f b else node_at f t)
    | Some (ErrRollback e e') \<Rightarrow> moved \<and> node_at f' t = None \<and> node_at f' b = node_at f b)"
proof -
  note ap = binaries_apart [OF assms(1)]
  obtain r1 f1 where r1: "os_Rename n t f = (r1, f1)" by fastforce
  from binaries_Rename [OF assms(1) r1] ap consider (failed) "\<exists>e. r1 = Inl e" "f1 = f"
    | (ok) "r1 = Inr ()" "binaries f1 n t b" "rest_kept f f1 n t b"
        "\<And>x. node_at f1 x = (if path_key x = path_key t then node_at f n else if path_key x = path_key n then None else node_at f x)"
    by auto
  then show ?thesis
  proof cases
    case failed
    show ?thesis
    proof (cases moved)
      case True
      obtain r2 f2 where r2: "os_Rename b t f = (r2, f2)" by fastforce
      from binaries_Rename [OF assms(1) r2] ap consider (stuck) "\<exists>e'. r2 = Inl e'" "f2 = f"
        | (returned) "r2 = Inr ()" "rest_kept f f2 n t b" "node_at f2 t = node_at f b" by auto
      then show ?thesis
      proof cases
        case stuck
        with failed True r1 r2 assms(2,3) show ?thesis by (auto simp: install_new_def)
      next
        case returned
        with failed True r1 r2 assms(2) show ?thesis by (auto simp: install_new_def)
      qed
    next
      case False
      with failed r1 assms(2) show ?thesis by (auto simp: install_new_def)
    qed
  next
    case ok
    obtain r2 f2 where r2: "os_Remove b f1 = (r2, f2)" by fastforce
    from binaries_Remove [OF ok(2) r2] ap have "rest_kept f1 f2 n t b \<and> node_at f2 t = node_at f1 t"
      by (metis rest_kept_refl)
    with ok r1 r2 assms(2) rest_kept_trans [OF ok(3)] show ?thesis
      by (auto simp: install_new_def split: if_splits)
  qed
qed

text \<open>The verdict on a commit: \<open>new\<close> is installed, or the target is as before, or the old binary is the backup.\<close>

definition commit_verdict ::
  "fs \<Rightarrow> string \<Rightarrow> string \<Rightarrow> string \<Rightarrow> node option \<Rightarrow> upgrade_error option \<Rightarrow> fs \<Rightarrow> bool" where
  "commit_verdict f n t b new r f' \<longleftrightarrow> rest_kept f f' n t b \<and> (case r of
      None \<Rightarrow> node_at f' t = new
    | Some (Plain e) \<Rightarrow> node_at f' t = node_at f t
    | Some (ErrRollback e e') \<Rightarrow> node_at f' t = None \<and> node_at f' b = node_at f t)"

lemma commit_verdict_from:
  "rest_kept f g n t b \<Longrightarrow> node_at g t = node_at f t \<Longrightarrow> commit_verdict g n t b new r f' \<Longrightarrow> commit_verdict f n t b new r f'"
  by (auto simp: commit_verdict_def intro: rest_kept_trans split: option.splits upgrade_error.splits)

lemma move_and_install:
  assumes "binaries f n t b"
    and "(case os_Rename t b f of (Inl e, f3) \<Rightarrow> (Some (Plain e), f3) | (Inr _, f3) \<Rightarrow> install_new n t b True f3) = (r, f')"
  shows "commit_verdict f n t b (node_at f n) r f'"
proof -
  note ap = binaries_apart [OF assms(1)]
  obtain r1 f1 where r1: "os_Rename t b f = (r1, f1)" by fastforce
  from binaries_Rename [OF assms(1) r1] ap consider (failed) "\<exists>e. r1 = Inl e" "f1 = f"
    | (ok) "r1 = Inr ()" "binaries f1 n t b" "rest_kept f f1 n t b"
        "node_at f1 t = None" "node_at f1 b = node_at f t" "node_at f1 n = node_at f n"
    by auto
  then show ?thesis
  proof cases
    case failed
    with assms(2) r1 show ?thesis by (auto simp: commit_verdict_def)
  next
    case ok
    then have "install_new n t b True f1 = (r, f')" using assms(2) r1 by simp
    from install_new_outcome [OF ok(2) this ok(4)] ok show ?thesis
      by (auto simp: commit_verdict_def intro: rest_kept_trans split: option.splits upgrade_error.splits)
  qed
qed

lemma commitBinary_eq:
  assumes "b = t @ ''-'' @ v"
  shows "commitBinary sha n t mode v f =
     (case os_Chmod n mode f of
        (Inl e, f1) \<Rightarrow> (Some (Plain e), f1)
      | (Inr _, f1) \<Rightarrow>
          (case os_Stat f1 t of
             Inr info \<Rightarrow>
               (case os_Remove b f1 of (removed, f2) \<Rightarrow>
                  if \<exists>e. removed = Inl e \<and> \<not> errors_Is e ErrNotExist then (Some (Plain (projl removed)), f2)
                  else (case os_Rename t b f2 of
                          (Inl e, f3) \<Rightarrow> (Some (Plain e), f3) | (Inr _, f3) \<Rightarrow> install_new n t b True f3))
           | Inl e \<Rightarrow> if errors_Is e ErrNotExist then install_new n t b False f1 else (Some (Plain e), f1)))"
  unfolding commitBinary_def verifyChecksum_def assms [symmetric] Let_def
  by (simp split: prod.split sum.split)

lemma commit_ok:
  assumes bin: "binaries f n t b" and b: "b = t @ ''-'' @ v" and new: "node_at f n = Some (RegFile c m)"
    and run: "commitBinary sha n t mode v f = (r, f')"
  shows "commit_verdict f n t b (Some (RegFile c mode)) r f'"
proof -
  note ap = binaries_apart [OF bin] and eq = run [unfolded commitBinary_eq [OF b]]
  obtain r1 f1 where r1: "os_Chmod n mode f = (r1, f1)" by fastforce
  from binaries_Chmod [OF bin r1 new] ap consider (failed) "\<exists>e. r1 = Inl e" "f1 = f"
    | (ok) "r1 = Inr ()" "binaries f1 n t b" "rest_kept f f1 n t b" "node_at f1 t = node_at f t"
        "node_at f1 n = Some (RegFile c mode)"
    by auto
  then show ?thesis
  proof cases
    case failed
    with eq r1 show ?thesis by (auto simp: commit_verdict_def)
  next
    case ok
    have "commit_verdict f1 n t b (Some (RegFile c mode)) r f'"
    proof (cases "os_Stat f1 t")
      case (Inl e)
      show ?thesis
      proof (cases "errors_Is e ErrNotExist")
        case True
        then have "install_new n t b False f1 = (r, f')" using eq r1 ok(1) Inl by simp
        from install_new_outcome [OF ok(2) this] show ?thesis
          using ok(5) by (auto simp: commit_verdict_def split: option.splits upgrade_error.splits)
      next
        case False
        then show ?thesis using eq r1 ok(1) Inl by (auto simp: commit_verdict_def)
      qed
    next
      case (Inr info)
      obtain r2 f2 where r2: "os_Remove b f1 = (r2, f2)" by fastforce
      from binaries_Remove [OF ok(2) r2] ap ok have keep: "binaries f2 n t b" "rest_kept f1 f2 n t b"
        "node_at f2 t = node_at f1 t" "node_at f2 n = Some (RegFile c mode)" by auto
      show ?thesis
      proof (cases "\<exists>e. r2 = Inl e \<and> \<not> errors_Is e ErrNotExist")
        case True
        then have "f2 = f1" using binaries_Remove [OF ok(2) r2] by auto
        with True show ?thesis using eq r1 ok(1) Inr r2 by (auto simp: commit_verdict_def)
      next
        case False
        then have "(case os_Rename t b f2 of (Inl e, f3) \<Rightarrow> (Some (Plain e), f3)
            | (Inr _, f3) \<Rightarrow> install_new n t b True f3) = (r, f')"
          using eq unfolding r1 ok(1) prod.case sum.case Inr r2 if_not_P [OF False] by simp
        from move_and_install [OF keep(1) this] show ?thesis
          using commit_verdict_from [OF keep(2,3)] keep(4) by simp
      qed
    qed
    then show ?thesis using commit_verdict_from [OF ok(3,4)] by blast
  qed
qed

text \<open>
  C12. \<open>commitBinary\<close> is atomic under every pattern of failing system calls: on success the target is
  the new binary with the requested mode; on an ordinary error the target is what it was before; and on
  a failed roll back the old binary is intact at the backup path. No other file changes.
\<close>

theorem commitBinary_atomic:
  assumes "binaries f n t (t @ ''-'' @ v)" "node_at f n = Some (RegFile c m)"
    and "commitBinary sha n t mode v f = (r, f')"
  shows "(case r of
      None \<Rightarrow> node_at f' t = Some (RegFile c mode)
    | Some (Plain e) \<Rightarrow> node_at f' t = node_at f t
    | Some (ErrRollback e e') \<Rightarrow> node_at f' t = None \<and> node_at f' (t @ ''-'' @ v) = node_at f t)
    \<and> (\<forall>p. path_key p \<notin> {path_key n, path_key t, path_key (t @ ''-'' @ v)} \<longrightarrow> node_at f' p = node_at f p)"
  using commit_ok [OF assms(1) refl assms(2,3)] rest_kept_at unfolding commit_verdict_def by blast

definition demo_up_fs :: fs where
  "demo_up_fs = put_node (False, [''t'']) (RegFile ''old'' 493) (put_node (False, [''n'']) (RegFile ''new'' 420) empty_fs)"

lemma demo_up_keys:
  "path_key ''n'' = (False, [''n''])" "path_key ''t'' = (False, [''t''])" "path_key ''t-1'' = (False, [''t-1''])"
  by (simp_all add: path_key_def path_elems_def filepath_IsAbs_def)

lemma demo_up_nodes:
  "node_at demo_up_fs ''t'' = Some (RegFile ''old'' 493)" "node_at demo_up_fs ''n'' = Some (RegFile ''new'' 420)"
  "node_at demo_up_fs ''t-1'' = None" "faults demo_up_fs = (\<lambda>_. None)"
  by (simp_all add: demo_up_fs_def node_at_put demo_up_keys) (simp_all add: empty_fs_def node_at_def node_of_def demo_up_keys)

lemma demo_up_binaries: "binaries demo_up_fs ''n'' ''t'' (''t'' @ ''-'' @ ''1'')"
proof -
  have "leaf demo_up_fs (False, [x])" for x
  proof (rule leafI)
    fix k assume k: "below (False, [x]) k" "k \<noteq> (False, [x])"
    then have "snd k \<noteq> [] \<and> k \<noteq> (False, [''t'']) \<and> k \<noteq> (False, [''n''])"
      by (cases k; cases "snd k") auto
    then show "node_of demo_up_fs k = None"
      by (simp add: demo_up_fs_def node_of_put) (simp add: node_of_def empty_fs_def)
  qed simp
  then show ?thesis by (simp add: binaries_def leaves_def apart_def demo_up_keys)
qed

theorem commitBinary_atomic_witness:
  "\<exists>r f'. commitBinary (\<lambda>d. d) ''n'' ''t'' 493 ''1'' demo_up_fs = (r, f') \<and> (case r of
      None \<Rightarrow> node_at f' ''t'' = Some (RegFile ''new'' 493)
    | Some (Plain e) \<Rightarrow> node_at f' ''t'' = Some (RegFile ''old'' 493)
    | Some (ErrRollback e e') \<Rightarrow> node_at f' ''t-1'' = Some (RegFile ''old'' 493))"
proof -
  obtain r f' where run: "commitBinary (\<lambda>d. d) ''n'' ''t'' 493 ''1'' demo_up_fs = (r, f')" by fastforce
  from commitBinary_atomic [OF demo_up_binaries demo_up_nodes(2) run] run show ?thesis
    by (intro exI [of _ r] exI [of _ f']) (auto simp: demo_up_nodes split: option.splits upgrade_error.splits)
qed

lemma commit_installs:
  assumes bin: "binaries f n t (t @ ''-'' @ v)" and new: "node_at f n = Some (RegFile c m)"
    and t: "node_at f t = Some (RegFile old m')" and fl: "faults f = (\<lambda>_. None)"
    and b: "node_at f (t @ ''-'' @ v) = None \<or> (\<exists>c' m''. node_at f (t @ ''-'' @ v) = Some (RegFile c' m''))"
    and dirs: "node_of f (parent (path_key t)) = Some (Directory d)" "node_of f (parent (path_key (t @ ''-'' @ v))) = Some (Directory d')"
  shows "\<exists>f'. commitBinary sha n t mode v f = (None, f') \<and> node_at f' t = Some (RegFile c mode)
    \<and> node_at f' n = None \<and> node_at f' (t @ ''-'' @ v) = None \<and> rest_kept f f' n t (t @ ''-'' @ v)"
proof -
  obtain b where bdef: "b = t @ ''-'' @ v" by simp
  note bin = bin [folded bdef] and b = b [folded bdef] and dirs = dirs [folded bdef]
  note ap = binaries_apart [OF bin]
  have par: "node_of g (parent (path_key t)) = Some (Directory d) \<and> node_of g (parent (path_key b)) = Some (Directory d')"
    if "rest_kept f g n t b" for g
  proof -
    have "k \<notin> {path_key n, path_key t, path_key b}" if "node_of f k = Some (Directory x)" for k x
      using that new t b by (auto simp: node_at_def)
    then show ?thesis using that dirs unfolding rest_kept_def by (metis insert_iff)
  qed
  obtain r1 f1 where r1: "os_Chmod n mode f = (r1, f1)" by fastforce
  have "r1 = Inr ()" using r1 new fl by (auto simp: os_Chmod_def)
  with binaries_Chmod [OF bin r1 new] ap have ok1: "binaries f1 n t b" "rest_kept f f1 n t b"
    "faults f1 = (\<lambda>_. None)" "node_at f1 n = Some (RegFile c mode)" "node_at f1 t = Some (RegFile old m')"
    "node_at f1 b = node_at f b" using t fl by auto
  obtain r2 f2 where r2: "os_Remove b f1 = (r2, f2)" by fastforce
  have ok2: "binaries f2 n t b" "rest_kept f f2 n t b" "faults f2 = (\<lambda>_. None)" "node_at f2 n = Some (RegFile c mode)"
    "node_at f2 t = Some (RegFile old m')" "node_at f2 b = None" "r2 = Inl ErrNotExist \<or> r2 = Inr ()"
    using binaries_Remove [OF ok1(1) r2] r2 b ap ok1 rest_kept_trans [OF ok1(2)] by (auto simp: os_Remove_def file_not_root)
  obtain r3 f3 where r3: "os_Rename t b f2 = (r3, f3)" by fastforce
  have "r3 = Inr ()" using Rename_ok [OF ok2(3,5), of b] ok2(6) par [OF ok2(2)] ap r3 by auto
  with binaries_Rename [OF ok2(1) r3] ap ok2 have ok3: "binaries f3 n t b" "rest_kept f f3 n t b"
    "faults f3 = (\<lambda>_. None)" "node_at f3 n = Some (RegFile c mode)" "node_at f3 t = None" "node_at f3 b = Some (RegFile old m')"
    using rest_kept_trans [OF ok2(2)] by auto
  obtain r4 f4 where r4: "os_Rename n t f3 = (r4, f4)" by fastforce
  have r4ok: "r4 = Inr ()" using Rename_ok [OF ok3(3,4), of t] ok3(5) par [OF ok3(2)] ap r4 by auto
  with binaries_Rename [OF ok3(1) r4] ap ok3 have ok4: "binaries f4 n t b" "rest_kept f f4 n t b"
    "faults f4 = (\<lambda>_. None)" "node_at f4 n = None" "node_at f4 t = Some (RegFile c mode)" "node_at f4 b = Some (RegFile old m')"
    using rest_kept_trans [OF ok3(2)] by auto
  obtain r5 f5 where r5: "os_Remove b f4 = (r5, f5)" by fastforce
  have ok5: "node_at f5 t = Some (RegFile c mode)" "node_at f5 n = None" "node_at f5 b = None"
    "rest_kept f f5 n t b"
    using binaries_Remove [OF ok4(1) r5] r5 ap ok4 rest_kept_trans [OF ok4(2)] by (auto simp: os_Remove_def file_not_root)
  have "os_Stat f1 t = Inr (RegFile old m')" using ok1 by (simp add: os_Stat_def)
  moreover have "\<not> (\<exists>e. r2 = Inl e \<and> \<not> errors_Is e ErrNotExist)" using ok2(7) by (auto simp: errors_Is_def)
  ultimately have "commitBinary sha n t mode v f = (None, f5)"
    using r1 \<open>r1 = Inr ()\<close> r2 r3 \<open>r3 = Inr ()\<close> r4 r4ok r5
    unfolding commitBinary_eq [OF bdef] by (simp add: install_new_def)
  then show ?thesis using ok5 bdef by simp
qed

text \<open>
  Without failing system calls \<open>commitBinary\<close> succeeds: the target holds the new content with the
  requested mode, the new binary's path is free again, and no backup is left.
\<close>

theorem commitBinary_installs:
  assumes bin: "binaries f n t (t @ ''-'' @ v)" and new: "node_at f n = Some (RegFile c m)"
    and t: "node_at f t = Some (RegFile old m')" and fl: "faults f = (\<lambda>_. None)"
    and b: "node_at f (t @ ''-'' @ v) = None \<or> (\<exists>c' m''. node_at f (t @ ''-'' @ v) = Some (RegFile c' m''))"
    and dirs: "node_of f (parent (path_key t)) = Some (Directory d)" "node_of f (parent (path_key (t @ ''-'' @ v))) = Some (Directory d')"
  shows "\<exists>f'. commitBinary sha n t mode v f = (None, f') \<and> node_at f' t = Some (RegFile c mode)
    \<and> node_at f' n = None \<and> node_at f' (t @ ''-'' @ v) = None"
  using commit_installs [OF assms] by blast

theorem commitBinary_installs_witness:
  "\<exists>f'. commitBinary (\<lambda>d. d) ''n'' ''t'' 493 ''1'' demo_up_fs = (None, f') \<and> node_at f' ''t'' = Some (RegFile ''new'' 493)
    \<and> node_at f' ''n'' = None \<and> node_at f' (''t'' @ ''-'' @ ''1'') = None"
  by (rule commitBinary_installs [OF demo_up_binaries demo_up_nodes(2,1,4)])
    (simp_all add: demo_up_nodes demo_up_keys node_of_def)

subsection \<open>Checksums in hexadecimal\<close>

fun hex_char :: "nat \<Rightarrow> char" where
  "hex_char n = (if n < 10 then char_of (48 + n) else char_of (87 + n))"

definition hex_EncodeToString :: "bytes \<Rightarrow> string" where
  "hex_EncodeToString d = concat (map (\<lambda>c. [hex_char (of_char c div 16), hex_char (of_char c mod 16)]) d)"

lemma hex_digit_char: "n < 16 \<Longrightarrow> hex_digit (hex_char n) = Some n"
  by (auto simp: hex_digit_def Let_def)

lemma hex_digit_lt: "hex_digit c = Some n \<Longrightarrow> n < 16"
  by (auto simp: hex_digit_def Let_def split: if_splits)

text \<open>Digits of either case are read: the lower-case form of a digit is the one that is printed.\<close>

lemma hex_char_digit: "hex_digit c = Some n \<Longrightarrow> ascii_lower c = hex_char n"
  by (auto simp: hex_digit_def Let_def ascii_lower_def split: if_splits)

lemma of_char_lt: "(of_char c :: nat) < 256"
  by simp

lemma hex_decode_encode: "hex_DecodeString (hex_EncodeToString d) = Inr d"
proof (induction d)
  case (Cons c d)
  have "(of_char c :: nat) div 16 < 16" "(of_char c :: nat) mod 16 < 16" using of_char_lt [of c] by linarith+
  with Cons show ?case by (simp add: hex_EncodeToString_def hex_digit_char del: hex_char.simps)
qed (simp add: hex_EncodeToString_def)

lemma hex_encode_decode: "hex_DecodeString s = Inr d \<Longrightarrow> hex_EncodeToString d = map ascii_lower s \<and> length s = 2 * length d"
proof (induction s arbitrary: d rule: hex_DecodeString.induct)
  case (3 a b rest)
  then obtain x y d' where d: "hex_digit a = Some x" "hex_digit b = Some y" "hex_DecodeString rest = Inr d'"
    "d = char_of (16 * x + y) # d'" by (auto split: option.splits sum.splits)
  have "x < 16" "y < 16" using d hex_digit_lt by auto
  then have "(16 * x + y) mod 256 = 16 * x + y" by simp
  then have "(of_char (char_of (16 * x + y) :: char) :: nat) = 16 * x + y" by simp
  with 3(1) [OF refl d(1,2,3)] d \<open>y < 16\<close> show ?case
    by (simp add: hex_EncodeToString_def hex_char_digit del: hex_char.simps)
qed (auto simp: hex_EncodeToString_def split: if_splits)

lemma hex_digit_lower: "hex_digit (ascii_lower c) = hex_digit c"
  by (auto simp: hex_digit_def ascii_lower_def Let_def)

lemma hex_decode_lower: "hex_DecodeString (map ascii_lower s) = hex_DecodeString s"
  by (induction s rule: hex_DecodeString.induct) (auto simp: hex_digit_lower split: option.split sum.split)

lemma parse_iff:
  "parseChecksum s = Inr d \<longleftrightarrow> (s = [] \<and> d = []) \<or> (length d = 32 \<and> map ascii_lower s = hex_EncodeToString d)"
proof -
  have "hex_DecodeString s = Inr d \<longleftrightarrow> map ascii_lower s = hex_EncodeToString d"
    using hex_encode_decode [of s d] hex_decode_encode [of d] hex_decode_lower [of s] by auto
  moreover have "length d = 32 \<Longrightarrow> hex_EncodeToString d \<noteq> []"
    by (cases d) (auto simp: hex_EncodeToString_def)
  ultimately show ?thesis by (auto simp: parseChecksum_def split: sum.splits if_splits)
qed

text \<open>
  \<open>parseChecksum\<close> accepts exactly the hexadecimal texts of 32 bytes, in either case, and returns
  those bytes; the empty text is no checksum; everything else is an error.
\<close>

theorem parseChecksum_hex:
  "parseChecksum s = Inr d \<longleftrightarrow> (s = [] \<and> d = []) \<or> (length d = 32 \<and> map ascii_lower s = hex_EncodeToString d)"
  by (rule parse_iff)

subsection \<open>Only a verified package is installed\<close>

text \<open>A checksum that was verified is that of the file.\<close>

lemma verifyChecksum_sha:
  assumes "verifyChecksum sha f p cs = None" "cs \<noteq> []" "node_at f p = Some (RegFile c m)"
  shows "cs = sha c"
proof -
  obtain data where "os_ReadFile f p = Inr data" "cs = sha data"
    using assms(1,2) by (auto simp: verifyChecksum_def split: sum.splits if_splits)
  moreover from this assms(3) have "data = c" by (auto simp: os_ReadFile_def os_Open_def split: option.splits)
  ultimately show ?thesis by simp
qed

text \<open>
  C14. When \<open>Apply\<close> reports success, the description named an https package, the handler fetched it,
  and the target now holds the very content the handler produced, with the requested mode; if the
  description gives a checksum, it is the SHA-256 of that content.
\<close>

theorem Updater_Apply_verified:
  assumes "Updater_Apply checked sha executable default_handler u f = (None, f')"
  shows "\<exists>info b out f1 cs. checked = Inr info \<and> prefix ''https://'' (ui_Package info)
    \<and> BinaryUpdater_Init executable f \<lparr>bu_NewVersion = ui_Version info, bu_OldVersion = up_Version u,
        bu_TargetPath = up_TargetPath u, bu_TargetMode = up_TargetMode u, bu_NewBinary = [], bu_Checksum = cs\<rparr> = Inr b
    \<and> (case up_Download u of None \<Rightarrow> default_handler | Some h \<Rightarrow> h) (ui_Package info) (bu_NewBinary b) f = (Inr out, f1)
    \<and> (let new = (if out \<noteq> [] then out else bu_NewBinary b); t = bu_TargetPath b
       in \<forall>c m. binaries f1 new t (t @ ''-'' @ bu_OldVersion b) \<and> node_at f1 new = Some (RegFile c m) \<longrightarrow>
         node_at f' t = Some (RegFile c (bu_TargetMode b))
         \<and> (ui_Checksum info \<noteq> [] \<longrightarrow> parseChecksum (ui_Checksum info) = Inr (sha c)))"
proof -
  obtain info where info: "checked = Inr info" "apply_info sha executable default_handler u info f = (None, f')"
    using assms by (auto simp: Updater_Apply_def split: sum.splits if_splits)
  then have https: "prefix ''https://'' (ui_Package info)" by (auto simp: apply_info_def split: if_splits)
  obtain cs where cs: "(if ui_Checksum info \<noteq> [] then parseChecksum (ui_Checksum info) else Inr []) = Inr cs"
    using info(2) by (auto simp: apply_info_def split: sum.splits if_splits)
  let ?b0 = "\<lparr>bu_NewVersion = ui_Version info, bu_OldVersion = up_Version u,
        bu_TargetPath = up_TargetPath u, bu_TargetMode = up_TargetMode u, bu_NewBinary = [], bu_Checksum = cs\<rparr>"
  let ?h = "case up_Download u of None \<Rightarrow> default_handler | Some h \<Rightarrow> h"
  obtain b where b: "BinaryUpdater_Init executable f ?b0 = Inr b"
    using info(2) cs https by (auto simp: apply_info_def split: sum.splits)
  obtain out f1 where h: "?h (ui_Package info) (bu_NewBinary b) f = (Inr out, f1)"
    using info(2) cs https b by (auto simp: apply_info_def Let_def split: sum.splits prod.splits)
  let ?new = "if out \<noteq> [] then out else bu_NewBinary b" and ?t = "bu_TargetPath b"
  have rest: "verifyChecksum sha f1 ?new (bu_Checksum b) = None"
    "commitBinary sha ?new ?t (bu_TargetMode b) (bu_OldVersion b) f1 = (None, f')"
    using info(2) cs https b h
    by (auto simp: apply_info_def Let_def VerifyChecksum_def CommitBinary_def split: option.splits if_splits)
  have bcs: "bu_Checksum b = cs"
    using b by (auto simp: BinaryUpdater_Init_def Let_def split: sum.splits if_splits)
  have "node_at f' ?t = Some (RegFile c (bu_TargetMode b))
      \<and> (ui_Checksum info \<noteq> [] \<longrightarrow> parseChecksum (ui_Checksum info) = Inr (sha c))"
    if "binaries f1 ?new ?t (?t @ ''-'' @ bu_OldVersion b)" "node_at f1 ?new = Some (RegFile c m)" for c m
  proof -
    have "node_at f' ?t = Some (RegFile c (bu_TargetMode b))"
      using commit_ok [OF that(1) refl that(2) rest(2)] by (simp add: commit_verdict_def)
    moreover have "parseChecksum (ui_Checksum info) = Inr (sha c)" if "ui_Checksum info \<noteq> []"
    proof -
      have p: "parseChecksum (ui_Checksum info) = Inr cs" using cs that by simp
      then have "cs \<noteq> []" using that by (auto simp: parse_iff)
      with verifyChecksum_sha [OF rest(1) _ \<open>node_at f1 ?new = Some (RegFile c m)\<close>] bcs p show ?thesis by simp
    qed
    ultimately show ?thesis by blast
  qed
  with info(1) https b h show ?thesis unfolding Let_def by blast
qed

definition demo_updater :: Updater where
  "demo_updater = \<lparr>up_Server = ''s'', up_Version = ''1'', up_TargetPath = ''t'', up_TargetMode = 493,
     up_Download = Some (\<lambda>pkg out f. (Inr ''n'', f))\<rparr>"

definition demo_info :: UpdateInfo where
  "demo_info = \<lparr>ui_Error = [], ui_Version = ''2'', ui_Package = ''https://x'', ui_Checksum = []\<rparr>"

theorem Updater_Apply_verified_witness:
  "\<exists>f'. Updater_Apply (Inr demo_info) (\<lambda>d. d) (Inr ''t'') (\<lambda>p o' f. (Inr [], f)) demo_updater demo_up_fs = (None, f')
     \<and> node_at f' ''t'' = Some (RegFile ''new'' 493)"
proof -
  have "\<exists>f'. commitBinary (\<lambda>d. d) ''n'' ''t'' 493 ''1'' demo_up_fs = (None, f') \<and> node_at f' ''t'' = Some (RegFile ''new'' 493)
    \<and> node_at f' ''n'' = None \<and> node_at f' (''t'' @ ''-'' @ ''1'') = None \<and> rest_kept demo_up_fs f' ''n'' ''t'' (''t'' @ ''-'' @ ''1'')"
    by (rule commit_installs [OF demo_up_binaries demo_up_nodes(2,1,4)])
      (simp_all add: demo_up_nodes demo_up_keys node_of_def)
  then obtain f' where c: "commitBinary (\<lambda>d. d) ''n'' ''t'' 493 ''1'' demo_up_fs = (None, f')" by blast
  have run: "Updater_Apply (Inr demo_info) (\<lambda>d. d) (Inr ''t'') (\<lambda>p o' f. (Inr [], f)) demo_updater demo_up_fs = (None, f')"
    using c by (simp add: Updater_Apply_def apply_info_def demo_info_def demo_updater_def BinaryUpdater_Init_def
        VerifyChecksum_def verifyChecksum_def CommitBinary_def Let_def)
  from Updater_Apply_verified [OF run] have "node_at f' ''t'' = Some (RegFile ''new'' 493)"
    using demo_up_binaries demo_up_nodes(2)
    by (auto simp: demo_info_def demo_updater_def BinaryUpdater_Init_def Let_def)
  with run show ?thesis by blast
qed

end
