(* ===== verification/Request.thy ===== *)
theory Request
  imports Go_OS
begin

text \<open>
  The HTTP client helpers (src/request/client.go, method.go and download.go). \<open>net/http\<close>, the JSON marshaller
  and gzip are the environment; a request that is sent is a record, a response is its body and the error that
  reading it ends with.
\<close>

subsection \<open>Requests\<close>

type_synonym header_map = "(string \<times> string) list"

record request_Client =
  rc_Method :: string
  rc_Url :: string
  rc_Data :: string
  rc_Headers :: header_map
  rc_Timeout :: int

record sent_request =
  sq_Method :: string
  sq_Url :: string
  sq_Body :: "string option"
  sq_Header :: header_map
  sq_Timeout :: int

text \<open>
  \<open>hx_Range\<close> is the order in which a range visits a map; \<open>hx_New\<close> the error of \<open>http.NewRequest\<close> for a method
  and an address.
\<close>

record http_env =
  hx_Range :: "header_map \<Rightarrow> header_map"
  hx_New :: "string \<Rightarrow> string \<Rightarrow> go_error option"
  hx_Do :: "sent_request \<Rightarrow> (bytes \<times> go_error option) go_result"

text \<open>
  \<open>Header.Set\<close> stores under the canonical form of the key: the first letter and each letter after a hyphen
  in upper case, the others in lower case; a key with a byte that no header name has stays as it is.
\<close>

definition header_byte :: "char \<Rightarrow> bool" where
  "header_byte c \<longleftrightarrow>
     (let n = of_char c :: nat
      in (97 \<le> n \<and> n \<le> 122) \<or> (65 \<le> n \<and> n \<le> 90) \<or> (48 \<le> n \<and> n \<le> 57) \<or> c \<in> set ''!#$%&*+-.^_|~'' \<or> n = 39 \<or> n = 96)"

fun canonical_case :: "bool \<Rightarrow> string \<Rightarrow> string" where
  "canonical_case up [] = []"
| "canonical_case up (c # s) = (if up then ascii_upper c else ascii_lower c) # canonical_case (c = CHR ''-'') s"

definition CanonicalHeaderKey :: "string \<Rightarrow> string" where
  "CanonicalHeaderKey k = (if list_all header_byte k then canonical_case True k else k)"

definition header_Set :: "string \<Rightarrow> string \<Rightarrow> header_map \<Rightarrow> header_map" where
  "header_Set k v h = AList.update (CanonicalHeaderKey k) v h"

definition Client_Request :: "http_env \<Rightarrow> request_Client \<Rightarrow> bytes \<times> go_error option" where
  "Client_Request env c =
     (case hx_New env (rc_Method c) (rc_Url c) of
        Some e \<Rightarrow> ([], Some e)
      | None \<Rightarrow>
          (case hx_Do env
             \<lparr>sq_Method = (if rc_Method c = [] then ''GET'' else rc_Method c), sq_Url = rc_Url c,
              sq_Body = (if rc_Data c \<noteq> [] then Some (rc_Data c) else None),
              sq_Header = fold (\<lambda>(k, v). header_Set k v) (hx_Range env (rc_Headers c)) [],
              sq_Timeout = rc_Timeout c\<rparr> of
             Inl e \<Rightarrow> ([], Some e)
           | Inr (body, err) \<Rightarrow> (body, err)))"

definition isBodyMethod :: "request_Client \<Rightarrow> bool" where
  "isBodyMethod c \<longleftrightarrow> strings_Contains ''POST,PUT,PATCH'' (rc_Method c)"

text \<open>The default for a header that the map does not have, or has with an empty value; the client keeps it.\<close>

definition default_type :: "string \<Rightarrow> request_Client \<Rightarrow> request_Client" where
  "default_type v c =
     (if isBodyMethod c \<and> (map_of (rc_Headers c) ''Content-Type'' = None \<or> map_of (rc_Headers c) ''Content-Type'' = Some [])
      then c\<lparr>rc_Headers := AList.update ''Content-Type'' v (rc_Headers c)\<rparr> else c)"

definition JsonRequest :: "http_env \<Rightarrow> request_Client \<Rightarrow> (bytes \<times> go_error option) \<times> request_Client" where
  "JsonRequest env c = (let c1 = default_type ''application/json'' c in (Client_Request env c1, c1))"

definition TextRequest :: "http_env \<Rightarrow> request_Client \<Rightarrow> (string \<times> go_error option) \<times> request_Client" where
  "TextRequest env c =
     (let c1 = default_type ''application/x-www-form-urlencoded'' c in (Client_Request env c1, c1))"

subsection \<open>Methods\<close>

definition request_Get :: "http_env \<Rightarrow> string \<Rightarrow> header_map \<Rightarrow> bytes \<times> go_error option" where
  "request_Get env url headers = Client_Request env \<lparr>rc_Method = ''GET'', rc_Url = url, rc_Data = [], rc_Headers = headers, rc_Timeout = 0\<rparr>"

definition TextGet :: "http_env \<Rightarrow> string \<Rightarrow> header_map \<Rightarrow> string \<times> go_error option" where
  "TextGet env url headers = fst (TextRequest env \<lparr>rc_Method = ''GET'', rc_Url = url, rc_Data = [], rc_Headers = headers, rc_Timeout = 0\<rparr>)"

definition TimingGet :: "http_env \<Rightarrow> string \<Rightarrow> header_map \<Rightarrow> int \<Rightarrow> string" where
  "TimingGet env url headers timeout =
     (case fst (TextRequest env \<lparr>rc_Method = ''GET'', rc_Url = url, rc_Data = [], rc_Headers = headers, rc_Timeout = wrap64 (timeout * 1000000000)\<rparr>) of
        (res, None) \<Rightarrow> res
      | (_, Some _) \<Rightarrow> [])"

definition request_Post :: "http_env \<Rightarrow> string \<Rightarrow> string \<Rightarrow> header_map \<Rightarrow> bytes \<times> go_error option" where
  "request_Post env url query headers = Client_Request env \<lparr>rc_Method = ''POST'', rc_Url = url, rc_Data = query, rc_Headers = headers, rc_Timeout = 0\<rparr>"

definition JsonPost :: "('q \<Rightarrow> bytes go_result) \<Rightarrow> http_env \<Rightarrow> string \<Rightarrow> 'q \<Rightarrow> header_map \<Rightarrow> bytes \<times> go_error option" where
  "JsonPost json_Marshal env url query headers =
     (case json_Marshal query of
        Inl e \<Rightarrow> ([], Some e)
      | Inr data \<Rightarrow> fst (JsonRequest env \<lparr>rc_Method = ''POST'', rc_Url = url, rc_Data = data, rc_Headers = headers, rc_Timeout = 0\<rparr>))"

definition TextPost :: "http_env \<Rightarrow> string \<Rightarrow> string \<Rightarrow> header_map \<Rightarrow> string \<times> go_error option" where
  "TextPost env url query headers = fst (TextRequest env \<lparr>rc_Method = ''POST'', rc_Url = url, rc_Data = query, rc_Headers = headers, rc_Timeout = 0\<rparr>)"

definition request_Put :: "http_env \<Rightarrow> string \<Rightarrow> string \<Rightarrow> header_map \<Rightarrow> bytes \<times> go_error option" where
  "request_Put env url query headers = Client_Request env \<lparr>rc_Method = ''PUT'', rc_Url = url, rc_Data = query, rc_Headers = headers, rc_Timeout = 0\<rparr>"

definition JsonPut :: "('q \<Rightarrow> bytes go_result) \<Rightarrow> http_env \<Rightarrow> string \<Rightarrow> 'q \<Rightarrow> header_map \<Rightarrow> bytes \<times> go_error option" where
  "JsonPut json_Marshal env url query headers =
     (case json_Marshal query of
        Inl e \<Rightarrow> ([], Some e)
      | Inr data \<Rightarrow> fst (JsonRequest env \<lparr>rc_Method = ''PUT'', rc_Url = url, rc_Data = data, rc_Headers = headers, rc_Timeout = 0\<rparr>))"

definition request_Patch :: "http_env \<Rightarrow> string \<Rightarrow> string \<Rightarrow> header_map \<Rightarrow> bytes \<times> go_error option" where
  "request_Patch env url query headers = Client_Request env \<lparr>rc_Method = ''PATCH'', rc_Url = url, rc_Data = query, rc_Headers = headers, rc_Timeout = 0\<rparr>"

definition JsonPatch :: "('q \<Rightarrow> bytes go_result) \<Rightarrow> http_env \<Rightarrow> string \<Rightarrow> 'q \<Rightarrow> header_map \<Rightarrow> bytes \<times> go_error option" where
  "JsonPatch json_Marshal env url query headers =
     (case json_Marshal query of
        Inl e \<Rightarrow> ([], Some e)
      | Inr data \<Rightarrow> fst (JsonRequest env \<lparr>rc_Method = ''PATCH'', rc_Url = url, rc_Data = data, rc_Headers = headers, rc_Timeout = 0\<rparr>))"

definition request_Delete :: "http_env \<Rightarrow> string \<Rightarrow> header_map \<Rightarrow> bytes \<times> go_error option" where
  "request_Delete env url headers = Client_Request env \<lparr>rc_Method = ''DELETE'', rc_Url = url, rc_Data = [], rc_Headers = headers, rc_Timeout = 0\<rparr>"

definition JsonDelete :: "http_env \<Rightarrow> string \<Rightarrow> header_map \<Rightarrow> bytes \<times> go_error option" where
  "JsonDelete env url headers = fst (JsonRequest env \<lparr>rc_Method = ''DELETE'', rc_Url = url, rc_Data = [], rc_Headers = headers, rc_Timeout = 0\<rparr>)"

subsection \<open>Downloads\<close>

text \<open>A reader is what can be read from it and the error it ends with. \<open>temp\<close> is the name of a new file.\<close>

type_synonym reader = "bytes \<times> go_error option"

definition SaveStream :: "(fs \<Rightarrow> string go_result) \<Rightarrow> reader \<Rightarrow> string \<Rightarrow> fs \<Rightarrow> (string \<times> go_error option) \<times> fs" where
  "SaveStream temp reader target f =
     (case (if target \<noteq> [] then (case os_OpenWrite True target 438 f of (Inl e, f1) \<Rightarrow> (Inl e, f1) | (Inr q, f1) \<Rightarrow> (Inr (q, target), f1))
            else case temp f of
                   Inl e \<Rightarrow> (Inl e, f)
                 | Inr p \<Rightarrow> (case os_CreateNew p 384 f of (Inl e, f1) \<Rightarrow> (Inl e, f1) | (Inr q, f1) \<Rightarrow> (Inr (q, q), f1))) of
        (Inl e, f1) \<Rightarrow> (([], Some e), f1)
      | (Inr (q, name), f1) \<Rightarrow>
          (case file_Write q (fst reader) f1 of
             (Inl e, f2) \<Rightarrow> (([], Some e), f2)
           | (Inr _, f2) \<Rightarrow> (case snd reader of Some e \<Rightarrow> (([], Some e), f2) | None \<Rightarrow> ((name, None), f2))))"

text \<open>\<open>http_Get\<close> answers the body and the content encoding; \<open>gunzip\<close> is \<open>gzip.NewReader\<close>.\<close>

definition request_Download :: "(string \<Rightarrow> (reader \<times> string) go_result) \<Rightarrow> (reader \<Rightarrow> reader go_result) \<Rightarrow> (fs \<Rightarrow> string go_result)
    \<Rightarrow> string \<Rightarrow> string \<Rightarrow> bool \<Rightarrow> fs \<Rightarrow> (string \<times> go_error option) \<times> fs" where
  "request_Download http_Get gunzip temp url target isGzip f =
     (case http_Get url of
        Inl e \<Rightarrow> (([], Some e), f)
      | Inr (body, encoding) \<Rightarrow>
          if isGzip \<or> encoding = ''gzip''
          then (case gunzip body of Inl e \<Rightarrow> (([], Some e), f) | Inr r \<Rightarrow> SaveStream temp r target f)
          else SaveStream temp body target f)"

subsection \<open>Lemmas\<close>

text \<open>
  The default content type is for the three methods with a body, and for every other substring of their list:
  the empty method, which is sent as GET, is one.
\<close>

lemma body_methods:
  "list_all (\<lambda>m. isBodyMethod (c\<lparr>rc_Method := m\<rparr>)) [''POST'', ''PUT'', ''PATCH'', [], ''P'', ''OS'']"
  "\<not> list_ex (\<lambda>m. isBodyMethod (c\<lparr>rc_Method := m\<rparr>)) [''GET'', ''DELETE'', ''HEAD'', ''OPTIONS'', ''post'']"
  by (simp_all add: isBodyMethod_def)

text \<open>
  A content type that the caller gave in lower case is not seen: the default is added beside it, and the one
  that is visited last is sent.
\<close>

lemma lower_case_type_overridden:
  assumes "rc_Headers c = [(''content-type'', ''text/plain'')]" and "rc_Method c = ''POST''" and "hx_Range env = (\<lambda>h. h)"
  shows "fold (\<lambda>(k, v). header_Set k v) (hx_Range env (rc_Headers (default_type ''application/json'' c))) [] = [(''Content-Type'', ''application/json'')]"
    and "fold (\<lambda>(k, v). header_Set k v) (rev (rc_Headers (default_type ''application/json'' c))) [] = [(''Content-Type'', ''text/plain'')]"
proof -
  have "isBodyMethod c" using assms(2) by (simp add: isBodyMethod_def)
  with assms have d: "rc_Headers (default_type ''application/json'' c) = [(''content-type'', ''text/plain''), (''Content-Type'', ''application/json'')]"
    by (simp add: default_type_def)
  have k: "CanonicalHeaderKey ''content-type'' = ''Content-Type''" "CanonicalHeaderKey ''Content-Type'' = ''Content-Type''" by code_simp+
  show "fold (\<lambda>(k, v). header_Set k v) (hx_Range env (rc_Headers (default_type ''application/json'' c))) [] = [(''Content-Type'', ''application/json'')]"
    "fold (\<lambda>(k, v). header_Set k v) (rev (rc_Headers (default_type ''application/json'' c))) [] = [(''Content-Type'', ''text/plain'')]"
    using assms(3) by (simp_all add: d header_Set_def k)
qed

text \<open>A stream that breaks off leaves the part that was read in the target file.\<close>

lemma SaveStream_partial:
  assumes "faults f = (\<lambda>_. None)" "node_at f p = Some (RegFile c m)" "p \<noteq> []"
  shows "\<exists>f'. SaveStream temp (part, Some e) p f = (([], Some e), f') \<and> node_at f' p = Some (RegFile part m)"
proof -
  have "snd (path_key p) \<noteq> []" using assms(2) by (auto simp: node_at_def node_of_def)
  with assms show ?thesis by (simp add: SaveStream_def os_OpenWrite_def file_Write_def node_at_def node_of_put)
qed

end
