(* ===== verification/Upgrade_Run.thy ===== *)
theory Upgrade_Run
  imports Upgrade Request Go_Tree
begin

text \<open>
  A whole update, from the question to the server to the new binary in place: \<open>ApplyUpdate\<close> (src/upgrade/upgrade.go)
  with the request package (src/request) for the question and for the download, over one file system. What comes
  from outside is one record.
\<close>

record upgrade_env =
  ue_query :: "string \<Rightarrow> (string \<times> string) list \<Rightarrow> string go_result"
  ue_os :: string
  ue_arch :: string
  ue_http :: http_env
  ue_json :: "bytes \<Rightarrow> UpdateInfo option go_result"
  ue_fetch :: "string \<Rightarrow> (reader \<times> string) go_result"
  ue_gunzip :: "reader \<Rightarrow> reader go_result"
  ue_temp :: "fs \<Rightarrow> string go_result"
  ue_sha :: "bytes \<Rightarrow> bytes"
  ue_exe :: "string go_result"

text \<open>The two results of a Go function as one, and the two functions of the request package that are called.\<close>

definition check_get :: "upgrade_env \<Rightarrow> string \<Rightarrow> bytes go_result" where
  "check_get env url = (case request_Get (ue_http env) url [] of (body, None) \<Rightarrow> Inr body | (_, Some e) \<Rightarrow> Inl e)"

definition download_get :: "upgrade_env \<Rightarrow> string \<Rightarrow> string \<Rightarrow> bool \<Rightarrow> string os" where
  "download_get env url target gz f =
     (case request_Download (ue_fetch env) (ue_gunzip env) (ue_temp env) url target gz f of
        ((p, None), f1) \<Rightarrow> (Inr p, f1) | ((_, Some e), f1) \<Rightarrow> (Inl e, f1))"

definition check_update :: "upgrade_env \<Rightarrow> UpdateParam \<Rightarrow> UpdateInfo go_result" where
  "check_update env param = CheckUpdate (ue_query env) (ue_os env) (ue_arch env) (check_get env) (ue_json env) param"

definition run_upgrade :: "upgrade_env \<Rightarrow> UpdateParam \<Rightarrow> fs \<Rightarrow> upgrade_error option \<times> fs" where
  "run_upgrade env param =
     ApplyUpdate (Updater_Check (ue_query env) (ue_os env) (ue_arch env) (check_get env) (ue_json env))
       (ue_sha env) (ue_exe env) (defaultDownloadHandler (download_get env)) param"

subsection \<open>The pieces\<close>

text \<open>The files beside the program: their names differ from the program's after the last slash only.\<close>

lemma path_key_sibling:
  assumes "elem_ok x" "x \<noteq> ''..''"
  shows "path_key (d @ slash # x) = (fst (path_key (d @ [slash])), snd (path_key (d @ [slash])) @ [x])"
proof -
  have "path_elems (strings_Join [slash] [x]) = [x]" by (rule path_elems_Join) (simp add: assms)
  then have x: "path_elems x = [x]" by simp
  have nil: "path_elems [] = []" by (simp add: path_elems_def)
  have "filepath_IsAbs (d @ slash # x) = filepath_IsAbs (d @ [slash])" by (cases d) (simp_all add: filepath_IsAbs_def)
  then show ?thesis
    unfolding path_key_def path_elems_slash [of d x] path_elems_slash [of d "[]"] x nil using assms(2) by simp
qed

lemma leaf_tree:
  assumes "tree_ok f" "snd k \<noteq> []" "\<nexists>m. node_of f k = Some (Directory m)"
  shows "leaf f k"
proof (rule leafI [OF assms(2)], rule ccontr)
  fix k' assume b: "below k k'" "k' \<noteq> k" "node_of f k' \<noteq> None"
  from b(1) obtain r es es' where k: "k = (r, es)" "k' = (r, es @ es')" by (rule below_append)
  with b(2,3) show False using tree_ok_ancestor [OF assms(1), of r es es'] assms(3) by auto
qed

lemma siblings_leaves:
  assumes "tree_ok f" "distinct xs" "\<And>x. x \<in> set xs \<Longrightarrow> \<nexists>m. node_of f (r, es @ [x]) = Some (Directory m)"
  shows "leaves f (map (\<lambda>x. (r, es @ [x])) xs)"
proof -
  have "distinct (map (\<lambda>x. (r, es @ [x])) xs)" using assms(2) by (simp add: distinct_map inj_on_def)
  then show ?thesis using assms(1,3) leaf_tree by (auto simp: leaves_def apart_def)
qed

text \<open>A download makes the file it is asked for.\<close>

lemma download_new:
  assumes "faults f = (\<lambda>_. None)" "node_at f n = None" "node_of f (parent (path_key n)) = Some (Directory d)"
    and "ue_fetch env url = Inr (body, enc)" "ue_gunzip env body = Inr (data, None)"
  obtains f1 where "download_get env url n True f = (Inr n, f1)" "faults f1 = faults f"
    "\<And>k. node_of f1 k = (if k = path_key n then Some (RegFile data 438) else node_of f k)"
proof -
  let ?f1 = "put_node (path_key n) (RegFile data 438) (put_node (path_key n) (RegFile [] 438) f)"
  have n: "n \<noteq> []" "snd (path_key n) \<noteq> []"
    using node_at_ne(3) [OF assms(2)] assms(2) by (auto simp: node_at_def node_of_def)
  then have "download_get env url n True f = (Inr n, ?f1)"
    using assms by (simp add: download_get_def request_Download_def SaveStream_def os_OpenWrite_def file_Write_def node_at_put)
  then show thesis using n(2) by (intro that [of ?f1]) (simp_all add: node_of_put)
qed

text \<open>The description that was checked is applied; when the check fails nothing is touched.\<close>

lemma run_upgrade_info:
  "check_update env param = Inr info \<Longrightarrow>
     run_upgrade env param f = apply_info (ue_sha env) (ue_exe env) (defaultDownloadHandler (download_get env))
       (NewUpdater (pa_Server param) (pa_Version param)) info f"
  by (simp add: run_upgrade_def check_update_def ApplyUpdate_def CheckUpdate_def Updater_Apply_def)

lemma run_upgrade_unchecked:
  "check_update env param = Inl e \<Longrightarrow> snd (run_upgrade env param f) = f \<and> fst (run_upgrade env param f) \<noteq> None"
  by (simp add: run_upgrade_def check_update_def ApplyUpdate_def CheckUpdate_def Updater_Apply_def)

subsection \<open>From the server to the disk\<close>

text \<open>The version that names a file: the default when there is none.\<close>

definition version_or :: "string \<Rightarrow> string \<Rightarrow> string" where
  "version_or dflt v = (if v = [] then dflt else v)"

lemma apply_run:
  assumes "check_update env param = Inr info" "prefix ''https://'' (ui_Package info)" "ue_exe env = Inr t"
    and "parseChecksum (ui_Checksum info) = Inr cs" "faults f = (\<lambda>_. None)" "node_at f t = Some (RegFile old m)"
    and n: "n = t @ ''-'' @ version_or ''new'' (ui_Version info) @ ''.tmp''"
    and run: "download_get env (ui_Package info) n True f = (Inr n, f1)"
  shows "run_upgrade env param f =
     (case verifyChecksum (ue_sha env) f1 n cs of
        Some e \<Rightarrow> (Some (Plain e), f1)
      | None \<Rightarrow> commitBinary (ue_sha env) n t (m mod 512) (version_or ''old'' (pa_Version param)) f1)"
proof -
  have stat: "os_Stat f t = Inr (RegFile old m)" using assms(5,6) by (simp add: os_Stat_def)
  have cs: "(if ui_Checksum info \<noteq> [] then parseChecksum (ui_Checksum info) else Inr []) = Inr cs"
    using assms(4) by (auto simp: parseChecksum_def)
  have init: "BinaryUpdater_Init (ue_exe env) f
      \<lparr>bu_NewVersion = ui_Version info, bu_OldVersion = pa_Version param, bu_TargetPath = [], bu_TargetMode = 0,
        bu_NewBinary = [], bu_Checksum = cs\<rparr> =
    Inr \<lparr>bu_NewVersion = version_or ''new'' (ui_Version info), bu_OldVersion = version_or ''old'' (pa_Version param),
      bu_TargetPath = t, bu_TargetMode = m mod 512, bu_NewBinary = n, bu_Checksum = cs\<rparr>"
    using stat assms(3) n by (simp add: BinaryUpdater_Init_def Let_def version_or_def)
  have "defaultDownloadHandler (download_get env) (ui_Package info) n f = (Inr n, f1)" "n \<noteq> []"
    using run n by (simp_all add: defaultDownloadHandler_def)
  with init cs assms(2) show ?thesis
    unfolding run_upgrade_info [OF assms(1)] apply_info_def
    by (simp add: NewUpdater_def Let_def VerifyChecksum_def CommitBinary_def split: option.split)
qed

text \<open>The program, the file it is downloaded to and the backup are three files of one directory.\<close>

lemma upgrade_paths:
  assumes "tree_ok f" "t = d @ slash # name" "elem_ok name" "name \<noteq> ''..''" "slash \<notin> set (v @ old)"
    and "n = t @ ''-'' @ version_or ''new'' v @ ''.tmp''" "b = t @ ''-'' @ version_or ''old'' old" "n \<noteq> b"
    and "\<And>x m. x \<in> {n, t, b} \<Longrightarrow> node_at f x \<noteq> Some (Directory m)"
  shows "leaves f [path_key n, path_key t, path_key b] \<and> (\<forall>x\<in>{n, t, b}. parent (path_key x) = path_key (d @ [slash]))"
proof -
  define K where "K x = (fst (path_key (d @ [slash])), snd (path_key (d @ [slash])) @ [x])" for x
  let ?nn = "name @ ''-'' @ version_or ''new'' v @ ''.tmp''" and ?bn = "name @ ''-'' @ version_or ''old'' old"
  have el: "elem_ok (name @ ''-'' @ x) \<and> name @ ''-'' @ x \<noteq> ''..''" if "slash \<notin> set x" for x
  proof -
    have "name @ ''-'' @ x \<noteq> ''.'' \<and> name @ ''-'' @ x \<noteq> ''..''"
      using assms(3) by (cases name; cases "tl name") (auto simp: elem_ok_def)
    then show ?thesis using that assms(3) by (simp add: elem_ok_def)
  qed
  have key: "path_key t = K name" "path_key n = K ?nn" "path_key b = K ?bn"
    using path_key_sibling [OF assms(3,4), of d] path_key_sibling [of ?nn d] path_key_sibling [of ?bn d]
      el [of "version_or ''new'' v @ ''.tmp''"] el [of "version_or ''old'' old"] assms(2,5-7)
    by (auto simp: K_def version_or_def)
  have dist: "distinct [?nn, name, ?bn]" using assms(2,6-8) by auto
  have "node_of f (K x) \<noteq> Some (Directory m)" if "x \<in> {?nn, name, ?bn}" for x m
    using that assms(9) [of n m] assms(9) [of t m] assms(9) [of b m] by (auto simp: node_at_def key)
  then have "leaves f (map K [?nn, name, ?bn])"
    unfolding K_def by (intro siblings_leaves [OF assms(1) dist]) auto
  then show ?thesis by (auto simp: key K_def)
qed

text \<open>
  C13. A whole update does what it is for. The program is a plain file in a directory, the server's description
  passes the check and names an https package with a readable checksum (or none), the package downloads and is
  unpacked, and no system call fails. When the checksum is that of the unpacked package, or there is none, the
  program's file holds the package, with the permissions it had, and nothing else has changed: the file it was
  downloaded to and the backup are gone. Otherwise the update fails with that error and the program is as it was.
\<close>

theorem run_upgrade_end_to_end:
  assumes "tree_ok f" "faults f = (\<lambda>_. None)" "check_update env param = Inr info" "prefix ''https://'' (ui_Package info)"
    and "parseChecksum (ui_Checksum info) = Inr cs"
    and "ue_exe env = Inr t" "t = d @ slash # name" "elem_ok name" "name \<noteq> ''..''" "slash \<notin> set (ui_Version info @ pa_Version param)"
    and "n = t @ ''-'' @ version_or ''new'' (ui_Version info) @ ''.tmp''" "b = t @ ''-'' @ version_or ''old'' (pa_Version param)" "n \<noteq> b"
    and "node_at f t = Some (RegFile old m)" "node_at f n = None"
    and "node_at f b = None \<or> (\<exists>c' m'. node_at f b = Some (RegFile c' m'))"
    and "ue_fetch env (ui_Package info) = Inr (body, enc)" "ue_gunzip env body = Inr (data, None)"
    and ok: "ok \<longleftrightarrow> cs = [] \<or> cs = ue_sha env data"
  shows "\<exists>f'. run_upgrade env param f = (if ok then None else Some (Plain (Errorf ''updated file has wrong checksum'')), f')
    \<and> node_at f' t = Some (if ok then RegFile data (m mod 512) else RegFile old m)
    \<and> node_at f' n = (if ok then None else Some (RegFile data 438))
    \<and> node_at f' b = (if ok then None else node_at f b) \<and> rest_kept f f' n t b"
proof -
  have paths: "leaves f [path_key n, path_key t, path_key b] \<and> (\<forall>x\<in>{n, t, b}. parent (path_key x) = path_key (d @ [slash]))"
    by (rule upgrade_paths [OF assms(1,7-13)]) (use assms(14-16) in auto)
  then have lv: "leaves f [path_key n, path_key t, path_key b]" ..
  have par: "parent (path_key x) = path_key (d @ [slash])" if "x \<in> {n, t, b}" for x using paths that by blast
  obtain dm where D: "node_of f (path_key (d @ [slash])) = Some (Directory dm)"
    using tree_ok_parent [OF assms(1), of "path_key t"] assms(14) par [of t] path_key_sibling [OF assms(8,9), of d] assms(7)
    by (auto simp: node_at_def)
  obtain f1 where dl: "download_get env (ui_Package info) n True f = (Inr n, f1)" "faults f1 = (\<lambda>_. None)"
    and f1: "\<And>k. node_of f1 k = (if k = path_key n then Some (RegFile data 438) else node_of f k)"
    using download_new [OF assms(2,15) _ assms(17,18)] par [of n] D assms(2) by auto
  have apart: "path_key t \<noteq> path_key n" "path_key b \<noteq> path_key n" using lv by (auto simp: leaves_def apart_def)
  then have at: "node_at f1 n = Some (RegFile data 438)" "node_at f1 t = Some (RegFile old m)" "node_at f1 b = node_at f b"
    using f1 assms(14) by (auto simp: node_at_def)
  have bin: "binaries f1 n t b" unfolding binaries_def by (rule leaves_keep [OF lv]) (use f1 in auto)
  have rest: "rest_kept f f1 n t b" by (rule rest_keptI) (use f1 in auto)
  have read: "os_ReadFile f1 n = Inr data" using dl(2) at(1) by (simp add: os_ReadFile_def os_Open_def)
  note run = apply_run [OF assms(3,4,6,5,2,14,11) dl(1)]
  show ?thesis
  proof (cases ok)
    case True
    then have "verifyChecksum (ue_sha env) f1 n cs = None" using ok read by (auto simp: verifyChecksum_def)
    moreover have "node_of f1 (path_key (d @ [slash])) = Some (Directory dm)" using f1 D assms(15) by (auto simp: node_at_def)
    then have "\<exists>f'. commitBinary (ue_sha env) n t (m mod 512) (version_or ''old'' (pa_Version param)) f1 = (None, f')
      \<and> node_at f' t = Some (RegFile data (m mod 512)) \<and> node_at f' n = None \<and> node_at f' b = None \<and> rest_kept f1 f' n t b"
      using at(3) assms(16) par [of t] par [of b] unfolding assms(12)
      by (intro commit_installs [OF bin [unfolded assms(12)] at(1,2) dl(2)]) simp_all
    ultimately show ?thesis using run rest_kept_trans [OF rest] True by auto
  next
    case False
    then have "verifyChecksum (ue_sha env) f1 n cs = Some (Errorf ''updated file has wrong checksum'')"
      using ok read by (auto simp: verifyChecksum_def)
    then show ?thesis using run rest at False by auto
  qed
qed

text \<open>A server that answers with one description, whose package unpacks to three bytes and has a readable checksum.\<close>

definition demo_run_info :: UpdateInfo where
  "demo_run_info = \<lparr>ui_Error = [], ui_Version = ''2'', ui_Package = ''https://x/p.gz'', ui_Checksum = ''6E6577'' @ replicate 58 (CHR ''0'')\<rparr>"

definition demo_run_env :: upgrade_env where
  "demo_run_env = \<lparr>ue_query = (\<lambda>url q. Inr url), ue_os = ''linux'', ue_arch = ''amd64'',
     ue_http = \<lparr>hx_Range = (\<lambda>h. h), hx_New = (\<lambda>m u. None), hx_Do = (\<lambda>q. Inr (''{}'', None))\<rparr>,
     ue_json = (\<lambda>_. Inr (Some demo_run_info)), ue_fetch = (\<lambda>u. Inr ((''packed'', None), [])),
     ue_gunzip = (\<lambda>r. Inr (''new'', None)), ue_temp = (\<lambda>f. Inl ErrExist),
     ue_sha = (\<lambda>d. d @ replicate (32 - length d) (CHR 0x00)), ue_exe = Inr ''/a''\<rparr>"

definition demo_run_fs :: fs where
  "demo_run_fs = put_node (True, [''a'']) (RegFile ''old'' 493) empty_fs"

theorem run_upgrade_end_to_end_witness:
  "\<exists>f'. run_upgrade demo_run_env \<lparr>pa_Server = ''https://x'', pa_Version = ''1''\<rparr> demo_run_fs = (None, f')
    \<and> node_at f' ''/a'' = Some (RegFile ''new'' 493) \<and> node_at f' ''/a-2.tmp'' = None \<and> node_at f' ''/a-1'' = None"
proof -
  have keys: "path_key ''/a'' = (True, [''a''])" "path_key ''/a-2.tmp'' = (True, [''a-2.tmp''])" "path_key ''/a-1'' = (True, [''a-1''])"
    by code_simp+
  have nd: "node_at demo_run_fs ''/a'' = Some (RegFile ''old'' 493)" "node_at demo_run_fs ''/a-2.tmp'' = None"
    "node_at demo_run_fs ''/a-1'' = None" "faults demo_run_fs = (\<lambda>_. None)"
    by (simp_all add: demo_run_fs_def node_at_def node_of_put keys) (simp_all add: node_of_def empty_fs_def)
  have tree: "tree_ok demo_run_fs"
    by (simp add: tree_ok_def demo_run_fs_def put_node_def empty_fs_def node_of_def)
  have check: "check_update demo_run_env \<lparr>pa_Server = ''https://x'', pa_Version = ''1''\<rparr> = Inr demo_run_info"
    by (simp add: check_update_def CheckUpdate_def Updater_Check_def buildUpdateURL_def NewUpdater_def check_get_def
        request_Get_def Client_Request_def demo_run_env_def demo_run_info_def)
  have cs: "parseChecksum (ui_Checksum demo_run_info) = Inr (ue_sha demo_run_env ''new'')"
    by code_simp
  from run_upgrade_end_to_end [OF tree nd(4) check _ cs, of "''/a''" "[]" "''a''" "''/a-2.tmp''" "''/a-1''" "''old''" 493
      "(''packed'', None)" "[]" "''new''" True]
  show ?thesis
    by (simp add: demo_run_info_def demo_run_env_def nd elem_ok_def version_or_def) blast
qed

end
