(* ===== verification/Command.thy ===== *)
theory Command
  imports Go_OS
begin

text \<open>
  Running scripts and commands (src/command/exec.go and src/command/shell.go) over the file system of
  \<open>Go_OS\<close>. The operating system's name, the search path, the environment variables, the names that
  \<open>os.CreateTemp\<close> picks and what a started process does are the environment.
\<close>

subsection \<open>Words of a command line\<close>

text \<open>\<open>strings.Fields\<close>: the words between the white space of Unicode.\<close>

definition space_at :: "string \<Rightarrow> bool" where
  "space_at s \<longleftrightarrow> list_ex (strings_HasPrefix s) utf8_spaces"

fun split_word :: "string \<Rightarrow> string \<times> string" where
  "split_word [] = ([], [])"
| "split_word (c # s) = (if space_at (c # s) then ([], c # s) else (case split_word s of (a, b) \<Rightarrow> (c # a, b)))"

lemma split_word_append: "fst (split_word s) @ snd (split_word s) = s"
  by (induction s) (auto split: prod.splits)

lemma trim_words_length: "length (trim_words ws s) \<le> length s"
proof (induction ws s rule: trim_words.induct)
  case (1 ws s)
  show ?case
  proof (cases "find (\<lambda>w. w \<noteq> [] \<and> strings_HasPrefix s w) ws")
    case (Some w)
    from 1 [OF Some] have "length (trim_words ws (drop (length w) s)) \<le> length s" by simp
    with Some show ?thesis by (simp add: trim_words.simps [of ws s])
  qed (simp add: trim_words.simps [of ws s])
qed

lemma split_word_less: "split_word (trim_words utf8_spaces s) = (w, r) \<Longrightarrow> w \<noteq> [] \<Longrightarrow> length r < length s"
proof -
  assume r: "split_word (trim_words utf8_spaces s) = (w, r)" and "w \<noteq> []"
  then have "length r < length (w @ r)" by simp
  also have "\<dots> = length (trim_words utf8_spaces s)" using split_word_append [of "trim_words utf8_spaces s"] r by simp
  finally show ?thesis using trim_words_length [of utf8_spaces s] by simp
qed

function strings_Fields :: "string \<Rightarrow> string list" where
  "strings_Fields s =
     (case split_word (trim_words utf8_spaces s) of (w, r) \<Rightarrow> if w = [] then [] else w # strings_Fields r)"
  by pat_completeness auto
termination
  by (relation "measure length") (auto dest: split_word_less [OF sym])

declare strings_Fields.simps [simp del]

subsection \<open>The environment\<close>

record exec_Cmd =
  cmd_Path :: string
  cmd_Args :: "string list"
  cmd_Dir :: string
  cmd_Env :: "string list"

text \<open>
  \<open>cx_TempName\<close> is the name of a new file whose pattern ends in a given extension; \<open>cx_run\<close> is what a process
  does: its output, its error and its changes to the files; it is given the time it may take.
\<close>

record cmd_env =
  cx_GOOS :: string
  cx_LookPath :: "string \<Rightarrow> bool"
  cx_Environ :: "string list"
  cx_TempName :: "fs \<Rightarrow> string \<Rightarrow> string go_result"
  cx_run :: "exec_Cmd \<Rightarrow> int option \<Rightarrow> fs \<Rightarrow> (string \<times> go_error option) \<times> fs"

record ScriptPayload =
  sc_ScriptType :: string
  sc_WorkDir :: string
  sc_Content :: string
  sc_Timeout :: nat

subsection \<open>Shells\<close>

definition AllowedShells :: "string list" where
  "AllowedShells = [''bash'', ''sh'', ''zsh'', ''powershell'', ''pwsh'', ''cmd'']"

definition DefaultShell :: "cmd_env \<Rightarrow> string" where
  "DefaultShell env =
     (let candidates =
            (if cx_GOOS env = ''windows'' then [''powershell'', ''pwsh'', ''cmd'']
             else if cx_GOOS env = ''darwin'' then [''zsh'', ''bash'', ''sh'']
             else [''bash'', ''sh'', ''zsh''])
      in case find (cx_LookPath env) candidates of Some fb \<Rightarrow> fb | None \<Rightarrow> ''sh'')"

definition GetShell :: "cmd_env \<Rightarrow> string \<Rightarrow> string" where
  "GetShell env shell =
     (if shell \<notin> set AllowedShells then DefaultShell env
      else if cx_LookPath env shell then shell
      else DefaultShell env)"

subsection \<open>Temporary scripts\<close>

definition fixLineEnding :: "cmd_env \<Rightarrow> string \<Rightarrow> string" where
  "fixLineEnding env code =
     (let win = (cx_GOOS env = ''windows'')
      in if strings_Contains code [cr, nl] then if win then code else strings_ReplaceAll code [cr, nl] [nl]
         else if strings_Contains code [nl] then if \<not> win then code else strings_ReplaceAll code [nl] [cr, nl]
         else if strings_Contains code [cr]
              then if \<not> win then strings_ReplaceAll code [cr] [nl] else strings_ReplaceAll code [cr] [cr, nl]
         else code)"

text \<open>\<open>os.CreateTemp\<close> makes an empty file of mode 0600 under a name that is not in use.\<close>

definition os_CreateTemp :: "cmd_env \<Rightarrow> string \<Rightarrow> string os" where
  "os_CreateTemp env ext f =
     (case cx_TempName env f ext of
        Inl e \<Rightarrow> (Inl e, f)
      | Inr p \<Rightarrow> os_CreateNew p 384 f)"

definition createTempScript :: "cmd_env \<Rightarrow> string \<Rightarrow> string \<Rightarrow> string os" where
  "createTempScript env code ext f =
     (case os_CreateTemp env ext f of
        (Inl e, f1) \<Rightarrow> (Inl (Wrapf ''create temp file'' e), f1)
      | (Inr p, f1) \<Rightarrow>
          (case file_Write p (fixLineEnding env code) f1 of
             (Inl e, f2) \<Rightarrow> (Inl (Wrapf ''write temp file'' e), f2)
           | (Inr _, f2) \<Rightarrow> (Inr p, if cx_GOOS env \<noteq> ''windows'' then snd (os_Chmod p 493 f2) else f2)))"

subsection \<open>Commands\<close>

fun quoteArgs :: "string list \<Rightarrow> string" where
  "quoteArgs arg =
     strings_Join '' '' (map (\<lambda>a. if strings_ContainsAny a [CHR 0x20, CHR 0x09] then [CHR 0x22] @ a @ [CHR 0x22] else a) arg)"

definition NewCommand :: "cmd_env \<Rightarrow> string \<Rightarrow> string list \<Rightarrow> string \<Rightarrow> exec_Cmd" where
  "NewCommand env bin arg workDir =
     (if cx_GOOS env = ''windows''
      then \<lparr>cmd_Path = ''cmd'',
            cmd_Args = [''/C'', ''chcp 65001 >nul && '' @ (if arg \<noteq> [] then bin @ '' '' @ quoteArgs arg else bin)],
            cmd_Dir = workDir, cmd_Env = cx_Environ env @ [''TERM=dumb'']\<rparr>
      else if cx_GOOS env = ''darwin''
      then \<lparr>cmd_Path = bin, cmd_Args = arg, cmd_Dir = workDir,
            cmd_Env = [''TERM=xterm-256color'', ''CLICOLOR=1''] @ cx_Environ env\<rparr>
      else \<lparr>cmd_Path = bin, cmd_Args = arg, cmd_Dir = workDir, cmd_Env = [''TERM=xterm-256color''] @ cx_Environ env\<rparr>)"

text \<open>The timeout is a number of seconds below \<open>2 ^ 64\<close>; as nanoseconds of a \<open>time.Duration\<close> it wraps.\<close>

definition RunCommand :: "cmd_env \<Rightarrow> string \<Rightarrow> string list \<Rightarrow> string \<Rightarrow> nat \<Rightarrow> fs \<Rightarrow> (string \<times> go_error option) \<times> fs" where
  "RunCommand env bin arg workDir timeout f =
     cx_run env (NewCommand env bin arg workDir)
       (if timeout > 0 then Some (wrap64 (wrap64 (int timeout) * 1000000000)) else None) f"

text \<open>The switch of \<open>RunScript\<close>: the temporary file (\<open>''-''\<close> when there is none), the program and its arguments.\<close>

definition script_command :: "cmd_env \<Rightarrow> ScriptPayload \<Rightarrow> (string \<times> string \<times> string list) os" where
  "script_command env data f =
     (let with_temp = (\<lambda>ext k. case createTempScript env (sc_Content data) ext f of
                                  (Inl e, f1) \<Rightarrow> (Inl e, f1)
                                | (Inr tmp, f1) \<Rightarrow> (Inr (k tmp), f1))
      in if sc_ScriptType data = ''BAT''
         then with_temp ''.bat'' (\<lambda>tmp. (tmp, GetShell env ''cmd'', [''/c'', ''CALL'', tmp]))
         else if sc_ScriptType data = ''POWERSHELL''
         then with_temp ''.ps1'' (\<lambda>tmp. (tmp, GetShell env ''powershell'', [''-File'', tmp]))
         else if sc_ScriptType data = ''SHELL''
         then if strings_HasPrefix (sc_Content data) ''#!/'' then with_temp [] (\<lambda>tmp. (tmp, tmp, []))
              else (Inr (''-'', DefaultShell env, [''-c'', sc_Content data]), f)
         else if sc_ScriptType data = ''EXEC''
         then (case strings_Fields (sc_Content data) of
                 [] \<Rightarrow> (Inl (Panic ''index out of range''), f)
               | bin # arg \<Rightarrow> (Inr (''-'', bin, arg), f))
         else (Inl (Errorf (''unsupported script type: '' @ sc_ScriptType data)), f))"

definition RunScript :: "cmd_env \<Rightarrow> ScriptPayload \<Rightarrow> fs \<Rightarrow> (string \<times> go_error option) \<times> fs" where
  "RunScript env data f =
     (case script_command env data f of
        (Inl e, f1) \<Rightarrow> (([], Some e), f1)
      | (Inr (tmp, bin, arg), f1) \<Rightarrow>
          if tmp = [] then (([], None), f1)
          else let workDir = (if sc_WorkDir data = [] then filepath_Dir bin else sc_WorkDir data)
               in case RunCommand env bin arg workDir (sc_Timeout data) f1 of
                    (r, f2) \<Rightarrow> (r, if tmp \<noteq> ''-'' then snd (os_Remove tmp f2) else f2))"

subsection \<open>Lemmas: a script leaves nothing behind\<close>

lemma createTempScript_ok:
  assumes "faults f = (\<lambda>_. None)" "cx_TempName env f ext = Inr p" "node_at f p = None"
    "node_of f (parent (path_key p)) = Some (Directory d)"
  obtains f1 where "createTempScript env code ext f = (Inr p, f1)"
    "node_at f1 p = Some (RegFile (fixLineEnding env code) (if cx_GOOS env = ''windows'' then 384 else 493))"
    "\<forall>k. k \<noteq> path_key p \<longrightarrow> node_of f1 k = node_of f k" "faults f1 = faults f"
proof -
  let ?k = "path_key p" and ?c = "fixLineEnding env code"
  have k: "snd ?k \<noteq> []" using assms(3) by (auto simp: node_at_def node_of_def)
  let ?f2 = "put_node ?k (RegFile ?c 384) (put_node ?k (RegFile [] 384) f)"
  let ?f1 = "if cx_GOOS env = ''windows'' then ?f2 else put_node ?k (RegFile ?c 493) ?f2"
  have n2: "node_at ?f2 p = Some (RegFile ?c 384)" using k by (simp add: node_at_def node_of_put)
  then have "follow (Suc max_links) ?f2 p = Inr p" by simp
  with n2 assms(1) have "os_Chmod p 493 ?f2 = (Inr (), put_node ?k (RegFile ?c 493) ?f2)"
    by (simp add: os_Chmod_def)
  with assms k have "createTempScript env code ext f = (Inr p, ?f1)"
    by (simp add: createTempScript_def os_CreateTemp_def os_CreateNew_def put_new_def file_Write_def node_at_def node_of_put)
  then show thesis by (rule that) (use k in \<open>simp_all add: node_at_def node_of_put\<close>)
qed

lemma node_of_Remove:
  assumes "faults f = (\<lambda>_. None)" "node_at f p = Some (RegFile c m)"
  shows "node_of (snd (os_Remove p f)) k = (if k = path_key p then None else node_of f k)"
proof -
  have "snd (path_key p) \<noteq> []" using assms(2) by (auto simp: node_at_def node_of_def)
  then show ?thesis using assms by (auto simp: os_Remove_def node_of_def AList.delete_conv')
qed

subsection \<open>Lemmas: line endings\<close>

lemma ReplaceAll_skip:
  "old \<noteq> [] \<Longrightarrow> hd old \<notin> set x \<Longrightarrow> strings_ReplaceAll (x @ s) old new = x @ strings_ReplaceAll s old new"
  by (induction x) (auto simp: strings_HasPrefix_def neq_Nil_conv)

lemma ReplaceAll_hit: "old \<noteq> [] \<Longrightarrow> strings_ReplaceAll (old @ s) old new = new @ strings_ReplaceAll s old new"
  by (cases old) (auto simp: strings_HasPrefix_def)

lemma ReplaceAll_Join:
  "old \<noteq> [] \<Longrightarrow> \<forall>l\<in>set ls. hd old \<notin> set l \<Longrightarrow> strings_ReplaceAll (strings_Join old ls) old new = strings_Join new ls"
proof (induction old ls rule: strings_Join.induct)
  case (2 sep x)
  then show ?case using ReplaceAll_skip [of sep x "[]" new] by simp
next
  case (3 sep x y ys)
  then show ?case by (simp add: ReplaceAll_skip ReplaceAll_hit)
qed simp

text \<open>The line ending of the system, and scripts whose lines are separated in one of the three usual ways.\<close>

definition line_ending :: "cmd_env \<Rightarrow> string" where
  "line_ending env = (if cx_GOOS env = ''windows'' then [cr, nl] else [nl])"

lemma fixLineEnding_lines:
  assumes sep: "sep \<in> {[cr, nl], [nl], [cr]}" and ls: "\<forall>l\<in>set ls. cr \<notin> set l \<and> nl \<notin> set l"
  shows "fixLineEnding env (strings_Join sep ls) = strings_Join (line_ending env) ls"
proof (cases "(sep, ls)" rule: strings_Join.cases)
  case (3 sep' x y ys)
  let ?s = "strings_Join sep ls"
  have "?s = x @ sep @ strings_Join sep (y # ys)" using 3 by simp
  then have has: "strings_Contains ?s sep" "set sep \<subseteq> set ?s" unfolding Contains_iff by auto
  have sub: "set ?s \<subseteq> set sep \<union> (\<Union>l\<in>set ls. set l)" by (rule set_Join)
  have no: "\<not> strings_Contains ?s [cr, nl]" if "cr \<notin> set ?s \<or> nl \<notin> set ?s"
    using that unfolding Contains_iff by (metis Un_iff list.set_intros(1,2) set_append)
  have all: "strings_ReplaceAll ?s sep new = strings_Join new ls" for new
    using sep ls by (intro ReplaceAll_Join) auto
  have chars: "cr \<noteq> nl" by simp
  from sep consider "sep = [cr, nl]" | "sep = [nl]" | "sep = [cr]" by blast
  then show ?thesis
  proof cases
    case 1
    then show ?thesis using has(1) all by (simp add: fixLineEnding_def line_ending_def Let_def)
  next
    case 2
    have "cr \<notin> set ?s" using sub ls 2 chars by auto
    then show ?thesis using has(2) no all 2 by (simp add: fixLineEnding_def line_ending_def Let_def)
  next
    case 3
    have "nl \<notin> set ?s" using sub ls 3 chars by auto
    then show ?thesis using has(2) no all 3 by (simp add: fixLineEnding_def line_ending_def Let_def)
  qed
qed (use ls in \<open>auto simp: fixLineEnding_def Let_def Contains_iff\<close>)

text \<open>The script types that need a file: its extension, the program, and the arguments, for a file name.\<close>

fun script_file :: "cmd_env \<Rightarrow> ScriptPayload \<Rightarrow> string \<Rightarrow> (string \<times> string \<times> string list) option" where
  "script_file env data p =
     (if sc_ScriptType data = ''BAT'' then Some (''.bat'', GetShell env ''cmd'', [''/c'', ''CALL'', p])
      else if sc_ScriptType data = ''POWERSHELL'' then Some (''.ps1'', GetShell env ''powershell'', [''-File'', p])
      else if sc_ScriptType data = ''SHELL'' \<and> strings_HasPrefix (sc_Content data) ''#!/'' then Some ([], p, [])
      else None)"

text \<open>The process that a script starts: how it is called, where, with which variables, and its time in nanoseconds.\<close>

definition starts :: "cmd_env \<Rightarrow> ScriptPayload \<Rightarrow> string \<Rightarrow> string list \<Rightarrow> exec_Cmd \<Rightarrow> int option \<Rightarrow> bool" where
  "starts env data bin arg cmd deadline \<longleftrightarrow>
     (cx_GOOS env \<noteq> ''windows'' \<longrightarrow> cmd_Path cmd = bin \<and> cmd_Args cmd = arg)
     \<and> (cx_GOOS env = ''windows'' \<longrightarrow> cmd_Path cmd = ''cmd'' \<and> cmd_Args cmd =
          [''/C'', ''chcp 65001 >nul && '' @ bin @ (if arg = [] then [] else '' '' @ quoteArgs arg)])
     \<and> cmd_Dir cmd = (if sc_WorkDir data = [] then filepath_Dir bin else sc_WorkDir data)
     \<and> set (cx_Environ env) \<subseteq> set (cmd_Env cmd)
     \<and> deadline = (if sc_Timeout data = 0 then None else Some (int (sc_Timeout data) * 1000000000))"

lemma RunCommand_starts:
  assumes "int (sc_Timeout data) * 1000000000 < 2 ^ 63"
  obtains cmd deadline where "starts env data bin arg cmd deadline"
    "RunCommand env bin arg (if sc_WorkDir data = [] then filepath_Dir bin else sc_WorkDir data) (sc_Timeout data) f = cx_run env cmd deadline f"
proof -
  let ?t = "int (sc_Timeout data)"
  have "wrap64 (wrap64 ?t * 1000000000) = ?t * 1000000000" using assms
    by (simp add: wrap64_id in_int64_def min_int64_def max_int64_def)
  then show thesis
    by (intro that [of "NewCommand env bin arg (if sc_WorkDir data = [] then filepath_Dir bin else sc_WorkDir data)"
          "if sc_Timeout data = 0 then None else Some (?t * 1000000000)"])
       (auto simp: starts_def RunCommand_def NewCommand_def)
qed

text \<open>
  C36. A script that needs a file, when no system call fails: its lines, separated by CRLF, LF or CR throughout, are
  written to a new file, in a directory that is there, with the line ending of the system and the mode to run it; the program is started (on
  Windows through \<open>cmd\<close> with its arguments quoted) in the given directory or in the program's own, with the
  variables of the environment and at most the given time, below 9223372036 seconds; the file system it sees differs
  from the one before in this file only; its output and error are returned, and the file is removed again: a program
  that changes no file leaves none behind.
\<close>

theorem RunScript_temp_file:
  assumes "faults f = (\<lambda>_. None)" and "script_file env data p = Some (ext, bin, arg)"
    and "cx_TempName env f ext = Inr p" and "node_at f p = None" and "p \<noteq> ''-''" and "p \<noteq> []"
    and "node_of f (parent (path_key p)) = Some (Directory d)"
    and "sc_Content data = strings_Join sep ls" and "sep \<in> {[cr, nl], [nl], [cr]}" and "\<forall>l\<in>set ls. cr \<notin> set l \<and> nl \<notin> set l"
    and "int (sc_Timeout data) * 1000000000 < 2 ^ 63"
  shows "\<exists>f1 cmd deadline r f2.
      node_at f1 p = Some (RegFile (strings_Join (if cx_GOOS env = ''windows'' then [cr, nl] else [nl]) ls)
        (if cx_GOOS env = ''windows'' then 384 else 493))
    \<and> (\<forall>k. k \<noteq> path_key p \<longrightarrow> node_of f1 k = node_of f k)
    \<and> starts env data bin arg cmd deadline \<and> cx_run env cmd deadline f1 = (r, f2)
    \<and> RunScript env data f = (r, snd (os_Remove p f2))
    \<and> (f2 = f1 \<longrightarrow> (\<forall>k. node_of (snd (RunScript env data f)) k = node_of f k))"
proof -
  obtain f1 where f1: "createTempScript env (sc_Content data) ext f = (Inr p, f1)"
    "node_at f1 p = Some (RegFile (fixLineEnding env (sc_Content data)) (if cx_GOOS env = ''windows'' then 384 else 493))"
    "\<forall>k. k \<noteq> path_key p \<longrightarrow> node_of f1 k = node_of f k" "faults f1 = faults f"
    using createTempScript_ok [OF assms(1,3,4,7)] by metis
  have n: "node_at f1 p = Some (RegFile (strings_Join (if cx_GOOS env = ''windows'' then [cr, nl] else [nl]) ls)
      (if cx_GOOS env = ''windows'' then 384 else 493))"
    using f1(2) fixLineEnding_lines [OF assms(9,10), of env] assms(8) by (simp add: line_ending_def)
  obtain cmd deadline where cmd: "starts env data bin arg cmd deadline"
    "RunCommand env bin arg (if sc_WorkDir data = [] then filepath_Dir bin else sc_WorkDir data) (sc_Timeout data) f1 = cx_run env cmd deadline f1"
    by (rule RunCommand_starts [OF assms(11)])
  obtain r f2 where run: "cx_run env cmd deadline f1 = (r, f2)" by fastforce
  have "script_command env data f = (Inr (p, bin, arg), f1)"
    using assms(2) f1(1) by (auto simp: script_command_def Let_def split: if_splits)
  then have script: "RunScript env data f = (r, snd (os_Remove p f2))"
    using assms(5,6) cmd(2) run by (simp add: RunScript_def)
  have "node_of f (path_key p) = None" using assms(4) by (simp add: node_at_def)
  moreover have "k \<noteq> path_key p \<Longrightarrow> node_of f1 k = node_of f k" for k using f1(3) by blast
  ultimately have "node_of (snd (RunScript env data f)) k = node_of f k" if "f2 = f1" for k
    using that script node_of_Remove [OF _ n, of k] f1(4) assms(1) by (cases "k = path_key p") simp_all
  then show ?thesis using n f1(3) cmd(1) run script by blast
qed

definition demo_cmd_env :: cmd_env where
  "demo_cmd_env = \<lparr>cx_GOOS = ''linux'', cx_LookPath = (\<lambda>_. True), cx_Environ = [''A=b''], cx_TempName = (\<lambda>_ ext. Inr (''/tmp-1'' @ ext)),
     cx_run = (\<lambda>cmd d f. (case node_at f (cmd_Path cmd) of Some (RegFile c m) \<Rightarrow> (c, None) | _ \<Rightarrow> ([], Some ErrNotExist), f))\<rparr>"

definition demo_script :: ScriptPayload where
  "demo_script = \<lparr>sc_ScriptType = ''SHELL'', sc_WorkDir = [], sc_Content = ''#!/x'' @ [cr, nl], sc_Timeout = 0\<rparr>"

theorem RunScript_temp_file_witness:
  "\<exists>f'. RunScript demo_cmd_env demo_script empty_fs = ((''#!/x'' @ [nl], None), f') \<and> (\<forall>k. node_of f' k = node_of empty_fs k)"
proof -
  have key: "path_key ''/tmp-1'' = (True, [''tmp-1''])" by code_simp
  have "\<exists>f1 cmd deadline r f2.
      node_at f1 ''/tmp-1'' = Some (RegFile (strings_Join (if cx_GOOS demo_cmd_env = ''windows'' then [cr, nl] else [nl]) [''#!/x'', []])
        (if cx_GOOS demo_cmd_env = ''windows'' then 384 else 493))
    \<and> (\<forall>k. k \<noteq> path_key ''/tmp-1'' \<longrightarrow> node_of f1 k = node_of empty_fs k)
    \<and> starts demo_cmd_env demo_script ''/tmp-1'' [] cmd deadline \<and> cx_run demo_cmd_env cmd deadline f1 = (r, f2)
    \<and> RunScript demo_cmd_env demo_script empty_fs = (r, snd (os_Remove ''/tmp-1'' f2))
    \<and> (f2 = f1 \<longrightarrow> (\<forall>k. node_of (snd (RunScript demo_cmd_env demo_script empty_fs)) k = node_of empty_fs k))"
    by (rule RunScript_temp_file [where ext = "[]" and sep = "[cr, nl]"])
      (simp_all add: empty_fs_def demo_cmd_env_def demo_script_def node_at_def node_of_def key)
  moreover have c: "strings_Join (if cx_GOOS demo_cmd_env = ''windows'' then [cr, nl] else [nl]) [''#!/x'', []] = ''#!/x'' @ [nl]"
    and g: "(if cx_GOOS demo_cmd_env = ''windows'' then 384 else 493) = (493 :: nat)"
    by (simp_all add: demo_cmd_env_def)
  ultimately obtain f1 cmd deadline r f2 where n: "node_at f1 ''/tmp-1'' = Some (RegFile (''#!/x'' @ [nl]) 493)"
    and run: "starts demo_cmd_env demo_script ''/tmp-1'' [] cmd deadline" "cx_run demo_cmd_env cmd deadline f1 = (r, f2)"
    and rs: "RunScript demo_cmd_env demo_script empty_fs = (r, snd (os_Remove ''/tmp-1'' f2))"
    and same: "f2 = f1 \<longrightarrow> (\<forall>k. node_of (snd (RunScript demo_cmd_env demo_script empty_fs)) k = node_of empty_fs k)"
    unfolding c g by blast
  from run n have "r = (''#!/x'' @ [nl], None)" "f2 = f1" by (simp_all add: starts_def demo_cmd_env_def)
  with rs same show ?thesis by auto
qed

text \<open>
  What the code does not handle: an \<open>EXEC\<close> script of white space panics, two argument lists have the same
  quoted form, and a timeout of more than 9223372036 seconds is a negative duration.
\<close>

lemma exec_blank_panics: "fst (script_command env \<lparr>sc_ScriptType = ''EXEC'', sc_WorkDir = [], sc_Content = '' '', sc_Timeout = n\<rparr> f) = Inl (Panic ''index out of range'')"
proof -
  have "strings_Fields '' '' = []" by code_simp
  then show ?thesis by (simp add: script_command_def)
qed

lemma quoteArgs_ambiguous: "quoteArgs [''a b''] = quoteArgs [CHR 0x22 # ''a'', ''b'' @ [CHR 0x22]]"
  by code_simp

lemma timeout_wraps: "wrap64 (wrap64 (int 9223372037) * 1000000000) < 0"
  by (simp add: wrap64_def)

end
