(* ===== verification/Go_Time.thy ===== *)
theory Go_Time
  imports Go_Prelude
begin

text \<open>
  The part of package \<open>time\<close> the sources use: the proleptic Gregorian calendar on day numbers,
  \<open>Format("2006-01-02")\<close>, \<open>In\<close>, \<open>Date\<close> and \<open>AddDate(0, 0, n)\<close> over a location given by its offset
  from UTC at every instant. The main facts are that day numbers and valid dates are in order
  isomorphism and that the formatted dates of the years 0 to 9999 compare as strings the way the
  dates do.
\<close>

subsection \<open>The calendar\<close>

datatype date = Date (date_year: int) (date_month: int) (date_day: int)

instantiation date :: linorder
begin

definition less_eq_date :: "date \<Rightarrow> date \<Rightarrow> bool" where
  "less_eq_date a b \<longleftrightarrow> date_year a < date_year b \<or> date_year a = date_year b \<and>
     (date_month a < date_month b \<or> date_month a = date_month b \<and> date_day a \<le> date_day b)"

definition less_date :: "date \<Rightarrow> date \<Rightarrow> bool" where
  "less_date a b \<longleftrightarrow> date_year a < date_year b \<or> date_year a = date_year b \<and>
     (date_month a < date_month b \<or> date_month a = date_month b \<and> date_day a < date_day b)"

instance
  by standard (auto simp: less_eq_date_def less_date_def intro: date.expand)

end

definition is_leap :: "int \<Rightarrow> bool" where
  "is_leap y \<longleftrightarrow> y mod 4 = 0 \<and> (y mod 100 \<noteq> 0 \<or> y mod 400 = 0)"

text \<open>Days from 0001-01-01 to the first day of year \<open>y\<close>.\<close>

definition days_before_year :: "int \<Rightarrow> int" where
  "days_before_year y = 365 * (y - 1) + (y - 1) div 4 - (y - 1) div 100 + (y - 1) div 400"

definition month_lengths :: "int \<Rightarrow> int list" where
  "month_lengths y = [31, if is_leap y then 29 else 28, 31, 30, 31, 30, 31, 31, 30, 31, 30, 31]"

lemma div_pred: "0 < k \<Longrightarrow> y div k = (y - 1) div k + (if y mod k = 0 then 1 else 0)" for y k :: int
proof -
  assume k: "0 < k"
  have y: "y = k * (y div k) + y mod k" by simp
  show ?thesis
  proof (cases "y mod k = 0")
    case True
    with y have "y - 1 = k * (y div k - 1) + (k - 1)" by (simp add: algebra_simps)
    with k have "(y - 1) div k = y div k - 1"
      by (intro int_div_pos_eq [of _ _ _ "k - 1"]) auto
    with True show ?thesis by simp
  next
    case False
    moreover have "0 \<le> y mod k" "y mod k < k" using k by simp_all
    moreover have "y - 1 = k * (y div k) + (y mod k - 1)" using y by simp
    ultimately have "(y - 1) div k = y div k"
      by (intro int_div_pos_eq [of _ _ _ "y mod k - 1"]) auto
    with False show ?thesis by simp
  qed
qed

lemma mod_400: "y mod 400 = 0 \<Longrightarrow> y mod 100 = 0" and mod_100: "y mod 100 = 0 \<Longrightarrow> y mod 4 = 0" for y :: int
  using mod_mod_cancel [of 100 400 y] mod_mod_cancel [of 4 100 y] by simp_all

lemma days_before_next_year:
  "days_before_year (y + 1) = days_before_year y + (if is_leap y then 366 else 365)"
proof -
  let ?i = "\<lambda>k. if y mod k = 0 then 1 else 0 :: int"
  have sum: "365 * y + A - B + C = 365 * (y - 1) + a - b + c + (365 + u - v + w)"
    if "A = a + u" "B = b + v" "C = c + w" for A B C a b c u v w :: int
    using that by simp
  have leap: "365 + (if a then 1 else 0) - (if b then 1 else 0) + (if c then 1 else 0)
      = (if a \<and> (\<not> b \<or> c) then 366 else 365 :: int)" if "c \<longrightarrow> b" "b \<longrightarrow> a" for a b c
    using that by (cases a; cases b; cases c) simp_all
  have "days_before_year (y + 1) = 365 * y + y div 4 - y div 100 + y div 400"
    unfolding days_before_year_def by (simp only: add_diff_cancel_right')
  also have "\<dots> = days_before_year y + (365 + ?i 4 - ?i 100 + ?i 400)"
    unfolding days_before_year_def by (rule sum; rule div_pred) simp_all
  also have "365 + ?i 4 - ?i 100 + ?i 400 = (if is_leap y then 366 else 365)"
    unfolding is_leap_def by (rule leap; rule impI; erule mod_400 mod_100)
  finally show ?thesis .
qed

lemma days_before_year_less: "days_before_year y < days_before_year (y + 1)"
  by (simp add: days_before_next_year)

function year_from :: "int \<Rightarrow> int \<Rightarrow> int" where
  "year_from n y = (if days_before_year (y + 1) \<le> n then year_from n (y + 1) else y)"
  by pat_completeness auto
termination
proof (relation "measure (\<lambda>(n, y). nat (n + 1 - days_before_year y))")
  show "wf (measure (\<lambda>(n, y). nat (n + 1 - days_before_year y)))" by simp
next
  fix n y :: int
  assume "days_before_year (y + 1) \<le> n"
  with days_before_year_less [of y]
  show "((n, y + 1), n, y) \<in> measure (\<lambda>(n, y). nat (n + 1 - days_before_year y))" by simp
qed

declare year_from.simps [simp del]

definition year_of_day :: "int \<Rightarrow> int" where
  "year_of_day n = year_from n ((if 0 \<le> n then n div 366 else n div 365) + 1)"

fun split_month :: "int \<Rightarrow> int list \<Rightarrow> int \<Rightarrow> int \<times> int" where
  "split_month m [] r = (m, r + 1)"
| "split_month m (l # ls) r = (if r < l \<or> ls = [] then (m, r + 1) else split_month (m + 1) ls (r - l))"

text \<open>The Unix epoch is day 719162 of the calendar.\<close>

definition epoch_day :: int where
  "epoch_day = 719162"

text \<open>The date of a Unix day number (seconds since the epoch divided by 86400).\<close>

definition date_of_day :: "int \<Rightarrow> date" where
  "date_of_day u =
     (let n = u + epoch_day; y = year_of_day n;
          (m, d) = split_month 1 (month_lengths y) (n - days_before_year y)
      in Date y m d)"

definition day_of_date :: "date \<Rightarrow> int" where
  "day_of_date a =
     days_before_year (date_year a) + sum_list (take (nat (date_month a - 1)) (month_lengths (date_year a)))
       + date_day a - 1 - epoch_day"

definition valid_date :: "date \<Rightarrow> bool" where
  "valid_date a \<longleftrightarrow> 1 \<le> date_month a \<and> date_month a \<le> 12 \<and> 1 \<le> date_day a
     \<and> date_day a \<le> month_lengths (date_year a) ! nat (date_month a - 1)"

lemma year_from_bounds:
  "days_before_year y \<le> n \<Longrightarrow>
     days_before_year (year_from n y) \<le> n \<and> n < days_before_year (year_from n y + 1)"
proof (induction n y rule: year_from.induct)
  case (1 n y)
  then show ?case
    by (cases "days_before_year (y + 1) \<le> n") (auto simp: year_from.simps [of n y])
qed

lemma year_of_day_start:
  "days_before_year ((if 0 \<le> n then n div 366 else n div 365) + 1) \<le> n"
proof (cases "0 \<le> n")
  case True
  have "q div 4 - q div 100 + q div 400 \<le> q" if "0 \<le> q" for q :: int
    using zdiv_mono2 [of q 100 400] zdiv_mono2 [of q 1 4] that by simp
  from this [of "n div 366"] have "days_before_year (n div 366 + 1) \<le> 366 * (n div 366)"
    using True by (simp add: days_before_year_def pos_imp_zdiv_nonneg_iff)
  with True show ?thesis by simp
next
  case False
  have "q div 4 - q div 100 + q div 400 \<le> 0" if "q < 0" for q :: int
    using zdiv_mono2_neg [of q 4 100] neg_imp_zdiv_neg_iff [of 400 q] that by simp
  moreover have "n div 365 < 0" using False by simp
  ultimately have "days_before_year (n div 365 + 1) \<le> 365 * (n div 365)"
    by (simp add: days_before_year_def)
  with False show ?thesis by simp
qed

lemma year_of_day_bounds:
  "days_before_year (year_of_day n) \<le> n \<and> n < days_before_year (year_of_day n + 1)"
  unfolding year_of_day_def by (rule year_from_bounds [OF year_of_day_start])

lemma days_before_year_strict: "y < z \<Longrightarrow> days_before_year (y + 1) \<le> days_before_year z"
proof (induction "nat (z - y)" arbitrary: z)
  case 0
  then show ?case by simp
next
  case (Suc k)
  show ?case
  proof (cases "z = y + 1")
    case False
    with Suc have "days_before_year (y + 1) \<le> days_before_year (z - 1)" by simp
    with days_before_year_less [of "z - 1"] show ?thesis by simp
  qed simp
qed

lemma split_month_spec:
  assumes "split_month m ls r = (m', d)" and "0 \<le> r" and "r < sum_list ls"
  shows "m \<le> m' \<and> m' < m + int (length ls) \<and> 1 \<le> d \<and> d \<le> ls ! nat (m' - m)
    \<and> sum_list (take (nat (m' - m)) ls) + d - 1 = r"
  using assms
proof (induction m ls r rule: split_month.induct)
  case (2 m l ls r)
  show ?case
  proof (cases "r < l \<or> ls = []")
    case True
    with 2 show ?thesis by auto
  next
    case False
    with 2 have IH: "m + 1 \<le> m' \<and> m' < m + 1 + int (length ls) \<and> 1 \<le> d \<and> d \<le> ls ! nat (m' - (m + 1))
        \<and> sum_list (take (nat (m' - (m + 1))) ls) + d - 1 = r - l"
      by simp
    then have "nat (m' - m) = Suc (nat (m' - (m + 1)))" by linarith
    with IH show ?thesis by simp
  qed
qed simp

lemma month_lengths_sum: "sum_list (month_lengths y) = (if is_leap y then 366 else 365)"
  by (simp add: month_lengths_def)

lemma date_of_day_props: "valid_date (date_of_day u) \<and> day_of_date (date_of_day u) = u"
proof -
  let ?n = "u + epoch_day"
  let ?y = "year_of_day ?n"
  obtain m d where md: "split_month 1 (month_lengths ?y) (?n - days_before_year ?y) = (m, d)"
    by fastforce
  have "0 \<le> ?n - days_before_year ?y" "?n - days_before_year ?y < sum_list (month_lengths ?y)"
    using year_of_day_bounds [of ?n] by (auto simp: month_lengths_sum days_before_next_year)
  note split_month_spec [OF md this]
  moreover have "date_of_day u = Date ?y m d" using md by (simp add: date_of_day_def Let_def)
  moreover have "length (month_lengths ?y) = 12" by (simp add: month_lengths_def)
  ultimately show ?thesis by (auto simp: valid_date_def day_of_date_def)
qed

lemma day_of_date_of_day [simp]: "day_of_date (date_of_day u) = u"
  and valid_date_of_day [simp]: "valid_date (date_of_day u)"
  using date_of_day_props by auto

lemma take_split_nth:
  assumes "i < j" "j \<le> length L"
  shows "take j L = take i L @ L ! i # take (j - Suc i) (drop (Suc i) L)"
proof -
  have "take j L = take i L @ take (j - i) (drop i L)"
    using assms take_add [of i "j - i" L] by simp
  moreover have "drop i L = L ! i # drop (Suc i) L"
    using assms by (simp add: Cons_nth_drop_Suc)
  moreover have "j - i = Suc (j - Suc i)" using assms by simp
  ultimately show ?thesis by simp
qed

lemma month_sums_mono:
  assumes "1 \<le> m" "m < m'" "m' \<le> 12" "1 \<le> d" "d \<le> month_lengths y ! nat (m - 1)"
  shows "sum_list (take (nat (m - 1)) (month_lengths y)) + d \<le> sum_list (take (nat (m' - 1)) (month_lengths y))"
proof -
  let ?L = "month_lengths y" and ?i = "nat (m - 1)" and ?j = "nat (m' - 1)"
  have ij: "Suc ?i \<le> ?j" "?j \<le> 11" and len: "length ?L = 12"
    using assms by (auto simp: month_lengths_def)
  have "take ?j ?L = take ?i ?L @ ?L ! ?i # take (?j - Suc ?i) (drop (Suc ?i) ?L)"
    using ij len by (intro take_split_nth) auto
  moreover have "0 \<le> sum_list (take (?j - Suc ?i) (drop (Suc ?i) ?L))"
    by (rule sum_list_nonneg) (auto simp: month_lengths_def dest!: in_set_takeD in_set_dropD split: if_splits)
  ultimately show ?thesis using assms by simp
qed

lemma day_of_date_less:
  assumes "valid_date a" "valid_date b" "a < b"
  shows "day_of_date a < day_of_date b"
proof (cases "date_year a = date_year b")
  case True
  show ?thesis
  proof (cases "date_month a = date_month b")
    case False
    with True assms have "date_month a < date_month b" by (auto simp: less_date_def)
    with assms True month_sums_mono [of "date_month a" "date_month b" "date_day a" "date_year a"]
    show ?thesis by (auto simp: day_of_date_def valid_date_def)
  qed (use True assms in \<open>auto simp: day_of_date_def less_date_def\<close>)
next
  case False
  with assms have "date_year a < date_year b" by (auto simp: less_date_def)
  then have "days_before_year (date_year a + 1) \<le> days_before_year (date_year b)"
    by (rule days_before_year_strict)
  moreover have "sum_list (take (nat (date_month a - 1)) (month_lengths (date_year a))) + date_day a
      \<le> sum_list (month_lengths (date_year a))"
  proof (cases "date_month a = 12")
    case True
    with assms(1) show ?thesis by (auto simp: valid_date_def month_lengths_def)
  next
    case False
    with assms(1) month_sums_mono [of "date_month a" 12 "date_day a" "date_year a"]
    show ?thesis by (auto simp: valid_date_def month_lengths_def)
  qed
  moreover have "0 \<le> sum_list (take (nat (date_month b - 1)) (month_lengths (date_year b)))"
    by (rule sum_list_nonneg) (auto simp: month_lengths_def dest!: in_set_takeD split: if_splits)
  ultimately show ?thesis using assms
    by (auto simp: day_of_date_def valid_date_def month_lengths_sum days_before_next_year)
qed

lemma date_of_day_less_iff [simp]: "date_of_day u < date_of_day v \<longleftrightarrow> u < v"
proof
  show "date_of_day u < date_of_day v \<Longrightarrow> u < v"
    using day_of_date_less [of "date_of_day u" "date_of_day v"] by simp
next
  assume "u < v"
  show "date_of_day u < date_of_day v"
  proof (rule ccontr)
    assume "\<not> ?thesis"
    then have "date_of_day v < date_of_day u \<or> date_of_day v = date_of_day u" by auto
    with day_of_date_less [of "date_of_day v" "date_of_day u"] have "v \<le> u"
      by (metis day_of_date_of_day less_imp_le order_refl valid_date_of_day)
    with \<open>u < v\<close> show False by simp
  qed
qed

subsection \<open>Formatting with the layout 2006-01-02\<close>

definition zpad :: "nat \<Rightarrow> nat \<Rightarrow> string" where
  "zpad w n = replicate (w - length (nat_digits n)) (CHR ''0'') @ nat_digits n"

definition append_int :: "nat \<Rightarrow> int \<Rightarrow> string" where
  "append_int w n = (if n < 0 then CHR ''-'' # zpad w (nat (- n)) else zpad w (nat n))"

definition format_date :: "date \<Rightarrow> string" where
  "format_date a = append_int 4 (date_year a) @ ''-'' @ append_int 2 (date_month a) @ ''-''
     @ append_int 2 (date_day a)"

lemma digits_val_Cons: "digits_val (c # ds) = digit_val c * 10 ^ length ds + digits_val ds"
proof -
  have "foldl (\<lambda>n c. 10 * n + digit_val c) a ds = a * 10 ^ length ds + digits_val ds" for a
    unfolding digits_val_def by (induction ds rule: rev_induct) (auto simp: algebra_simps)
  from this [of "digit_val c"] show ?thesis by (simp add: digits_val_def)
qed

lemma digits_val_less: "list_all is_digit ds \<Longrightarrow> digits_val ds < 10 ^ length ds"
proof (induction ds)
  case Nil
  then show ?case by (simp add: digits_val_def)
next
  case (Cons c ds)
  then have "digit_val c \<le> 9" by (auto simp: is_digit_def digit_val_def)
  then have "digit_val c * 10 ^ length ds \<le> 9 * 10 ^ length ds" by (rule mult_le_mono1)
  moreover have "digits_val ds < 10 ^ length ds" using Cons by simp
  ultimately show ?case unfolding digits_val_Cons length_Cons power_Suc by linarith
qed

lemma digit_val_less_iff: "is_digit a \<Longrightarrow> is_digit b \<Longrightarrow> digit_val a < digit_val b \<longleftrightarrow> a < b"
  by (auto simp: is_digit_def digit_val_def less_char_def)

lemma digit_val_eq_iff: "is_digit a \<Longrightarrow> is_digit b \<Longrightarrow> digit_val a = digit_val b \<longleftrightarrow> a = b"
  using digit_val_less_iff [of a b] digit_val_less_iff [of b a] by (metis less_irrefl neqE)

lemma digits_less_iff:
  assumes "list_all is_digit as" "list_all is_digit bs" "length as = length bs"
  shows "as < bs \<longleftrightarrow> digits_val as < digits_val bs"
  using assms(3,1,2)
proof (induction as bs rule: list_induct2)
  case Nil
  then show ?case by simp
next
  case (Cons a as b bs)
  let ?k = "10 ^ length bs :: nat"
  have va: "digits_val as < ?k" and vb: "digits_val bs < ?k"
    using Cons digits_val_less [of as] digits_val_less [of bs] by auto
  have "a < b \<longleftrightarrow> digit_val a < digit_val b"
    and "a = b \<longleftrightarrow> digit_val a = digit_val b"
    using Cons.prems by (simp_all add: digit_val_less_iff digit_val_eq_iff)
  moreover have "digit_val a * ?k + digits_val as < digit_val b * ?k + digits_val bs \<longleftrightarrow>
      digit_val a < digit_val b \<or> digit_val a = digit_val b \<and> digits_val as < digits_val bs"
  proof (cases "digit_val a" "digit_val b" rule: linorder_cases)
    case less
    then have "Suc (digit_val a) * ?k \<le> digit_val b * ?k" by (intro mult_le_mono1) simp
    with less va show ?thesis by simp
  next
    case greater
    then have "Suc (digit_val b) * ?k \<le> digit_val a * ?k" by (intro mult_le_mono1) simp
    with greater vb show ?thesis by simp
  qed simp
  ultimately show ?case using Cons by (simp add: digits_val_Cons)
qed

lemma append_less_append_iff:
  "length as = length bs \<Longrightarrow> as @ xs < bs @ ys \<longleftrightarrow> as < bs \<or> as = bs \<and> xs < ys"
  for as :: "'a :: linorder list"
  by (induction as bs rule: list_induct2) auto

lemma length_nat_digits_le: "n < 10 ^ w \<Longrightarrow> 0 < w \<Longrightarrow> length (nat_digits n) \<le> w"
proof (induction n arbitrary: w rule: nat_digits.induct)
  case (1 n)
  show ?case
  proof (cases "n < 10")
    case True
    with 1 show ?thesis by (subst nat_digits.simps) simp
  next
    case False
    obtain w' where w: "w = Suc w'" using 1 by (cases w) auto
    with 1 False have "n div 10 < 10 ^ w'" by (simp add: less_mult_imp_div_less mult.commute)
    moreover have "0 < w'" using 1 False w by (cases w') auto
    ultimately have "length (nat_digits (n div 10)) \<le> w'" using 1 False by simp
    with False w show ?thesis by (subst nat_digits.simps) simp
  qed
qed

lemma zpad_length: "n < 10 ^ w \<Longrightarrow> 0 < w \<Longrightarrow> length (zpad w n) = w"
  using length_nat_digits_le [of n w] by (simp add: zpad_def)

lemma zpad_digits: "list_all is_digit (zpad w n)"
  by (simp add: zpad_def list_all_iff is_digit_def)
     (use nat_digits_all_digits [of n] in \<open>auto simp: list_all_iff is_digit_def\<close>)

lemma zpad_val: "digits_val (zpad w n) = n"
proof -
  have "digits_val (replicate k (CHR ''0'') @ ds) = digits_val ds" for k ds
    by (induction k) (auto simp: digits_val_Cons digit_val_def)
  then show ?thesis by (simp add: zpad_def)
qed

lemma zpad_less_iff:
  "a < 10 ^ w \<Longrightarrow> b < 10 ^ w \<Longrightarrow> 0 < w \<Longrightarrow> zpad w a < zpad w b \<longleftrightarrow> a < b"
  by (simp add: digits_less_iff zpad_digits zpad_length zpad_val)

lemma zpad_eq_iff: "zpad w a = zpad w b \<longleftrightarrow> a = b"
  using zpad_val by metis

definition four_digit_year :: "date \<Rightarrow> bool" where
  "four_digit_year a \<longleftrightarrow> 0 \<le> date_year a \<and> date_year a \<le> 9999"

lemma valid_date_bounds: "valid_date a \<Longrightarrow> 1 \<le> date_month a \<and> date_month a \<le> 12 \<and> 1 \<le> date_day a \<and> date_day a \<le> 31"
proof -
  assume v: "valid_date a"
  then have "month_lengths (date_year a) ! nat (date_month a - 1) \<in> set (month_lengths (date_year a))"
    by (intro nth_mem) (auto simp: valid_date_def month_lengths_def)
  then have "month_lengths (date_year a) ! nat (date_month a - 1) \<le> 31"
    by (auto simp: month_lengths_def split: if_splits)
  with v show ?thesis by (auto simp: valid_date_def)
qed

lemma format_date_zpad:
  "valid_date a \<Longrightarrow> four_digit_year a \<Longrightarrow> format_date a =
     zpad 4 (nat (date_year a)) @ ''-'' @ zpad 2 (nat (date_month a)) @ ''-'' @ zpad 2 (nat (date_day a))"
  using valid_date_bounds [of a] by (simp add: format_date_def append_int_def four_digit_year_def)

lemma format_date_length: "valid_date a \<Longrightarrow> four_digit_year a \<Longrightarrow> length (format_date a) = 10"
proof -
  assume a: "valid_date a" "four_digit_year a"
  then have "nat (date_year a) < 10 ^ 4" "nat (date_month a) < 10 ^ 2" "nat (date_day a) < 10 ^ 2"
    using valid_date_bounds [of a] by (auto simp: four_digit_year_def)
  with a show ?thesis by (simp only: format_date_zpad length_append zpad_length) simp
qed

lemma format_date_less_iff:
  assumes "valid_date a" "four_digit_year a" "valid_date b" "four_digit_year b"
  shows "format_date a < format_date b \<longleftrightarrow> a < b"
proof -
  have "nat (date_year a) < 10 ^ 4" "nat (date_year b) < 10 ^ 4"
    "nat (date_month a) < 10 ^ 2" "nat (date_month b) < 10 ^ 2"
    "nat (date_day a) < 10 ^ 2" "nat (date_day b) < 10 ^ 2"
    using assms valid_date_bounds [of a] valid_date_bounds [of b] by (auto simp: four_digit_year_def)
  with assms show ?thesis using valid_date_bounds [of a] valid_date_bounds [of b]
    by (auto simp: format_date_zpad append_less_append_iff zpad_length zpad_less_iff zpad_eq_iff
        less_date_def four_digit_year_def nat_eq_iff)
qed

lemma format_date_inj:
  assumes "valid_date a" "four_digit_year a" "valid_date b" "four_digit_year b" "format_date a = format_date b"
  shows "a = b"
  using assms format_date_less_iff [of a b] format_date_less_iff [of b a] by (metis less_irrefl neqE)

subsection \<open>Instants in a location\<close>

text \<open>
  A location gives the offset from UTC, in seconds, at every instant (seconds since the epoch).
  \<open>time.Date\<close> looks the offset up at the wall-clock reading taken as if it were UTC and, when it is
  not zero, again at the instant that offset gives.
\<close>

type_synonym location = "int \<Rightarrow> int"

definition local_day :: "location \<Rightarrow> int \<Rightarrow> int" where
  "local_day loc t = (t + loc t) div 86400"

definition local_secs :: "location \<Rightarrow> int \<Rightarrow> int" where
  "local_secs loc t = (t + loc t) mod 86400"

definition time_Date :: "location \<Rightarrow> int \<Rightarrow> int \<Rightarrow> int" where
  "time_Date loc day secs =
     (let w = day * 86400 + secs; off = loc w in if off = 0 then w else w - loc (w - off))"

definition time_AddDays :: "location \<Rightarrow> int \<Rightarrow> int \<Rightarrow> int" where
  "time_AddDays loc n t = time_Date loc (local_day loc t + n) (local_secs loc t)"

definition time_Format :: "location \<Rightarrow> int \<Rightarrow> string" where
  "time_Format loc t = format_date (date_of_day (local_day loc t))"

text \<open>Midnight of a day exists in the location: no change of offset skips it.\<close>

definition has_midnight :: "location \<Rightarrow> int \<Rightarrow> bool" where
  "has_midnight loc day \<longleftrightarrow>
     local_day loc (time_Date loc day 0) = day \<and> local_secs loc (time_Date loc day 0) = 0"

lemma has_midnight_fixed: "has_midnight (\<lambda>_. off) day"
  by (simp add: has_midnight_def local_day_def local_secs_def time_Date_def Let_def)

lemma AddDays_midnight:
  "has_midnight loc day \<Longrightarrow> time_AddDays loc n (time_Date loc day 0) = time_Date loc (day + n) 0"
  by (simp add: has_midnight_def time_AddDays_def)

lemma Format_midnight:
  "has_midnight loc day \<Longrightarrow> time_Format loc (time_Date loc day 0) = format_date (date_of_day day)"
  by (simp add: has_midnight_def time_Format_def)

text \<open>The date of a moment, from its day number.\<close>

lemma date_of_dayI:
  assumes "valid_date a" "day_of_date a = u"
  shows "date_of_day u = a"
proof -
  have v: "valid_date (date_of_day u)" "day_of_date (date_of_day u) = day_of_date a"
    using date_of_day_props assms(2) by auto
  then show ?thesis
    using day_of_date_less [OF v(1) assms(1)] day_of_date_less [OF assms(1) v(1)]
    by (metis linorder_cases order_less_irrefl)
qed

lemma time_FormatI: "valid_date a \<Longrightarrow> day_of_date a = local_day loc t \<Longrightarrow> time_Format loc t = format_date a"
  by (simp add: time_Format_def date_of_dayI)

lemma demo_days:
  "0 \<le> t \<Longrightarrow> t < 86400 \<Longrightarrow> time_Format (\<lambda>_. 0) t = ''1970-01-01''"
  "86400 \<le> t \<Longrightarrow> t < 172800 \<Longrightarrow> time_Format (\<lambda>_. 0) t = ''1970-01-02''"
proof -
  have d: "valid_date (Date 1970 1 1)" "day_of_date (Date 1970 1 1) = 0"
    "valid_date (Date 1970 1 2)" "day_of_date (Date 1970 1 2) = 1"
    by (simp_all add: valid_date_def day_of_date_def epoch_day_def days_before_year_def month_lengths_def is_leap_def)
  show "time_Format (\<lambda>_. 0) t = ''1970-01-01''" if "0 \<le> t" "t < 86400"
    using time_FormatI [OF d(1), of "\<lambda>_. 0" t] d(2) that
    by (simp add: local_day_def format_date_def zpad_def append_int_def nat_digits.simps char_of_def bit_0)
  show "time_Format (\<lambda>_. 0) t = ''1970-01-02''" if "86400 \<le> t" "t < 172800"
  proof -
    have "t div 86400 = 1" using that by linarith
    then show ?thesis using time_FormatI [OF d(3), of "\<lambda>_. 0" t] d(4)
      by (simp add: local_day_def format_date_def zpad_def append_int_def nat_digits.simps char_of_def bit_0)
  qed
qed

end
