(* ===== verification/Jsonl_Store.thy ===== *)
theory Jsonl_Store
  imports Go_Time Go_Tree
begin

text \<open>
  The writer of package jsonl (src/jsonl/store.go): file naming, the options, the store with its
  open file, its \<open>bufio.Writer\<close> and its channel, and every operation on it. The state of an operation
  is the store together with the file system; \<open>now\<close> is the clock it reads. A held file handle is the
  path it was opened at. A write to the disk happens whole or not at all.
\<close>

subsection \<open>Naming and options\<close>

record Naming =
  nm_Prefix :: string
  nm_Sep :: string
  nm_Suffix :: string

definition Naming_FileName :: "Naming \<Rightarrow> string \<Rightarrow> string" where
  "Naming_FileName n date =
     (if nm_Prefix n = [] then date @ nm_Suffix n
      else nm_Prefix n @ nm_Sep n @ date @ nm_Suffix n)"

record jsonl_options =
  bufSize :: int
  asyncSize :: int
  flushInterval :: int
  opt_loc :: "location option"

type_synonym jsonl_Option = "jsonl_options \<Rightarrow> jsonl_options"

definition WithBufferSize :: "int \<Rightarrow> jsonl_Option" where
  "WithBufferSize n o' = o'\<lparr>bufSize := n\<rparr>"

definition WithAsync :: "int \<Rightarrow> jsonl_Option" where
  "WithAsync n o' = o'\<lparr>asyncSize := n\<rparr>"

definition WithFlushInterval :: "int \<Rightarrow> jsonl_Option" where
  "WithFlushInterval d o' = o'\<lparr>flushInterval := d\<rparr>"

definition WithLocation :: "location option \<Rightarrow> jsonl_Option" where
  "WithLocation l o' = o'\<lparr>opt_loc := l\<rparr>"

subsection \<open>bufio.Writer\<close>

record bufio_Writer =
  bw_file :: string
  bw_size :: nat
  bw_buf :: bytes
  bw_err :: "go_error option"

definition bufio_NewWriterSize :: "string \<Rightarrow> nat \<Rightarrow> bufio_Writer" where
  "bufio_NewWriterSize q n = \<lparr>bw_file = q, bw_size = n, bw_buf = [], bw_err = None\<rparr>"

definition bufio_Flush :: "bufio_Writer \<Rightarrow> fs \<Rightarrow> go_error option \<times> bufio_Writer \<times> fs" where
  "bufio_Flush b f =
     (case bw_err b of
        Some e \<Rightarrow> (Some e, b, f)
      | None \<Rightarrow>
          if bw_buf b = [] then (None, b, f)
          else (case file_Write (bw_file b) (bw_buf b) f of
                  (Inl e, f') \<Rightarrow> (Some e, b\<lparr>bw_err := Some e\<rparr>, f')
                | (Inr _, f') \<Rightarrow> (None, b\<lparr>bw_buf := []\<rparr>, f')))"

definition bufio_direct :: "bytes \<Rightarrow> bufio_Writer \<Rightarrow> fs \<Rightarrow> go_error option \<times> bufio_Writer \<times> fs" where
  "bufio_direct p b f =
     (case file_Write (bw_file b) p f of
        (Inl e, f') \<Rightarrow> (Some e, b\<lparr>bw_err := Some e\<rparr>, f')
      | (Inr _, f') \<Rightarrow> (None, b, f'))"

text \<open>
  \<open>Write\<close>: while the data does not fit, an empty buffer passes it through and a non-empty one is
  filled and flushed. After one flush the buffer is empty, so the loop body runs at most twice.
\<close>

definition bufio_Write :: "bytes \<Rightarrow> bufio_Writer \<Rightarrow> fs \<Rightarrow> go_error option \<times> bufio_Writer \<times> fs" where
  "bufio_Write p b f =
     (case bw_err b of
        Some e \<Rightarrow> (Some e, b, f)
      | None \<Rightarrow>
          let avail = bw_size b - length (bw_buf b)
          in if length p \<le> avail then (None, b\<lparr>bw_buf := bw_buf b @ p\<rparr>, f)
             else if bw_buf b = [] then bufio_direct p b f
             else (case bufio_Flush (b\<lparr>bw_buf := bw_buf b @ take avail p\<rparr>) f of
                     (Some e, b', f') \<Rightarrow> (Some e, b', f')
                   | (None, b', f') \<Rightarrow>
                       let p' = drop avail p
                       in if length p' \<le> bw_size b' then (None, b'\<lparr>bw_buf := p'\<rparr>, f')
                          else bufio_direct p' b' f'))"

subsection \<open>The store\<close>

record Store =
  st_dir :: string
  st_naming :: Naming
  st_opts :: jsonl_options
  st_loc :: location
  st_date :: string
  st_file :: "string option"
  st_bw :: "bufio_Writer option"
  st_ch :: "bytes list option"
  st_once :: bool
  st_stopped :: bool
  st_flusher :: bool

type_synonym store_state = "Store \<times> fs"

text \<open>\<open>New\<close>; \<open>tlocal\<close> is \<open>time.Local\<close>. The last field says whether the periodic flusher was started.\<close>

definition jsonl_New :: "location \<Rightarrow> string \<Rightarrow> Naming \<Rightarrow> jsonl_Option list \<Rightarrow> fs \<Rightarrow> Store go_result \<times> fs" where
  "jsonl_New tlocal dir naming opts f =
     (let o0 = \<lparr>bufSize = 4096, asyncSize = 0, flushInterval = 1000000000, opt_loc = Some tlocal\<rparr>;
          o1 = foldl (\<lambda>o' g. g o') o0 opts;
          l = (case opt_loc o1 of None \<Rightarrow> tlocal | Some l \<Rightarrow> l)
      in case os_MkdirAll dir 493 f of
           (Inl e, f') \<Rightarrow> (Inl (Wrapf (''jsonl: mkdir '' @ dir) e), f')
         | (Inr _, f') \<Rightarrow>
             (Inr \<lparr>st_dir = dir, st_naming = naming, st_opts = o1, st_loc = l, st_date = [],
                 st_file = None, st_bw = None,
                 st_ch = (if asyncSize o1 > 0 then Some [] else None),
                 st_once = False, st_stopped = False,
                 st_flusher = (bufSize o1 > 0 \<and> flushInterval o1 > 0 \<and> asyncSize o1 = 0)\<rparr>, f'))"

definition Store_FilePath :: "Store \<Rightarrow> string \<Rightarrow> string" where
  "Store_FilePath s date = filepath_Join [st_dir s, Naming_FileName (st_naming s) date]"

definition Store_Today :: "int \<Rightarrow> Store \<Rightarrow> string" where
  "Store_Today now s = time_Format (st_loc s) now"

definition ensureFileLocked :: "int \<Rightarrow> store_state \<Rightarrow> go_error option \<times> store_state" where
  "ensureFileLocked now sf =
     (let (s, f) = sf; today = Store_Today now s
      in if st_file s \<noteq> None \<and> st_date s = today then (None, s, f)
         else
           let f1 = (case (st_file s, st_bw s) of
                       (Some _, Some b) \<Rightarrow> snd (snd (bufio_Flush b f)) | _ \<Rightarrow> f);
               s1 = (if st_file s \<noteq> None then s\<lparr>st_file := None, st_bw := None\<rparr> else s);
               path = Store_FilePath s1 today
           in case os_OpenWrite False path 420 f1 of
                (Inl e, f2) \<Rightarrow> (Some (Wrapf (''jsonl: open '' @ path) e), s1, f2)
              | (Inr q, f2) \<Rightarrow>
                  (None,
                   s1\<lparr>st_file := Some q, st_date := today,
                      st_bw := (if bufSize (st_opts s1) > 0
                                then Some (bufio_NewWriterSize q (nat (bufSize (st_opts s1))))
                                else st_bw s1)\<rparr>, f2))"

definition writeLocked :: "int \<Rightarrow> bytes \<Rightarrow> store_state \<Rightarrow> go_error option \<times> store_state" where
  "writeLocked now line sf =
     (case ensureFileLocked now sf of
        (Some e, sf') \<Rightarrow> (Some e, sf')
      | (None, s, f) \<Rightarrow>
          (case st_bw s of
             Some b \<Rightarrow> (case bufio_Write line b f of (err, b', f') \<Rightarrow> (err, s\<lparr>st_bw := Some b'\<rparr>, f'))
           | None \<Rightarrow>
               (case st_file s of
                  Some q \<Rightarrow> (case file_Write q line f of
                               (Inl e, f') \<Rightarrow> (Some e, s, f') | (Inr _, f') \<Rightarrow> (None, s, f'))
                | None \<Rightarrow> (Some (ErrIO ''invalid argument''), s, f))))"

text \<open>
  \<open>Append\<close> takes the result of \<open>json.Marshal\<close>. Sending on a closed channel panics; a full channel
  refuses the line.
\<close>

definition Store_Append :: "int \<Rightarrow> bytes go_result \<Rightarrow> store_state \<Rightarrow> go_error option \<times> store_state" where
  "Store_Append now marshalled sf =
     (case marshalled of
        Inl e \<Rightarrow> (Some (Wrapf ''jsonl: marshal'' e), sf)
      | Inr v \<Rightarrow>
          let line = v @ [nl]; (s, f) = sf
          in case st_ch s of
               Some queue \<Rightarrow>
                 if st_once s then (Some (Panic ''send on closed channel''), sf)
                 else if int (length queue) < asyncSize (st_opts s)
                 then (None, s\<lparr>st_ch := Some (queue @ [line])\<rparr>, f)
                 else (Some (Errorf ''jsonl: async channel full''), sf)
             | None \<Rightarrow> writeLocked now line sf)"

definition Store_Flush :: "store_state \<Rightarrow> go_error option \<times> store_state" where
  "Store_Flush sf =
     (let (s, f) = sf
      in case st_bw s of
           Some b \<Rightarrow> (case bufio_Flush b f of (err, b', f') \<Rightarrow> (err, s\<lparr>st_bw := Some b'\<rparr>, f'))
         | None \<Rightarrow> (None, s, f))"

text \<open>
  One round of \<open>runAsync\<close>: the next line of the channel is written (an error is only logged), or,
  when the channel is closed and drained, the buffer is flushed and \<open>stopped\<close> is closed.
\<close>

definition runAsync_round :: "int \<Rightarrow> store_state \<Rightarrow> store_state" where
  "runAsync_round now sf =
     (let (s, f) = sf
      in case st_ch s of
           Some (line # rest) \<Rightarrow> snd (writeLocked now line (s\<lparr>st_ch := Some rest\<rparr>, f))
         | Some [] \<Rightarrow>
             if st_once s
             then (case snd (Store_Flush sf) of (s', f') \<Rightarrow> (s'\<lparr>st_stopped := True\<rparr>, f'))
             else sf
         | None \<Rightarrow> sf)"

text \<open>A tick of \<open>runFlusher\<close> or of \<open>runAsync\<close>'s ticker.\<close>

definition flush_tick :: "store_state \<Rightarrow> store_state" where
  "flush_tick sf = snd (Store_Flush sf)"

text \<open>The worker's rounds on a closed channel; \<open>clock i\<close> is the time of round \<open>i\<close>.\<close>

fun drain :: "(nat \<Rightarrow> int) \<Rightarrow> bytes list \<Rightarrow> store_state \<Rightarrow> store_state" where
  "drain clock [] sf = runAsync_round (clock 0) sf"
| "drain clock (line # rest) sf = drain (\<lambda>i. clock (Suc i)) rest (runAsync_round (clock 0) sf)"

text \<open>\<open>Close\<close>: the first call closes the channel and waits for the worker to drain it.\<close>

definition Store_stop :: "(nat \<Rightarrow> int) \<Rightarrow> store_state \<Rightarrow> store_state" where
  "Store_stop clock sf =
     (let (s, f) = sf
      in if st_once s then sf
         else case st_ch s of
                Some queue \<Rightarrow> drain clock queue (s\<lparr>st_once := True\<rparr>, f)
              | None \<Rightarrow> (s\<lparr>st_once := True, st_stopped := True\<rparr>, f))"

definition Store_Close :: "(nat \<Rightarrow> int) \<Rightarrow> store_state \<Rightarrow> go_error option \<times> store_state" where
  "Store_Close clock sf =
     (let (s, f) = Store_stop clock sf;
          (flushErr, f1) = (case st_bw s of None \<Rightarrow> (None, f)
             | Some b \<Rightarrow> (case bufio_Flush b f of (err, _, f') \<Rightarrow> (err, f')))
      in (case st_file s of
            None \<Rightarrow> flushErr
          | Some q \<Rightarrow> if flushErr \<noteq> None then flushErr else faults f1 (SysClose q),
          s\<lparr>st_bw := None, st_file := None\<rparr>, f1))"

subsection \<open>What a store holds\<close>

text \<open>
  The content of a day's file as the store's users see it: the bytes on disk and, when the file is
  the open one, the bytes still in the buffer.
\<close>

definition disk :: "fs \<Rightarrow> string \<Rightarrow> bytes" where
  "disk f p = (case node_at f p of Some (RegFile c m) \<Rightarrow> c | _ \<Rightarrow> [])"

definition unflushed :: "Store \<Rightarrow> string \<Rightarrow> bytes" where
  "unflushed s p = (case st_bw s of
      Some b \<Rightarrow> if path_key (bw_file b) = path_key p then bw_buf b else [] | None \<Rightarrow> [])"

definition day_content :: "store_state \<Rightarrow> string \<Rightarrow> bytes" where
  "day_content sf date =
     disk (snd sf) (Store_FilePath (fst sf) date) @ unflushed (fst sf) (Store_FilePath (fst sf) date)"

text \<open>A date as the store formats it; the dash keeps a file name from being \<open>.\<close> or \<open>..\<close>.\<close>

definition dashed :: "string \<Rightarrow> bool" where
  "dashed d \<longleftrightarrow> CHR ''-'' \<in> set d \<and> slash \<notin> set d"

definition plain_naming :: "Naming \<Rightarrow> bool" where
  "plain_naming n \<longleftrightarrow> slash \<notin> set (nm_Prefix n) \<union> set (nm_Sep n) \<union> set (nm_Suffix n)"

definition plain_node :: "node option \<Rightarrow> bool" where
  "plain_node n \<longleftrightarrow> (case n of None \<Rightarrow> True | Some (RegFile _ _) \<Rightarrow> True | _ \<Rightarrow> False)"

text \<open>
  The invariant of a store on a file system without faults: its directory exists, the day files are
  plain files or absent, and the open file and the buffer agree with the remembered date.
\<close>

definition store_ok :: "store_state \<Rightarrow> bool" where
  "store_ok sf \<longleftrightarrow> (case sf of (s, f) \<Rightarrow>
     faults f = (\<lambda>_. None) \<and> st_dir s \<noteq> [] \<and> plain_naming (st_naming s)
     \<and> (\<exists>m. node_at f (st_dir s) = Some (Directory m))
     \<and> (\<forall>d. dashed d \<longrightarrow> plain_node (node_at f (Store_FilePath s d)))
     \<and> (case st_file s of
          None \<Rightarrow> st_bw s = None
        | Some q \<Rightarrow> dashed (st_date s) \<and> q = Store_FilePath s (st_date s)
            \<and> (\<exists>c m. node_at f q = Some (RegFile c m))
            \<and> (case st_bw s of None \<Rightarrow> True
               | Some b \<Rightarrow> bw_file b = q \<and> bw_err b = None)))"

subsection \<open>File paths of different days\<close>

lemma FileName_inj: "Naming_FileName n d = Naming_FileName n d' \<longleftrightarrow> d = d'"
  by (simp add: Naming_FileName_def)

lemma FileName_elem:
  "plain_naming n \<Longrightarrow> dashed d \<Longrightarrow> elem_ok (Naming_FileName n d) \<and> Naming_FileName n d \<noteq> ''..''"
proof -
  assume "plain_naming n" "dashed d"
  then have "CHR ''-'' \<in> set (Naming_FileName n d)" "slash \<notin> set (Naming_FileName n d)"
    by (auto simp: Naming_FileName_def plain_naming_def dashed_def)
  then show ?thesis by (auto simp: elem_ok_def)
qed

lemma path_key_FilePath:
  assumes "st_dir s \<noteq> []" "plain_naming (st_naming s)" "dashed d"
  shows "path_key (Store_FilePath s d) =
    (fst (path_key (st_dir s)), snd (path_key (st_dir s)) @ [Naming_FileName (st_naming s) d])"
proof -
  let ?n = "Naming_FileName (st_naming s) d"
  have n: "elem_ok ?n" "?n \<noteq> ''..''" using FileName_elem assms by auto
  then have "path_elems ?n = [?n]"
    using path_elems_Join [of "[?n]"] by simp
  with n assms(1) show ?thesis by (simp add: Store_FilePath_def path_key_Join2)
qed

lemma FilePath_inj:
  assumes "st_dir s \<noteq> []" "plain_naming (st_naming s)" "dashed d" "dashed d'"
  shows "path_key (Store_FilePath s d) = path_key (Store_FilePath s d') \<longleftrightarrow> d = d'"
  using assms by (simp add: path_key_FilePath FileName_inj)

lemma dashed_Today: "dashed (Store_Today now s)"
proof -
  have "slash \<notin> set (zpad w n)" for w n
    using zpad_digits [of w n] by (auto simp: list_all_iff is_digit_def)
  then show ?thesis
    by (auto simp: dashed_def Store_Today_def time_Format_def format_date_def append_int_def)
qed

subsection \<open>Writes without faults\<close>

text \<open>\<open>f'\<close> is \<open>f\<close> with the file \<open>q\<close> holding \<open>c\<close>.\<close>

definition file_now :: "fs \<Rightarrow> string \<Rightarrow> bytes \<Rightarrow> fs \<Rightarrow> bool" where
  "file_now f q c f' \<longleftrightarrow> faults f' = faults f \<and> (\<exists>m. \<forall>p. node_at f' p =
     (if path_key p = path_key q then Some (RegFile c m) else node_at f p))"

lemma file_nowD:
  "file_now f q c f' \<Longrightarrow> faults f' = faults f"
  "file_now f q c f' \<Longrightarrow> path_key p = path_key q \<Longrightarrow> disk f' p = c"
  "file_now f q c f' \<Longrightarrow> path_key p \<noteq> path_key q \<Longrightarrow> node_at f' p = node_at f p"
  "file_now f q c f' \<Longrightarrow> \<exists>m. node_at f' q = Some (RegFile c m)"
  by (auto simp: file_now_def disk_def)

lemma file_now_trans: "file_now f q c f' \<Longrightarrow> file_now f' q c' f'' \<Longrightarrow> file_now f q c' f''"
  by (auto simp: file_now_def)

lemma file_now_refl: "node_at f q = Some (RegFile c m) \<Longrightarrow> file_now f q c f"
  unfolding file_now_def by (auto simp: node_at_def intro!: exI [of _ m])

lemma file_now_plain:
  "file_now f q c f' \<Longrightarrow> plain_node (node_at f p) \<Longrightarrow> plain_node (node_at f' p)"
  by (auto simp: file_now_def plain_node_def)

lemma file_now_directory:
  "file_now f q c f' \<Longrightarrow> node_at f p = Some (Directory d) \<Longrightarrow> path_key p \<noteq> path_key q \<Longrightarrow>
     node_at f' p = Some (Directory d)"
  by (auto simp: file_now_def)

lemma RegFile_not_root: "node_at f q = Some (RegFile c m) \<Longrightarrow> snd (path_key q) \<noteq> []"
  by (auto simp: node_at_def node_of_def)

lemma file_now_put: "snd (path_key q) \<noteq> [] \<Longrightarrow> file_now f q c (put_node (path_key q) (RegFile c m) f)"
  by (auto simp: file_now_def node_at_put intro!: exI [of _ m])

lemma file_Write_ok:
  assumes "faults f = (\<lambda>_. None)" "node_at f q = Some (RegFile c m)"
  shows "\<exists>f'. file_Write q data f = (Inr (), f') \<and> file_now f q (c @ data) f'"
  using assms RegFile_not_root [OF assms(2)] by (simp add: file_Write_def file_now_put)

lemma bufio_Flush_ok:
  assumes "faults f = (\<lambda>_. None)" "node_at f (bw_file b) = Some (RegFile c m)" "bw_err b = None"
  shows "\<exists>f'. bufio_Flush b f = (None, b\<lparr>bw_buf := []\<rparr>, f') \<and> file_now f (bw_file b) (c @ bw_buf b) f'"
proof (cases "bw_buf b = []")
  case True
  with assms show ?thesis by (auto simp: bufio_Flush_def intro: file_now_refl)
next
  case False
  with assms file_Write_ok [OF assms(1,2), of "bw_buf b"] show ?thesis
    by (auto simp: bufio_Flush_def)
qed

lemma bufio_direct_ok:
  assumes "faults f = (\<lambda>_. None)" "node_at f (bw_file b) = Some (RegFile c m)"
  shows "\<exists>f'. bufio_direct p b f = (None, b, f') \<and> file_now f (bw_file b) (c @ p) f'"
  using file_Write_ok [OF assms, of p] by (auto simp: bufio_direct_def)

lemma bufio_Write_ok:
  assumes "faults f = (\<lambda>_. None)" "node_at f (bw_file b) = Some (RegFile c m)" "bw_err b = None"
  shows "\<exists>b' f' c'. bufio_Write p b f = (None, b', f') \<and> bw_err b' = None \<and> bw_file b' = bw_file b
    \<and> file_now f (bw_file b) c' f' \<and> c' @ bw_buf b' = c @ bw_buf b @ p"
proof -
  let ?a = "bw_size b - length (bw_buf b)"
  let ?b1 = "b\<lparr>bw_buf := bw_buf b @ take ?a p\<rparr>"
  let ?b2 = "?b1\<lparr>bw_buf := []\<rparr>"
  consider (fits) "length p \<le> ?a" | (large) "\<not> length p \<le> ?a" "bw_buf b = []"
    | (fill) "\<not> length p \<le> ?a" "bw_buf b \<noteq> []" by blast
  then show ?thesis
  proof cases
    case fits
    with assms show ?thesis
      by (auto simp: bufio_Write_def intro!: exI [of _ c] file_now_refl)
  next
    case large
    with assms bufio_direct_ok [OF assms(1,2), of p] show ?thesis
      by (auto simp: bufio_Write_def)
  next
    case fill
    from bufio_Flush_ok [of f ?b1] assms obtain f1 where
      f1: "bufio_Flush ?b1 f = (None, ?b2, f1)" "file_now f (bw_file b) (c @ bw_buf b @ take ?a p) f1"
      by auto
    let ?p = "drop ?a p"
    have w: "bufio_Write p b f = (if length ?p \<le> bw_size b then (None, ?b2\<lparr>bw_buf := ?p\<rparr>, f1)
        else bufio_direct ?p ?b2 f1)"
      using fill assms(3) f1(1) by (simp add: bufio_Write_def Let_def)
    show ?thesis
    proof (cases "length ?p \<le> bw_size b")
      case True
      with w f1(2) assms(3) show ?thesis by (auto intro!: exI)
    next
      case False
      from f1(2) assms(1) have "faults f1 = (\<lambda>_. None)" by (simp add: file_nowD)
      moreover obtain m' where "node_at f1 (bw_file ?b2) = Some (RegFile (c @ bw_buf b @ take ?a p) m')"
        using file_nowD(4) [OF f1(2)] by auto
      ultimately obtain f2 where "bufio_direct ?p ?b2 f1 = (None, ?b2, f2)"
        and "file_now f1 (bw_file b) ((c @ bw_buf b @ take ?a p) @ ?p) f2"
        using bufio_direct_ok [of f1 ?b2 _ m' ?p] by auto
      with w False assms(3) file_now_trans [OF f1(2)] show ?thesis by (auto intro!: exI)
    qed
  qed
qed

text \<open>The fields of a store that no operation writes.\<close>

definition same_store :: "Store \<Rightarrow> Store \<Rightarrow> bool" where
  "same_store s s' \<longleftrightarrow> st_dir s' = st_dir s \<and> st_naming s' = st_naming s \<and> st_opts s' = st_opts s
     \<and> st_loc s' = st_loc s \<and> st_ch s' = st_ch s \<and> st_once s' = st_once s"

lemma same_store_simps:
  assumes "same_store s s'"
  shows "Store_FilePath s' d = Store_FilePath s d" "Store_Today now s' = Store_Today now s"
    "st_ch s' = st_ch s" "st_once s' = st_once s" "st_opts s' = st_opts s"
  using assms by (simp_all add: same_store_def Store_FilePath_def Store_Today_def)

lemma same_store_refl [simp]: "same_store s s"
  by (simp add: same_store_def)

lemma same_store_trans: "same_store s t \<Longrightarrow> same_store t u \<Longrightarrow> same_store s u"
  by (simp add: same_store_def)

lemma store_okD:
  assumes "store_ok (s, f)"
  shows "faults f = (\<lambda>_. None)" "dashed d \<Longrightarrow> plain_node (node_at f (Store_FilePath s d))"
    "st_dir s \<noteq> []" "plain_naming (st_naming s)" "\<exists>m. node_at f (st_dir s) = Some (Directory m)"
    "st_file s = None \<Longrightarrow> st_bw s = None"
    "st_file s = Some q \<Longrightarrow> dashed (st_date s) \<and> q = Store_FilePath s (st_date s)"
    "st_file s = Some q \<Longrightarrow> \<exists>c m. node_at f q = Some (RegFile c m)"
    "st_bw s = Some b \<Longrightarrow> st_file s = Some (bw_file b) \<and> bw_err b = None"
  using assms unfolding store_ok_def by (auto split: option.splits)

lemma dir_not_day_file:
  assumes "store_ok (s, f)" "dashed d"
  shows "path_key (st_dir s) \<noteq> path_key (Store_FilePath s d)"
  using path_key_FilePath [OF store_okD(3,4) assms(2)] assms(1)
  by (metis append_self_conv list.distinct(1) snd_conv)

text \<open>Replacing the content of one day's file keeps a store with no open file well-formed.\<close>

lemma store_ok_closed:
  assumes ok: "store_ok (s, f)" and d: "dashed d" and now: "file_now f (Store_FilePath s d) c f'"
    and s': "same_store s s'" "st_file s' = None" "st_bw s' = None"
  shows "store_ok (s', f')"
proof -
  obtain m where "node_at f (st_dir s) = Some (Directory m)" using store_okD(5) [OF ok] by auto
  then have "node_at f' (st_dir s) = Some (Directory m)"
    using file_now_directory [OF now] dir_not_day_file [OF ok d] by auto
  then show ?thesis
    using store_okD [OF ok] file_nowD(1) [OF now] file_now_plain [OF now] s'
    by (auto simp: store_ok_def same_store_def same_store_simps [OF s'(1)])
qed

lemma store_ok_open:
  assumes ok: "store_ok (s, f)" and d: "dashed d" and now: "file_now f (Store_FilePath s d) c f'"
    and s': "same_store s s'" "st_file s' = Some (Store_FilePath s d)" "st_date s' = d"
    and b: "st_bw s' = None \<or> (\<exists>b. st_bw s' = Some b \<and> bw_file b = Store_FilePath s d \<and> bw_err b = None)"
  shows "store_ok (s', f')"
proof -
  obtain m where "node_at f (st_dir s) = Some (Directory m)" using store_okD(5) [OF ok] by auto
  then have "node_at f' (st_dir s) = Some (Directory m)"
    using file_now_directory [OF now] dir_not_day_file [OF ok d] by auto
  then show ?thesis
    using store_okD [OF ok] file_nowD(1,4) [OF now] file_now_plain [OF now] s' d b
    by (auto simp: store_ok_def same_store_def same_store_simps [OF s'(1)])
qed

text \<open>Flushing moves the buffer to the disk and changes no day's content.\<close>

lemma flush_content:
  assumes ok: "store_ok (s, f)" and b: "st_bw s = Some b"
  obtains f' c where "bufio_Flush b f = (None, b\<lparr>bw_buf := []\<rparr>, f')"
    "file_now f (Store_FilePath s (st_date s)) c f'" "c = day_content (s, f) (st_date s)"
    "\<And>d. dashed d \<Longrightarrow> disk f' (Store_FilePath s d) = day_content (s, f) d"
proof -
  let ?q = "Store_FilePath s (st_date s)"
  have q: "st_file s = Some ?q" "bw_file b = ?q" "bw_err b = None" "dashed (st_date s)"
    using store_okD(7,9) [OF ok] b by auto
  obtain c0 m where c0: "node_at f ?q = Some (RegFile c0 m)" using store_okD(8) [OF ok q(1)] by auto
  obtain f' where f': "bufio_Flush b f = (None, b\<lparr>bw_buf := []\<rparr>, f')" "file_now f ?q (c0 @ bw_buf b) f'"
    using bufio_Flush_ok [OF store_okD(1) [OF ok], of b c0 m] c0 q by auto
  have "disk f' (Store_FilePath s d) = day_content (s, f) d" if "dashed d" for d
  proof (cases "d = st_date s")
    case True
    then show ?thesis using file_nowD(2) [OF f'(2)] c0 b q
      by (simp add: day_content_def disk_def unflushed_def)
  next
    case False
    then have "path_key (Store_FilePath s d) \<noteq> path_key ?q"
      using FilePath_inj store_okD(3,4) [OF ok] q(4) that by metis
    then show ?thesis using file_nowD(3) [OF f'(2)] b q
      by (simp add: day_content_def disk_def unflushed_def)
  qed
  moreover have "c0 @ bw_buf b = day_content (s, f) (st_date s)"
    using c0 b q by (simp add: day_content_def disk_def unflushed_def)
  ultimately show ?thesis using that f' by metis
qed

lemma day_content_closed: "st_bw s = None \<Longrightarrow> day_content (s, f) d = disk f (Store_FilePath s d)"
  by (simp add: day_content_def unflushed_def)

lemma open_day_file:
  assumes ok: "store_ok (s, f)" and d: "dashed d"
  obtains f' where "os_OpenWrite False (Store_FilePath s d) 420 f = (Inr (Store_FilePath s d), f')"
    "file_now f (Store_FilePath s d) (disk f (Store_FilePath s d)) f'"
proof -
  let ?p = "Store_FilePath s d"
  have k: "path_key ?p = (fst (path_key (st_dir s)), snd (path_key (st_dir s)) @ [Naming_FileName (st_naming s) d])"
    using path_key_FilePath store_okD(3,4) [OF ok] d by auto
  show thesis
  proof (cases "node_at f ?p")
    case None
    obtain m where "node_of f (parent (path_key ?p)) = Some (Directory m)"
      using store_okD(5) [OF ok] k by (auto simp: node_at_def)
    then have "os_OpenWrite False ?p 420 f = (Inr ?p, put_node (path_key ?p) (RegFile [] 420) f)"
      using None store_okD(1) [OF ok] by (simp add: os_OpenWrite_def)
    moreover have "disk f ?p = []" "snd (path_key ?p) \<noteq> []" using None k by (simp_all add: disk_def)
    then have "file_now f ?p (disk f ?p) (put_node (path_key ?p) (RegFile [] 420) f)"
      by (metis file_now_put)
    ultimately show thesis by (rule that)
  next
    case (Some n)
    with store_okD(2) [OF ok d] obtain c m where n: "node_at f ?p = Some (RegFile c m)"
      by (cases n) (auto simp: plain_node_def)
    then have "os_OpenWrite False ?p 420 f = (Inr ?p, f)"
      using store_okD(1) [OF ok] by (simp add: os_OpenWrite_def)
    moreover have "file_now f ?p (disk f ?p) f" using n by (simp add: disk_def file_now_refl)
    ultimately show thesis by (rule that)
  qed
qed

text \<open>Closing what was open: its buffer goes to the disk, and no day loses a byte.\<close>

lemma close_ok:
  assumes ok: "store_ok (s, f)"
    and f1: "f1 = (case st_file s of None \<Rightarrow> f
      | Some _ \<Rightarrow> (case st_bw s of None \<Rightarrow> f | Some b \<Rightarrow> snd (snd (bufio_Flush b f))))"
    and s1: "same_store s s1" "st_file s1 = None" "st_bw s1 = None"
  shows "store_ok (s1, f1) \<and> (\<forall>d. dashed d \<longrightarrow> disk f1 (Store_FilePath s d) = day_content (s, f) d)"
proof (cases "st_bw s")
  case None
  then have "f1 = f" by (auto simp: f1 split: option.splits)
  moreover have "store_ok (s1, f)"
    using ok s1 None unfolding store_ok_def same_store_def Store_FilePath_def by (auto split: option.splits)
  ultimately show ?thesis using None by (simp add: day_content_closed)
next
  case (Some b)
  then obtain f' c where "bufio_Flush b f = (None, b\<lparr>bw_buf := []\<rparr>, f')"
    and now: "file_now f (Store_FilePath s (st_date s)) c f'"
    and eq: "\<And>d. dashed d \<Longrightarrow> disk f' (Store_FilePath s d) = day_content (s, f) d"
    by (rule flush_content [OF ok]) blast
  moreover have "st_file s = Some (bw_file b)" "dashed (st_date s)"
    using store_okD(7,9) [OF ok] Some by auto
  ultimately show ?thesis using Some store_ok_closed [OF ok _ now s1] by (simp add: f1)
qed

text \<open>Rotation: whatever was open, today's file is open afterwards and no day lost a byte.\<close>

lemma ensureFile_ok:
  assumes ok: "store_ok (s, f)"
  obtains s' f' where "ensureFileLocked now (s, f) = (None, s', f')" "store_ok (s', f')" "same_store s s'"
    "st_file s' = Some (Store_FilePath s (Store_Today now s))" "st_date s' = Store_Today now s"
    "\<And>d. dashed d \<Longrightarrow> day_content (s', f') d = day_content (s, f) d"
proof (cases "st_file s \<noteq> None \<and> st_date s = Store_Today now s")
  case True
  then have "ensureFileLocked now (s, f) = (None, s, f)" by (simp add: ensureFileLocked_def)
  with True store_okD(7) [OF ok] show thesis by (intro that [of s f]) (auto simp: ok)
next
  case False
  let ?today = "Store_Today now s"
  let ?p = "Store_FilePath s ?today"
  define f1 where "f1 = (case st_file s of None \<Rightarrow> f
      | Some _ \<Rightarrow> (case st_bw s of None \<Rightarrow> f | Some b \<Rightarrow> snd (snd (bufio_Flush b f))))"
  define s1 where "s1 = (if st_file s \<noteq> None then s\<lparr>st_file := None, st_bw := None\<rparr> else s)"
  have s1: "same_store s s1" "st_file s1 = None" "st_bw s1 = None"
    using store_okD(6) [OF ok] by (auto simp: s1_def same_store_def)
  note closed = close_ok [OF ok f1_def s1]
  have p: "Store_FilePath s1 ?today = ?p" using s1(1) by (simp add: same_store_simps)
  obtain f2 where f2: "os_OpenWrite False ?p 420 f1 = (Inr ?p, f2)" "file_now f1 ?p (disk f1 ?p) f2"
    using open_day_file [of s1 f1 ?today] closed dashed_Today p by metis
  define s2 where "s2 = s1\<lparr>st_file := Some ?p, st_date := ?today,
      st_bw := (if bufSize (st_opts s1) > 0 then Some (bufio_NewWriterSize ?p (nat (bufSize (st_opts s1))))
                else st_bw s1)\<rparr>"
  have run: "ensureFileLocked now (s, f) = (None, s2, f2)"
    by (simp only: ensureFileLocked_def Let_def prod.case if_not_P [OF False] f1_def [symmetric]
        s1_def [symmetric] p f2(1) sum.case s2_def)
  have s2: "same_store s1 s2" "st_file s2 = Some ?p" "st_date s2 = ?today"
    "st_bw s2 = None \<or> (\<exists>b. st_bw s2 = Some b \<and> bw_file b = ?p \<and> bw_err b = None)"
    using s1 by (auto simp: s2_def same_store_def bufio_NewWriterSize_def)
  have ok2: "store_ok (s2, f2)"
    using store_ok_open [of s1 f1 ?today "disk f1 ?p" f2 s2] closed dashed_Today f2(2) s2 p by auto
  have content: "day_content (s2, f2) d = day_content (s, f) d" if d: "dashed d" for d
  proof -
    have "unflushed s2 q = []" for q
      using s1(3) by (simp add: s2_def unflushed_def bufio_NewWriterSize_def)
    moreover have "Store_FilePath s2 d = Store_FilePath s d"
      using s1(1) s2(1) by (simp add: same_store_simps)
    moreover have "disk f2 (Store_FilePath s d) = disk f1 (Store_FilePath s d)"
      using file_nowD(2,3) [OF f2(2)] by (cases "path_key (Store_FilePath s d) = path_key ?p")
        (auto simp: disk_def node_at_def)
    ultimately show ?thesis using closed d by (simp add: day_content_def)
  qed
  show thesis
    using run ok2 same_store_trans [OF s1(1) s2(1)] s2(2,3) content by (rule that)
qed

lemma writeLocked_ok:
  assumes ok: "store_ok (s, f)"
  obtains s' f' where "writeLocked now line (s, f) = (None, s', f')" "store_ok (s', f')" "same_store s s'"
    "\<And>d. dashed d \<Longrightarrow> day_content (s', f') d =
      day_content (s, f) d @ (if d = Store_Today now s then line else [])"
proof -
  let ?today = "Store_Today now s"
  let ?p = "Store_FilePath s ?today"
  obtain s1 f1 where e: "ensureFileLocked now (s, f) = (None, s1, f1)" "store_ok (s1, f1)" "same_store s s1"
    "st_file s1 = Some ?p" "st_date s1 = ?today"
    and content: "\<And>d. dashed d \<Longrightarrow> day_content (s1, f1) d = day_content (s, f) d"
    by (rule ensureFile_ok [OF ok, of now]) blast
  have same: "Store_FilePath s1 d = Store_FilePath s d" for d using e(3) by (simp add: same_store_simps)
  obtain c m where c: "node_at f1 ?p = Some (RegFile c m)" using store_okD(8) [OF e(2,4)] by auto
  have other: "path_key (Store_FilePath s d) \<noteq> path_key ?p" if "dashed d" "d \<noteq> ?today" for d
    using FilePath_inj store_okD(3,4) [OF ok] that dashed_Today by metis
  show thesis
  proof (cases "st_bw s1")
    case None
    obtain f2 where f2: "file_Write ?p line f1 = (Inr (), f2)" "file_now f1 ?p (c @ line) f2"
      using file_Write_ok [OF store_okD(1) [OF e(2)] c] by auto
    have "writeLocked now line (s, f) = (None, s1, f2)"
      using e None f2(1) by (simp add: writeLocked_def)
    moreover have "store_ok (s1, f2)"
      using store_ok_open [OF e(2) dashed_Today] f2(2) e(4,5) None same by auto
    moreover have "day_content (s1, f2) d = day_content (s, f) d @ (if d = ?today then line else [])"
      if "dashed d" for d
      using content [OF that] file_nowD(2,3) [OF f2(2)] other [OF that] None c same
      by (cases "d = ?today") (auto simp: day_content_closed disk_def)
    ultimately show thesis using e(3) by (intro that)
  next
    case (Some b)
    then have b: "bw_file b = ?p" "bw_err b = None" using store_okD(9) [OF e(2)] e(4) by auto
    from bufio_Write_ok [OF store_okD(1) [OF e(2)], of b c m line] c b obtain b' f2 c' where
      w: "bufio_Write line b f1 = (None, b', f2)" "bw_err b' = None" "bw_file b' = ?p"
        "file_now f1 ?p c' f2" "c' @ bw_buf b' = c @ bw_buf b @ line" by auto
    let ?s2 = "s1\<lparr>st_bw := Some b'\<rparr>"
    have run: "writeLocked now line (s, f) = (None, ?s2, f2)"
      using e Some w(1) by (simp add: writeLocked_def)
    have same2: "same_store s1 ?s2" by (simp add: same_store_def)
    have ok2: "store_ok (?s2, f2)"
      using store_ok_open [OF e(2) dashed_Today, of now s c' f2 ?s2] w e(4,5) same by (auto simp: same_store_def)
    have content2: "day_content (?s2, f2) d = day_content (s, f) d @ (if d = ?today then line else [])"
      if "dashed d" for d
    proof -
      have fp: "Store_FilePath ?s2 d = Store_FilePath s d" using same2 same by (simp add: same_store_simps)
      show ?thesis
        using content [OF that] file_nowD(2,3) [OF w(4)] other [OF that] Some c w b same fp
        by (cases "d = ?today") (auto simp: day_content_def disk_def unflushed_def)
    qed
    show thesis
      using run ok2 same_store_trans [OF e(3) same2] content2 by (rule that)
  qed
qed

lemma Flush_ok:
  assumes ok: "store_ok (s, f)"
  obtains s' f' where "Store_Flush (s, f) = (None, s', f')" "store_ok (s', f')" "same_store s s'"
    "\<And>d. dashed d \<Longrightarrow> day_content (s', f') d = day_content (s, f) d"
    "\<And>d. dashed d \<Longrightarrow> disk f' (Store_FilePath s d) = day_content (s, f) d"
proof (cases "st_bw s")
  case None
  then show thesis using ok by (intro that [of s f]) (auto simp: Store_Flush_def day_content_closed)
next
  case (Some b)
  obtain f' c where f': "bufio_Flush b f = (None, b\<lparr>bw_buf := []\<rparr>, f')"
    "file_now f (Store_FilePath s (st_date s)) c f'"
    "\<And>d. dashed d \<Longrightarrow> disk f' (Store_FilePath s d) = day_content (s, f) d"
    by (rule flush_content [OF ok Some]) blast
  let ?s = "s\<lparr>st_bw := Some (b\<lparr>bw_buf := []\<rparr>)\<rparr>"
  have same: "same_store s ?s" by (simp add: same_store_def)
  have b: "st_file s = Some (bw_file b)" "bw_err b = None" "dashed (st_date s)"
    "bw_file b = Store_FilePath s (st_date s)" using store_okD(7,9) [OF ok] Some by auto
  have "Store_Flush (s, f) = (None, ?s, f')" using Some f'(1) by (simp add: Store_Flush_def)
  moreover have "store_ok (?s, f')" using store_ok_open [OF ok b(3) f'(2) same] b by simp
  moreover have "day_content (?s, f') d = day_content (s, f) d" if "dashed d" for d
    using f'(3) [OF that] same_store_simps(1) [OF same, of d] by (simp add: day_content_def unflushed_def)
  ultimately show thesis using f'(3) same by (intro that)
qed

lemma Close_stopped:
  assumes "Store_stop clock sf = (s, f)" "store_ok (s, f)"
  obtains s' f' where "Store_Close clock sf = (None, s', f')" "store_ok (s', f')" "same_store s s'"
    "st_file s' = None" "st_bw s' = None"
    "\<And>d. dashed d \<Longrightarrow> disk f' (Store_FilePath s d) = day_content (s, f) d"
proof -
  let ?s = "s\<lparr>st_bw := None, st_file := None\<rparr>"
  have same: "same_store s ?s" by (simp add: same_store_def)
  show thesis
  proof (cases "st_bw s")
    case None
    moreover have "faults f = (\<lambda>_. None)" using store_okD(1) [OF assms(2)] .
    ultimately have "Store_Close clock sf = (None, ?s, f)"
      using assms(1) by (simp add: Store_Close_def split: option.split)
    moreover have "store_ok (?s, f)"
      using assms(2) None unfolding store_ok_def by (auto simp: Store_FilePath_def split: option.splits)
    ultimately show thesis using same None by (intro that [of ?s f]) (auto simp: day_content_closed)
  next
    case (Some b)
    obtain f' c where f': "bufio_Flush b f = (None, b\<lparr>bw_buf := []\<rparr>, f')"
      "file_now f (Store_FilePath s (st_date s)) c f'"
      "\<And>d. dashed d \<Longrightarrow> disk f' (Store_FilePath s d) = day_content (s, f) d"
      by (rule flush_content [OF assms(2) Some]) blast
    have "dashed (st_date s)" using store_okD(7,9) [OF assms(2)] Some by auto
    then have "store_ok (?s, f')" using store_ok_closed [OF assms(2) _ f'(2) same] by simp
    moreover have "Store_Close clock sf = (None, ?s, f')"
      using assms(1) Some f'(1) store_okD(1) [OF calculation] by (simp add: Store_Close_def split: option.split)
    ultimately show thesis using same f'(3) by (intro that [of ?s f']) auto
  qed
qed

subsection \<open>The contract of a log split by day\<close>

text \<open>The lines of a list of dated lines that belong to one day, in order.\<close>

definition lines_of_day :: "('d \<times> 'b list) list \<Rightarrow> 'd \<Rightarrow> 'b list" where
  "lines_of_day xs d = concat (map snd (filter (\<lambda>x. fst x = d) xs))"

lemma lines_of_day_simps [simp]:
  "lines_of_day [] d = []"
  "lines_of_day (x # xs) d = (if fst x = d then snd x else []) @ lines_of_day xs d"
  "lines_of_day (xs @ ys) d = lines_of_day xs d @ lines_of_day ys d"
  by (simp_all add: lines_of_day_def)

text \<open>
  What a day log promises: a put appends the encoded line to the content of the day of its time
  and touches no other day; upkeep (flushing, closing) changes no content.
\<close>

locale day_log =
  fixes ok :: "'s \<Rightarrow> bool" and content :: "'s \<Rightarrow> 'd \<Rightarrow> 'b list" and valid :: "'d \<Rightarrow> bool"
    and day :: "'t \<Rightarrow> 's \<Rightarrow> 'd" and enc :: "'l \<Rightarrow> 'b list"
    and put :: "'t \<Rightarrow> 'l \<Rightarrow> 's \<Rightarrow> 's" and upkeep :: "'u \<Rightarrow> 's \<Rightarrow> 's"
  assumes put_ok: "ok s \<Longrightarrow> ok (put t l s)"
    and put_day: "ok s \<Longrightarrow> day t' (put t l s) = day t' s"
    and put_content: "ok s \<Longrightarrow> valid d \<Longrightarrow>
      content (put t l s) d = content s d @ (if d = day t s then enc l else [])"
    and upkeep_ok: "ok s \<Longrightarrow> ok (upkeep u s)"
    and upkeep_day: "ok s \<Longrightarrow> day t' (upkeep u s) = day t' s"
    and upkeep_content: "ok s \<Longrightarrow> valid d \<Longrightarrow> content (upkeep u s) d = content s d"
begin

primrec act :: "('t \<times> 'l) + 'u \<Rightarrow> 's \<Rightarrow> 's" where
  "act (Inl w) s = put (fst w) (snd w) s"
| "act (Inr u) s = upkeep u s"

definition dated :: "'s \<Rightarrow> (('t \<times> 'l) + 'u) list \<Rightarrow> ('d \<times> 'b list) list" where
  "dated s acts = concat (map (\<lambda>a. case a of Inl w \<Rightarrow> [(day (fst w) s, enc (snd w))] | Inr u \<Rightarrow> []) acts)"

lemma act_day: "ok s \<Longrightarrow> day t (act a s) = day t s"
  by (cases a) (auto simp: put_day upkeep_day)

lemma act_ok: "ok s \<Longrightarrow> ok (act a s)"
  by (cases a) (auto simp: put_ok upkeep_ok)

theorem acts_content:
  assumes "ok s" "valid d"
  shows "ok (fold act acts s)" "day t (fold act acts s) = day t s"
    "content (fold act acts s) d = content s d @ lines_of_day (dated s acts) d"
proof (atomize (full), use assms(1) in \<open>induction acts arbitrary: s\<close>)
  case Nil
  then show ?case by (simp add: dated_def)
next
  case (Cons a acts)
  have "content (act a s) d = content s d @ lines_of_day (dated s [a]) d"
    using Cons.prems assms(2) by (cases a) (auto simp: dated_def put_content upkeep_content)
  moreover have "dated (act a s) acts = dated s acts" for acts
    unfolding dated_def using Cons.prems by (simp add: act_day cong: sum.case_cong)
  moreover have "dated s (a # acts) = dated s [a] @ dated s acts" by (simp add: dated_def)
  ultimately show ?case using Cons.IH [OF act_ok [OF Cons.prems]] Cons.prems by (simp add: act_day)
qed

end

subsection \<open>The store is a day log\<close>

abbreviation day_at :: "int \<Rightarrow> store_state \<Rightarrow> string" where
  "day_at now sf \<equiv> Store_Today now (fst sf)"

text \<open>The worker's view: lines written under the lock, ticks in between.\<close>

interpretation worker: day_log store_ok day_content dashed day_at "\<lambda>l. l"
  "\<lambda>now line sf. snd (writeLocked now line sf)" "\<lambda>_ :: unit. flush_tick"
proof (unfold_locales, goal_cases)
  case (1 sf t l) then show ?case by (cases sf, simp) (erule writeLocked_ok [where now = t and line = l], simp)
next
  case (2 sf t' t l) then show ?case
    by (cases sf, simp) (erule writeLocked_ok [where now = t and line = l], simp add: same_store_simps)
next
  case (3 sf d t l) then show ?case
    by (cases sf, simp) (erule writeLocked_ok [where now = t and line = l], simp add: dashed_Today)
next
  case (4 sf u) then show ?case by (cases sf, simp) (erule Flush_ok, simp add: flush_tick_def)
next
  case (5 sf t' u) then show ?case
    by (cases sf, simp) (erule Flush_ok, simp add: flush_tick_def same_store_simps)
next
  case (6 sf d u) then show ?case by (cases sf, simp) (erule Flush_ok, simp add: flush_tick_def)
qed

text \<open>The caller's view of a store without a channel: appends, flushes and closes in any order.\<close>

definition sync_ok :: "store_state \<Rightarrow> bool" where
  "sync_ok sf \<longleftrightarrow> store_ok sf \<and> st_ch (fst sf) = None"

definition sync_upkeep :: "(nat \<Rightarrow> int) option \<Rightarrow> store_state \<Rightarrow> go_error option \<times> store_state" where
  "sync_upkeep u sf = (case u of None \<Rightarrow> Store_Flush sf | Some clock \<Rightarrow> Store_Close clock sf)"

lemma sync_Append:
  assumes "sync_ok (s, f)"
  obtains s' f' where "Store_Append now (Inr v) (s, f) = (None, s', f')" "sync_ok (s', f')" "same_store s s'"
    "\<And>d. dashed d \<Longrightarrow> day_content (s', f') d =
      day_content (s, f) d @ (if d = Store_Today now s then v @ [nl] else [])"
proof -
  obtain s' f' where "writeLocked now (v @ [nl]) (s, f) = (None, s', f')" "store_ok (s', f')" "same_store s s'"
    "\<And>d. dashed d \<Longrightarrow> day_content (s', f') d =
      day_content (s, f) d @ (if d = Store_Today now s then v @ [nl] else [])"
    using assms by (auto simp: sync_ok_def elim: writeLocked_ok [where now = now and line = "v @ [nl]"])
  with assms show thesis by (intro that) (auto simp: Store_Append_def sync_ok_def same_store_simps)
qed

lemma sync_Close:
  assumes "sync_ok (s, f)"
  obtains s' f' where "Store_Close clock (s, f) = (None, s', f')" "sync_ok (s', f')"
    "\<And>d. Store_FilePath s' d = Store_FilePath s d" "\<And>t. Store_Today t s' = Store_Today t s" "st_bw s' = None"
    "\<And>d. dashed d \<Longrightarrow> disk f' (Store_FilePath s d) = day_content (s, f) d"
proof -
  let ?s = "if st_once s then s else s\<lparr>st_once := True, st_stopped := True\<rparr>"
  have stop: "Store_stop clock (s, f) = (?s, f)"
    using assms by (simp add: Store_stop_def sync_ok_def)
  have ok: "store_ok (?s, f)" "st_ch ?s = None"
    using assms by (auto simp: sync_ok_def store_ok_def Store_FilePath_def split: option.splits)
  have eq: "Store_FilePath ?s d = Store_FilePath s d" "Store_Today t ?s = Store_Today t s"
    "day_content (?s, f) d = day_content (s, f) d" for d t
    by (simp_all add: Store_FilePath_def Store_Today_def day_content_def unflushed_def split: option.split)
  from Close_stopped [OF stop ok(1)] obtain s' f' where "Store_Close clock (s, f) = (None, s', f')"
    "store_ok (s', f')" "same_store ?s s'" "st_bw s' = None"
    "\<And>d. dashed d \<Longrightarrow> disk f' (Store_FilePath ?s d) = day_content (?s, f) d" by metis
  then show thesis using ok(2) eq by (intro that) (auto simp: sync_ok_def same_store_simps simp del: if_split)
qed

lemma sync_Flush:
  assumes "sync_ok (s, f)"
  obtains s' f' where "Store_Flush (s, f) = (None, s', f')" "sync_ok (s', f')" "same_store s s'"
    "\<And>d. dashed d \<Longrightarrow> day_content (s', f') d = day_content (s, f) d"
proof -
  have "store_ok (s, f)" using assms by (simp add: sync_ok_def)
  from Flush_ok [OF this] obtain s' f' where "Store_Flush (s, f) = (None, s', f')" "store_ok (s', f')"
    "same_store s s'" "\<And>d. dashed d \<Longrightarrow> day_content (s', f') d = day_content (s, f) d" by metis
  with assms show thesis by (intro that [of s' f']) (simp_all add: sync_ok_def same_store_simps)
qed

lemma sync_upkeep_ok:
  assumes "sync_ok (s, f)"
  obtains s' f' where "sync_upkeep u (s, f) = (None, s', f')" "sync_ok (s', f')"
    "\<And>t. Store_Today t s' = Store_Today t s" "\<And>d. Store_FilePath s' d = Store_FilePath s d"
    "\<And>d. dashed d \<Longrightarrow> day_content (s', f') d = day_content (s, f) d"
proof (cases u)
  case None
  from sync_Flush [OF assms] obtain s' f' where "Store_Flush (s, f) = (None, s', f')" "sync_ok (s', f')"
    "same_store s s'" "\<And>d. dashed d \<Longrightarrow> day_content (s', f') d = day_content (s, f) d" by metis
  with None show thesis by (intro that [of s' f']) (simp_all add: sync_upkeep_def same_store_simps)
next
  case (Some clock)
  from sync_Close [OF assms, of clock] obtain s' f' where c: "Store_Close clock (s, f) = (None, s', f')"
    "sync_ok (s', f')" "\<And>d. Store_FilePath s' d = Store_FilePath s d" "\<And>t. Store_Today t s' = Store_Today t s"
    "st_bw s' = None" "\<And>d. dashed d \<Longrightarrow> disk f' (Store_FilePath s d) = day_content (s, f) d" by metis
  then show thesis using Some by (intro that [of s' f']) (auto simp: sync_upkeep_def day_content_closed)
qed

interpretation sync: day_log sync_ok day_content dashed day_at "\<lambda>v. v @ [nl]"
  "\<lambda>now v sf. snd (Store_Append now (Inr v) sf)" "\<lambda>u sf. snd (sync_upkeep u sf)"
proof (unfold_locales, goal_cases)
  case (1 sf t l) then show ?case by (cases sf, simp) (erule sync_Append [where now = t and v = l], simp)
next
  case (2 sf t' t l) then show ?case
    by (cases sf, simp) (erule sync_Append [where now = t and v = l], simp add: same_store_simps)
next
  case (3 sf d t l) then show ?case
    by (cases sf, simp) (erule sync_Append [where now = t and v = l], simp add: dashed_Today)
next
  case (4 sf u) then show ?case by (cases sf, simp) (erule sync_upkeep_ok [where u = u], simp)
next
  case (5 sf t' u) then show ?case by (cases sf, simp) (erule sync_upkeep_ok [where u = u], simp)
next
  case (6 sf d u) then show ?case by (cases sf, simp) (erule sync_upkeep_ok [where u = u], simp)
qed

lemma New_store_ok:
  assumes new: "jsonl_New tlocal dir naming opts f = (Inr s, f')" and "faults f = (\<lambda>_. None)" "dir \<noteq> []"
    "plain_naming naming" and plain: "\<And>d. dashed d \<Longrightarrow> plain_node (node_at f (Store_FilePath s d))"
  shows "store_ok (s, f') \<and> (\<forall>d. dashed d \<longrightarrow> day_content (s, f') d = disk f (Store_FilePath s d))"
proof -
  have mk: "os_MkdirAll dir 493 f = (Inr (), f')" and s: "st_dir s = dir" "st_naming s = naming"
    "st_file s = None" "st_bw s = None"
    using new by (auto simp: jsonl_New_def Let_def split: prod.splits sum.splits)
  have keep: "node_at f' (Store_FilePath s d) = node_at f (Store_FilePath s d)" if "dashed d" for d
    using MkdirAll_ok(3) [OF mk, of "path_key (Store_FilePath s d)"] path_key_FilePath [of s d] assms(3,4) s that
    by (auto simp: node_at_def)
  show ?thesis
    using MkdirAll_ok(1,2) [OF mk] keep plain assms(2-4) s
    by (simp add: store_ok_def day_content_def unflushed_def disk_def)
qed

subsection \<open>Properties of the synchronous store\<close>

datatype store_call = CallAppend int bytes | CallFlush | CallClose "nat \<Rightarrow> int"

fun do_call :: "store_call \<Rightarrow> store_state \<Rightarrow> go_error option \<times> store_state" where
  "do_call (CallAppend now v) sf = Store_Append now (Inr v) sf"
| "do_call CallFlush sf = Store_Flush sf"
| "do_call (CallClose clock) sf = Store_Close clock sf"

fun do_calls :: "store_call list \<Rightarrow> store_state \<Rightarrow> go_error option list \<times> store_state" where
  "do_calls [] sf = ([], sf)"
| "do_calls (c # cs) sf =
     (case do_call c sf of (err, sf1) \<Rightarrow> (case do_calls cs sf1 of (errs, sf2) \<Rightarrow> (err # errs, sf2)))"

text \<open>The lines a sequence of calls appends, with the day each falls on.\<close>

fun appended :: "Store \<Rightarrow> store_call list \<Rightarrow> (string \<times> bytes) list" where
  "appended s [] = []"
| "appended s (CallAppend now v # cs) = (Store_Today now s, v @ [nl]) # appended s cs"
| "appended s (c # cs) = appended s cs"

fun as_act :: "store_call \<Rightarrow> (int \<times> bytes) + (nat \<Rightarrow> int) option" where
  "as_act (CallAppend now v) = Inl (now, v)"
| "as_act CallFlush = Inr None"
| "as_act (CallClose clock) = Inr (Some clock)"

lemma sync_upkeep_calls: "Store_Flush sf = sync_upkeep None sf" "Store_Close clock sf = sync_upkeep (Some clock) sf"
  by (simp_all add: sync_upkeep_def)

lemma do_call_act: "snd (do_call c sf) = sync.act (as_act c) sf"
  by (cases c) (simp_all add: sync_upkeep_calls)

lemma do_call_None: "sync_ok sf \<Longrightarrow> fst (do_call c sf) = None"
proof (cases sf)
  case (Pair s f)
  assume ok: "sync_ok sf"
  have "fst (sync_upkeep u sf) = None" for u
    using ok unfolding Pair by (rule sync_upkeep_ok [where u = u]) simp
  moreover have "fst (Store_Append now (Inr v) sf) = None" for now v
    using ok unfolding Pair by (rule sync_Append [where now = now and v = v]) simp
  ultimately show ?thesis by (cases c) (simp_all add: sync_upkeep_calls)
qed

lemma do_call_path: "sync_ok sf \<Longrightarrow> Store_FilePath (fst (snd (do_call c sf))) d = Store_FilePath (fst sf) d"
proof (cases sf)
  case (Pair s f)
  assume ok: "sync_ok sf"
  have "Store_FilePath (fst (snd (sync_upkeep u sf))) d = Store_FilePath s d" for u
    using ok unfolding Pair by (rule sync_upkeep_ok [where u = u]) simp
  moreover have "Store_FilePath (fst (snd (Store_Append now (Inr v) sf))) d = Store_FilePath s d" for now v
    using ok unfolding Pair by (rule sync_Append [where now = now and v = v]) (simp add: same_store_simps)
  ultimately show ?thesis using Pair by (cases c) (simp_all add: sync_upkeep_calls)
qed

lemma do_calls_path: "sync_ok sf \<Longrightarrow> Store_FilePath (fst (snd (do_calls cs sf))) d = Store_FilePath (fst sf) d"
proof (induction cs arbitrary: sf)
  case (Cons c cs)
  have "sync_ok (snd (do_call c sf))" using sync.act_ok [OF Cons.prems] do_call_act by metis
  from Cons.IH [OF this] show ?case using do_call_path [OF Cons.prems, of c d]
    by (simp add: case_prod_beta)
qed simp

lemma do_calls_act:
  "sync_ok sf \<Longrightarrow> do_calls cs sf = (replicate (length cs) None, fold sync.act (map as_act cs) sf)"
proof (induction cs arbitrary: sf)
  case (Cons c cs)
  have "do_call c sf = (None, sync.act (as_act c) sf)"
    using do_call_None [OF Cons.prems, of c] do_call_act [of c sf] by (metis prod.collapse)
  with Cons.IH [OF sync.act_ok [OF Cons.prems]] show ?case by simp
qed simp

lemma appended_dated: "sync.dated sf (map as_act cs) = appended (fst sf) cs"
  by (induction "fst sf" cs rule: appended.induct) (simp_all add: sync.dated_def)

lemma do_calls_append:
  "do_calls (cs @ cs') sf = (case do_calls cs sf of (e, sf1) \<Rightarrow> (case do_calls cs' sf1 of (e', sf2) \<Rightarrow> (e @ e', sf2)))"
  by (induction cs arbitrary: sf) (auto split: prod.splits)

lemma do_calls_content:
  assumes "sync_ok sf" "dashed d"
  shows "sync_ok (snd (do_calls cs sf))"
    "day_content (snd (do_calls cs sf)) d = day_content sf d @ lines_of_day (appended (fst sf) cs) d"
  using sync.acts_content [OF assms, where acts = "map as_act cs"] do_calls_act [OF assms(1), of cs]
  by (simp_all add: appended_dated)

lemma sync_run:
  assumes "jsonl_New tlocal dir naming opts f = (Inr s, f0)" "faults f = (\<lambda>_. None)" "dir \<noteq> []"
    "plain_naming naming" "\<And>d. dashed d \<Longrightarrow> plain_node (node_at f (Store_FilePath s d))"
    "st_ch s = None" "dashed d"
  shows "\<exists>s' f'. do_calls (calls @ [CallClose clock]) (s, f0) = (replicate (Suc (length calls)) None, s', f')
    \<and> sync_ok (s', f') \<and> disk f' (Store_FilePath s d) = disk f (Store_FilePath s d) @ lines_of_day (appended s calls) d"
proof -
  have ok: "sync_ok (s, f0)" and c0: "day_content (s, f0) d = disk f (Store_FilePath s d)"
    using New_store_ok [OF assms(1-5)] assms(6,7) by (auto simp: sync_ok_def)
  obtain s1 f1 where run: "do_calls calls (s, f0) = (replicate (length calls) None, s1, f1)"
    using do_calls_act [OF ok, of calls] by (metis prod.collapse)
  have ok1: "sync_ok (s1, f1)" and c1: "day_content (s1, f1) d = disk f (Store_FilePath s d) @ lines_of_day (appended s calls) d"
    using do_calls_content [OF ok assms(7), of calls] run c0 by auto
  have path: "Store_FilePath s1 d = Store_FilePath s d"
    using do_calls_path [OF ok, of calls d] run by simp
  obtain s' f' where "Store_Close clock (s1, f1) = (None, s', f')" "sync_ok (s', f')"
    "disk f' (Store_FilePath s1 d) = day_content (s1, f1) d"
    using sync_Close [OF ok1, of clock] assms(7) by metis
  with run c1 path show ?thesis
    by (simp add: do_calls_append replicate_append_same [symmetric])
qed

text \<open>
  C1. A synchronous store loses nothing, whatever its buffer size and however its appends, flushes and
  closes are ordered and cross midnight: on a file system without faults every call succeeds, and after
  the last \<open>Close\<close> the file of each day holds what it held before \<open>New\<close> followed by exactly the lines
  appended on that day, in order.
\<close>

theorem jsonl_sync_durable:
  assumes "jsonl_New tlocal dir naming opts f = (Inr s, f0)" "faults f = (\<lambda>_. None)" "dir \<noteq> []"
    "plain_naming naming" "\<And>d. dashed d \<Longrightarrow> plain_node (node_at f (Store_FilePath s d))"
    "st_ch s = None" "dashed d"
  shows "\<exists>s' f'. do_calls (calls @ [CallClose clock]) (s, f0) = (replicate (Suc (length calls)) None, s', f')
    \<and> disk f' (Store_FilePath s d) = disk f (Store_FilePath s d) @ lines_of_day (appended s calls) d"
  using sync_run [OF assms] by blast

definition demo_naming :: Naming where
  "demo_naming = \<lparr>nm_Prefix = ''app'', nm_Sep = ''-'', nm_Suffix = ''.jsonl''\<rparr>"

lemma demo_plain: "plain_naming demo_naming"
  by (simp add: plain_naming_def demo_naming_def)

lemma empty_plain:
  "st_dir s \<noteq> [] \<Longrightarrow> st_naming s = demo_naming \<Longrightarrow> dashed d \<Longrightarrow> plain_node (node_at empty_fs (Store_FilePath s d))"
  using path_key_FilePath [of s d] demo_plain
  by (simp add: plain_node_def node_at_def node_of_def empty_fs_def)

definition demo_store :: "jsonl_Option list \<Rightarrow> Store" where
  "demo_store opts = (case fst (jsonl_New (\<lambda>_. 0) ''log'' demo_naming opts empty_fs) of Inr s \<Rightarrow> s)"

definition demo_fs :: fs where
  "demo_fs = put_node (False, [''log'']) (Directory 493) empty_fs"

lemma demo_MkdirAll: "os_MkdirAll ''log'' 493 empty_fs = (Inr (), demo_fs)"
  by (simp add: demo_fs_def os_MkdirAll_def path_key_def path_elems_def ancestors_def node_of_def empty_fs_def
      filepath_IsAbs_def)

lemma demo_New:
  "jsonl_New (\<lambda>_. 0) ''log'' demo_naming opts empty_fs = (Inr (demo_store opts), demo_fs)"
  "st_dir (demo_store opts) = ''log''" "st_naming (demo_store opts) = demo_naming"
  by (simp_all add: demo_store_def jsonl_New_def demo_MkdirAll Let_def)

theorem jsonl_sync_durable_witness:
  "\<exists>s' f'. do_calls [CallAppend 86390 ''a'', CallFlush, CallAppend 86395 ''bcdefghij'', CallAppend 86400 ''k'', CallClose (\<lambda>_. 0)]
      (demo_store [WithBufferSize 8], demo_fs) = ([None, None, None, None, None], s', f')
    \<and> disk f' (Store_FilePath (demo_store [WithBufferSize 8]) ''1970-01-01'') = ''a'' @ [nl] @ ''bcdefghij'' @ [nl]"
proof -
  let ?s = "demo_store [WithBufferSize 8]"
  have ch: "st_ch ?s = None" by (simp add: demo_store_def jsonl_New_def demo_MkdirAll Let_def WithBufferSize_def)
  have loc: "Store_Today t ?s = time_Format (\<lambda>_. 0) t" for t
    by (simp add: demo_store_def jsonl_New_def demo_MkdirAll Let_def WithBufferSize_def Store_Today_def)
  have days: "time_Format (\<lambda>_. 0) 86390 = ''1970-01-01''" "time_Format (\<lambda>_. 0) 86395 = ''1970-01-01''"
    "time_Format (\<lambda>_. 0) 86400 = ''1970-01-02''" by (simp_all add: demo_days)
  have "disk empty_fs (Store_FilePath ?s ''1970-01-01'') = []"
    using empty_plain [of ?s "''1970-01-01''"] path_key_FilePath [of ?s "''1970-01-01''"] demo_plain
    by (simp add: demo_New dashed_def disk_def node_at_def node_of_def empty_fs_def)
  with jsonl_sync_durable [OF demo_New(1) [of "[WithBufferSize 8]"] _ _ demo_plain empty_plain ch, of "''1970-01-01''"
      "[CallAppend 86390 ''a'', CallFlush, CallAppend 86395 ''bcdefghij'', CallAppend 86400 ''k'']" "\<lambda>_. 0"]
  show ?thesis
    by (simp add: demo_New empty_fs_def dashed_def loc days)
qed

subsection \<open>Properties of the asynchronous store\<close>

text \<open>
  A run of a store with a channel: callers append, the worker takes lines off the channel, the ticker
  fires, in any interleaving. The run records the lines \<open>Append\<close> accepted and the lines the worker wrote,
  with the day it wrote each on.
\<close>

inductive async_run :: "store_state \<Rightarrow> bytes list \<Rightarrow> (string \<times> bytes) list \<Rightarrow> store_state \<Rightarrow> bool"
  for start where
  async_start: "async_run start [] [] start"
| async_accept: "async_run start acc wr sf \<Longrightarrow> Store_Append now (Inr v) sf = (None, sf') \<Longrightarrow>
    async_run start (acc @ [v @ [nl]]) wr sf'"
| async_refuse: "async_run start acc wr sf \<Longrightarrow> Store_Append now r sf = (Some e, sf') \<Longrightarrow>
    async_run start acc wr sf'"
| async_work: "async_run start acc wr sf \<Longrightarrow> st_ch (fst sf) = Some (line # rest) \<Longrightarrow>
    async_run start acc (wr @ [(day_at now sf, line)]) (runAsync_round now sf)"
| async_tick: "async_run start acc wr sf \<Longrightarrow> async_run start acc wr (flush_tick sf)"

lemma store_ok_ch [simp]: "store_ok (s\<lparr>st_ch := q\<rparr>, f) = store_ok (s, f)"
  "store_ok (s\<lparr>st_once := b\<rparr>, f) = store_ok (s, f)"
  "store_ok (s\<lparr>st_stopped := b\<rparr>, f) = store_ok (s, f)"
  by (simp_all add: store_ok_def Store_FilePath_def split: option.split)

lemma day_content_ch [simp]: "day_content (s\<lparr>st_ch := q\<rparr>, f) = day_content (s, f)"
  "day_content (s\<lparr>st_once := b\<rparr>, f) = day_content (s, f)"
  "day_content (s\<lparr>st_stopped := b\<rparr>, f) = day_content (s, f)"
  by (simp_all add: fun_eq_iff day_content_def unflushed_def Store_FilePath_def split: option.split)

text \<open>The fields that stay as \<open>New\<close> set them.\<close>

definition same_config :: "Store \<Rightarrow> Store \<Rightarrow> bool" where
  "same_config s s' \<longleftrightarrow> st_dir s' = st_dir s \<and> st_naming s' = st_naming s \<and> st_opts s' = st_opts s
     \<and> st_loc s' = st_loc s"

lemma same_config_simps:
  assumes "same_config s s'"
  shows "Store_FilePath s' d = Store_FilePath s d" "Store_Today now s' = Store_Today now s"
    "st_opts s' = st_opts s"
  using assms by (simp_all add: same_config_def Store_FilePath_def Store_Today_def)

lemma same_store_config: "same_store s s' \<Longrightarrow> same_config s s'"
  by (simp add: same_store_def same_config_def)

text \<open>One line taken off the channel and written.\<close>

lemma round_ok:
  assumes "store_ok (s, f)" "st_ch s = Some (line # rest)"
  obtains s' f' where "runAsync_round now (s, f) = (s', f')" "store_ok (s', f')" "same_config s s'"
    "st_ch s' = Some rest" "st_once s' = st_once s"
    "\<And>d. dashed d \<Longrightarrow> day_content (s', f') d =
      day_content (s, f) d @ (if d = Store_Today now s then line else [])"
proof -
  let ?s = "s\<lparr>st_ch := Some rest\<rparr>"
  have today: "Store_Today now ?s = Store_Today now s" by (simp add: Store_Today_def)
  obtain s' f' where w: "writeLocked now line (?s, f) = (None, s', f')" "store_ok (s', f')" "same_store ?s s'"
    and c: "\<And>d. dashed d \<Longrightarrow> day_content (s', f') d =
      day_content (?s, f) d @ (if d = Store_Today now ?s then line else [])"
    by (rule writeLocked_ok [of ?s f now line]) (use assms(1) in simp_all)
  have "runAsync_round now (s, f) = (s', f')" using assms(2) w(1) by (simp add: runAsync_round_def)
  moreover have "same_config s s'" "st_ch s' = Some rest" "st_once s' = st_once s"
    using w(3) by (simp_all add: same_store_def same_config_def)
  moreover have "day_content (s', f') d = day_content (s, f) d @ (if d = Store_Today now s then line else [])"
    if "dashed d" for d using c [OF that] today by simp
  ultimately show thesis using w(2) by (intro that)
qed

text \<open>The invariant: the channel holds what was accepted and not yet written, within its capacity.\<close>

definition async_inv :: "store_state \<Rightarrow> bytes list \<Rightarrow> (string \<times> bytes) list \<Rightarrow> store_state \<Rightarrow> bool" where
  "async_inv start acc wr sf \<longleftrightarrow>
     store_ok sf \<and> same_config (fst start) (fst sf) \<and> \<not> st_once (fst sf)
     \<and> (\<exists>queue. st_ch (fst sf) = Some queue \<and> acc = map snd wr @ queue
          \<and> int (length queue) \<le> asyncSize (st_opts (fst start)))
     \<and> (\<forall>d. dashed d \<longrightarrow> day_content sf d = day_content start d @ lines_of_day wr d)"

lemma async_run_inv:
  assumes "async_run start acc wr sf" and "store_ok start" "st_ch (fst start) = Some []" "\<not> st_once (fst start)"
    "asyncSize (st_opts (fst start)) > 0"
  shows "async_inv start acc wr sf"
  using assms(1)
proof induction
  case async_start
  show ?case using assms(2-) by (simp add: async_inv_def same_config_def)
next
  case (async_accept acc wr sf now v sf')
  then show ?case
    by (auto simp: async_inv_def Store_Append_def Let_def same_config_def split: prod.splits if_splits)
next
  case (async_refuse acc wr sf now r e sf')
  then have "sf' = sf"
    by (auto simp: async_inv_def Store_Append_def Let_def split: sum.splits prod.splits if_splits)
  with async_refuse show ?case by simp
next
  case (async_work acc wr sf line rest now)
  obtain s f where sf: "sf = (s, f)" by (cases sf)
  have inv: "store_ok (s, f)" "same_config (fst start) s" "st_ch s = Some (line # rest)"
    using async_work sf by (auto simp: async_inv_def)
  from round_ok [OF inv(1,3), of now] obtain s' f' where r: "runAsync_round now (s, f) = (s', f')"
    "store_ok (s', f')" "same_config s s'" "st_ch s' = Some rest" "st_once s' = st_once s"
    "\<And>d. dashed d \<Longrightarrow> day_content (s', f') d = day_content (s, f) d @ (if d = Store_Today now s then line else [])"
    by metis
  have "same_config (fst start) s'" using inv(2) r(3) by (simp add: same_config_def)
  with async_work(3) r inv show ?case by (auto simp: async_inv_def sf dashed_Today)
next
  case (async_tick acc wr sf)
  obtain s f where sf: "sf = (s, f)" by (cases sf)
  have ok: "store_ok (s, f)" using async_tick sf by (simp add: async_inv_def)
  from Flush_ok [OF ok] obtain s' f' where r: "Store_Flush (s, f) = (None, s', f')" "store_ok (s', f')"
    "same_store s s'" "\<And>d. dashed d \<Longrightarrow> day_content (s', f') d = day_content (s, f) d" by metis
  have "same_config (fst start) s'"
    using async_tick(2) r(3) by (simp add: async_inv_def sf same_config_def same_store_def)
  with async_tick(2) r show ?case by (auto simp: async_inv_def sf flush_tick_def same_store_def)
qed

text \<open>Lines written at the times of a clock, with their days.\<close>

definition clocked :: "Store \<Rightarrow> (nat \<Rightarrow> int) \<Rightarrow> bytes list \<Rightarrow> (string \<times> bytes) list" where
  "clocked s clock queue = zip (map (\<lambda>i. Store_Today (clock i) s) [0..<length queue]) queue"

lemma clocked_Cons:
  "clocked s clock (line # rest) = (Store_Today (clock 0) s, line) # clocked s (\<lambda>i. clock (Suc i)) rest"
  by (simp add: clocked_def upt_conv_Cons map_Suc_upt [symmetric] o_def del: upt_Suc)

lemma drain_ok:
  assumes "store_ok (s, f)" "st_ch s = Some queue" "st_once s"
  shows "\<exists>s' f'. drain clock queue (s, f) = (s', f') \<and> store_ok (s', f') \<and> same_config s s' \<and> st_stopped s'
    \<and> st_ch s' = Some [] \<and> (\<forall>d. dashed d \<longrightarrow>
        day_content (s', f') d = day_content (s, f) d @ lines_of_day (clocked s clock queue) d)"
  using assms
proof (induction queue arbitrary: s f clock)
  case Nil
  from Flush_ok [OF Nil(1)] obtain s' f' where r: "Store_Flush (s, f) = (None, s', f')" "store_ok (s', f')"
    "same_store s s'" "\<And>d. dashed d \<Longrightarrow> day_content (s', f') d = day_content (s, f) d" by metis
  have "runAsync_round (clock 0) (s, f) = (s'\<lparr>st_stopped := True\<rparr>, f')"
    using Nil r(1) by (simp add: runAsync_round_def)
  moreover have "same_config s (s'\<lparr>st_stopped := True\<rparr>)" "st_ch s' = Some []"
    using r(3) Nil(2) by (simp_all add: same_config_def same_store_def)
  ultimately show ?case using r(2,4) by (auto simp: clocked_def)
next
  case (Cons line rest)
  from round_ok [OF Cons.prems(1,2), of "clock 0"] obtain s1 f1 where r: "runAsync_round (clock 0) (s, f) = (s1, f1)"
    "store_ok (s1, f1)" "same_config s s1" "st_ch s1 = Some rest" "st_once s1"
    "\<And>d. dashed d \<Longrightarrow> day_content (s1, f1) d =
      day_content (s, f) d @ (if d = Store_Today (clock 0) s then line else [])"
    using Cons.prems(3) by metis
  have same: "clocked s1 c xs = clocked s c xs" for c xs
    using r(3) by (simp add: clocked_def same_config_simps)
  show ?case using Cons.IH [OF r(2,4,5), of "\<lambda>i. clock (Suc i)"] r(1,3,6)
    by (auto simp: clocked_Cons same same_config_def)
qed

text \<open>
  C2. An asynchronous store delivers. On a file system whose calls do not fail, with a directory
  that is there, a naming without slashes and the day files plain files or absent, for a fresh store with a
  channel, and whatever the interleaving of appends, worker rounds and ticks, the channel never holds more than its
  capacity, and \<open>Close\<close> succeeds and leaves on disk, after the bytes that were there, exactly the lines that
  \<open>Append\<close> accepted, each once and in the order of acceptance, under the day on which the worker wrote it. (A
  worker whose write fails only logs the error, so without that condition an accepted line can be lost.)
\<close>

theorem jsonl_async_delivers:
  assumes "async_run (s0, f0) acc wr (s, f)" and "store_ok (s0, f0)" "st_ch s0 = Some []" "\<not> st_once s0"
    "asyncSize (st_opts s0) > 0"
  shows "\<exists>queue s' f'. st_ch s = Some queue \<and> int (length queue) \<le> asyncSize (st_opts s0)
    \<and> acc = map snd (wr @ clocked s0 clock queue)
    \<and> Store_Close clock (s, f) = (None, s', f')
    \<and> (\<forall>d. dashed d \<longrightarrow> disk f' (Store_FilePath s0 d) =
          day_content (s0, f0) d @ lines_of_day (wr @ clocked s0 clock queue) d)"
proof -
  obtain queue where inv: "store_ok (s, f)" "same_config s0 s" "\<not> st_once s" "st_ch s = Some queue"
    "acc = map snd wr @ queue" "int (length queue) \<le> asyncSize (st_opts s0)"
    "\<forall>d. dashed d \<longrightarrow> day_content (s, f) d = day_content (s0, f0) d @ lines_of_day wr d"
    using async_run_inv [OF assms(1)] assms(2-) by (auto simp: async_inv_def)
  let ?s = "s\<lparr>st_once := True\<rparr>"
  obtain s1 f1 where dr: "drain clock queue (?s, f) = (s1, f1)" "store_ok (s1, f1)" "same_config ?s s1"
    "\<forall>d. dashed d \<longrightarrow> day_content (s1, f1) d = day_content (?s, f) d @ lines_of_day (clocked ?s clock queue) d"
    using drain_ok [of ?s f queue clock] inv(1,4) by auto
  have stop: "Store_stop clock (s, f) = (s1, f1)" using inv(3,4) dr(1) by (simp add: Store_stop_def)
  have cfg: "same_config s0 s1" "same_config s0 ?s" using inv(2) dr(3) by (simp_all add: same_config_def)
  have clk: "clocked ?s clock queue = clocked s0 clock queue"
    using cfg(2) by (simp add: clocked_def same_config_simps)
  from Close_stopped [OF stop dr(2)] obtain s' f' where cl: "Store_Close clock (s, f) = (None, s', f')"
    "\<forall>d. dashed d \<longrightarrow> disk f' (Store_FilePath s1 d) = day_content (s1, f1) d" by metis
  have "disk f' (Store_FilePath s0 d) = day_content (s0, f0) d @ lines_of_day (wr @ clocked s0 clock queue) d"
    if "dashed d" for d
    using cl(2) dr(4) inv(7) that same_config_simps(1) [OF cfg(1)] clk by simp
  moreover have "map snd (clocked s0 clock queue) = queue" by (simp add: clocked_def)
  ultimately show ?thesis using inv cl(1) by auto
qed

lemma demo_async:
  "store_ok (demo_store [WithAsync 2], demo_fs)" "st_ch (demo_store [WithAsync 2]) = Some []"
  "\<not> st_once (demo_store [WithAsync 2])" "asyncSize (st_opts (demo_store [WithAsync 2])) = 2"
proof -
  show "store_ok (demo_store [WithAsync 2], demo_fs)"
    using New_store_ok [OF demo_New(1) [of "[WithAsync 2]"] _ _ demo_plain] empty_plain demo_New
    by (simp add: empty_fs_def)
qed (simp_all add: demo_store_def jsonl_New_def demo_MkdirAll Let_def WithAsync_def)

theorem jsonl_async_delivers_witness:
  "\<exists>sf'. async_run (demo_store [WithAsync 2], demo_fs) [''a'' @ [nl]] [] sf'
     \<and> fst (Store_Close (\<lambda>_. 0) sf') = None"
proof -
  let ?s = "demo_store [WithAsync 2]"
  have "Store_Append 0 (Inr ''a'') (?s, demo_fs) = (None, ?s\<lparr>st_ch := Some [''a'' @ [nl]]\<rparr>, demo_fs)"
    by (simp add: Store_Append_def demo_async)
  then have run: "async_run (?s, demo_fs) [''a'' @ [nl]] [] (?s\<lparr>st_ch := Some [''a'' @ [nl]]\<rparr>, demo_fs)"
    using async_accept [OF async_start] by fastforce
  from jsonl_async_delivers [OF run demo_async(1-3), of "\<lambda>_. 0"] obtain s' f' where
    "Store_Close (\<lambda>_. 0) (?s\<lparr>st_ch := Some [''a'' @ [nl]]\<rparr>, demo_fs) = (None, s', f')"
    by (auto simp: demo_async)
  with run show ?thesis by (intro exI conjI) (assumption, simp)
qed

text \<open>A refused line changes nothing.\<close>

lemma Append_refused:
  "Store_Append now r (s, f) = (Some e, sf') \<Longrightarrow> st_ch s \<noteq> None \<Longrightarrow> sf' = (s, f)"
  by (auto simp: Store_Append_def Let_def split: sum.splits if_splits)

end
