(* ===== verification/Jsonl_Retain.thy ===== *)
theory Jsonl_Retain
  imports Jsonl_Store Go_Glob
begin

text \<open>
  Retention and day ranges of package jsonl (src/jsonl/retain.go): the days between two moments and
  the removal of day files older than a number of days. \<open>filepath.Glob\<close> is modelled for patterns of
  literal characters, \<open>?\<close> and \<open>*\<close> in the last element; directories and namings with character
  classes or escapes are outside the model.
\<close>

subsection \<open>Days in a range\<close>

text \<open>The loop of \<open>daysInRange\<close>; \<open>None\<close> is a loop that does not end.\<close>

partial_function (option) days_loop :: "location \<Rightarrow> int \<Rightarrow> int \<Rightarrow> string list option" where
  "days_loop loc end_t d =
     (if end_t < d then Some []
      else Option.bind (days_loop loc end_t (time_AddDays loc 1 d)) (\<lambda>ds. Some (time_Format loc d # ds)))"

definition daysInRange :: "location \<Rightarrow> int \<Rightarrow> int \<Rightarrow> location option \<Rightarrow> string list option" where
  "daysInRange tlocal fromUnix toUnix loc_opt =
     (let loc = (case loc_opt of None \<Rightarrow> tlocal | Some l \<Rightarrow> l);
          to' = (if toUnix < fromUnix then fromUnix else toUnix);
          start = time_Date loc (local_day loc fromUnix) 0;
          end_t = time_Date loc (local_day loc to') 0
      in days_loop loc end_t start)"

text \<open>The offsets of a location stay within one day of each other.\<close>

definition offset_span :: "location \<Rightarrow> bool" where
  "offset_span loc \<longleftrightarrow> (\<forall>t t'. loc t' - loc t < 86400)"

lemma midnight_time:
  assumes "has_midnight loc day"
  shows "time_Date loc day 0 + loc (time_Date loc day 0) = day * 86400"
proof -
  let ?t = "time_Date loc day 0"
  have "(?t + loc ?t) div 86400 * 86400 + (?t + loc ?t) mod 86400 = ?t + loc ?t" by simp
  with assms show ?thesis by (simp add: has_midnight_def local_day_def local_secs_def)
qed

lemma midnight_less:
  assumes "offset_span loc" "has_midnight loc a" "has_midnight loc b" "a < b"
  shows "time_Date loc a 0 < time_Date loc b 0"
proof -
  have "loc (time_Date loc b 0) - loc (time_Date loc a 0) < 86400"
    using assms(1) by (simp add: offset_span_def)
  with midnight_time [OF assms(2)] midnight_time [OF assms(3)] assms(4) show ?thesis by linarith
qed

lemma midnight_le_iff:
  assumes "offset_span loc" "has_midnight loc a" "has_midnight loc b"
  shows "time_Date loc a 0 \<le> time_Date loc b 0 \<longleftrightarrow> a \<le> b"
  using midnight_less [OF assms(1)] assms(2,3) by (metis linorder_not_less order_le_less order_less_asym)

lemma days_loop_days:
  assumes span: "offset_span loc" and mid: "\<And>d. a \<le> d \<Longrightarrow> d \<le> b + 1 \<Longrightarrow> has_midnight loc d"
    and b: "has_midnight loc b" and "a \<le> b + 1"
  shows "days_loop loc (time_Date loc b 0) (time_Date loc a 0) = Some (map (\<lambda>d. format_date (date_of_day d)) [a..b])"
  using mid assms(4)
proof (induction "nat (b + 1 - a)" arbitrary: a)
  case 0
  then have a: "a = b + 1" by simp
  have "time_Date loc b 0 < time_Date loc a 0"
    using midnight_less [OF span b] 0 a by simp
  then show ?case by (simp add: days_loop.simps a)
next
  case (Suc n)
  then have ab: "a \<le> b" by linarith
  have "time_AddDays loc 1 (time_Date loc a 0) = time_Date loc (a + 1) 0"
    using Suc.prems ab by (simp add: AddDays_midnight)
  moreover have "days_loop loc (time_Date loc b 0) (time_Date loc (a + 1) 0)
      = Some (map (\<lambda>d. format_date (date_of_day d)) [a + 1..b])"
    using Suc ab by simp
  moreover have "\<not> time_Date loc b 0 < time_Date loc a 0"
    using midnight_le_iff [OF span _ b, of a] Suc.prems ab by (simp add: not_less)
  moreover have "[a..b] = a # [a + 1..b]" using ab by (rule upto_rec1)
  ultimately show ?case using Suc.prems ab
    by (subst days_loop.simps) (simp add: Format_midnight)
qed

lemma days_in_range:
  assumes "offset_span loc" "fromUnix \<le> toUnix" "local_day loc fromUnix \<le> local_day loc toUnix"
    "\<And>d. local_day loc fromUnix \<le> d \<Longrightarrow> d \<le> local_day loc toUnix + 1 \<Longrightarrow> has_midnight loc d"
  shows "daysInRange tlocal fromUnix toUnix (Some loc) =
    Some (map (\<lambda>d. format_date (date_of_day d)) [local_day loc fromUnix..local_day loc toUnix])"
  using days_loop_days [OF assms(1), of "local_day loc fromUnix" "local_day loc toUnix"] assms(2-)
  by (simp add: daysInRange_def)

text \<open>
  C8. \<open>daysInRange\<close> ends and lists every calendar day from the day of \<open>fromUnix\<close> to the day of \<open>toUnix\<close>,
  each once and in order, in every location whose offsets stay within a day of each other and where
  none of those days (nor the one after) has its midnight skipped.
\<close>

theorem daysInRange_all_days:
  assumes "offset_span loc" "fromUnix \<le> toUnix" "local_day loc fromUnix \<le> local_day loc toUnix"
    "\<And>d. local_day loc fromUnix \<le> d \<Longrightarrow> d \<le> local_day loc toUnix + 1 \<Longrightarrow> has_midnight loc d"
  shows "daysInRange tlocal fromUnix toUnix (Some loc) =
    Some (map (\<lambda>d. format_date (date_of_day d)) [local_day loc fromUnix..local_day loc toUnix])"
  using assms by (rule days_in_range)

theorem daysInRange_all_days_witness:
  "daysInRange (\<lambda>_. 0) 86399 86400 (Some (\<lambda>_. 0)) = Some [''1970-01-01'', ''1970-01-02'']"
proof -
  have "daysInRange (\<lambda>_. 0) 86399 86400 (Some (\<lambda>_. 0)) =
      Some (map (\<lambda>d. format_date (date_of_day d)) [local_day (\<lambda>_. 0) 86399..local_day (\<lambda>_. 0) 86400])"
    by (rule daysInRange_all_days) (simp_all add: offset_span_def has_midnight_fixed local_day_def)
  moreover have "format_date (date_of_day 0) = ''1970-01-01''" "format_date (date_of_day 1) = ''1970-01-02''"
    using demo_days(1) [of 0] demo_days(2) [of 86400] by (simp_all add: time_Format_def local_day_def)
  moreover have "[0..1] = [0, 1::int]" by (simp add: upto_rec1)
  ultimately show ?thesis by (simp add: local_day_def)
qed

subsection \<open>Removing old files\<close>

fun remove_all :: "(string \<Rightarrow> bool) \<Rightarrow> string list \<Rightarrow> fs \<Rightarrow> go_error list \<times> fs" where
  "remove_all old [] f = ([], f)"
| "remove_all old (path # paths) f =
     (if \<not> old path then remove_all old paths f
      else case os_Remove path f of
             (Inl e, f1) \<Rightarrow> (case remove_all old paths f1 of (errs, f2) \<Rightarrow> (Wrapf (''remove '' @ path) e # errs, f2))
           | (Inr _, f1) \<Rightarrow> remove_all old paths f1)"

text \<open>The test of the loop body: the date inside a matching path is not after the cutoff.\<close>

definition is_old :: "Naming \<Rightarrow> string \<Rightarrow> string \<Rightarrow> bool" where
  "is_old naming cutoffDate path =
     (let base = filepath_Base path;
          mid0 = strings_TrimSuffix base (nm_Suffix naming);
          mid = (if nm_Prefix naming \<noteq> [] then strings_TrimPrefix mid0 (nm_Prefix naming @ nm_Sep naming) else mid0)
      in \<not> (length mid \<noteq> 10 \<or> cutoffDate < mid))"

definition CleanOlderThan :: "location \<Rightarrow> int \<Rightarrow> string \<Rightarrow> Naming \<Rightarrow> int \<Rightarrow> fs \<Rightarrow> go_error list \<times> fs" where
  "CleanOlderThan tlocal now dir naming retainDays f =
     (if retainDays \<le> 0 then ([], f)
      else
        let cutoffDate = time_Format tlocal (time_AddDays tlocal (- retainDays) now);
            pattern = filepath_Join [dir, nm_Prefix naming @ nm_Sep naming @ ''????-??-??'' @ nm_Suffix naming]
        in
        case filepath_Glob pattern f of
          Inl err \<Rightarrow> ([Wrapf (''jsonl: glob '' @ pattern) err], f)
        | Inr matches \<Rightarrow> remove_all (is_old naming cutoffDate) matches f)"

text \<open>Removing plain files at different places removes exactly those.\<close>

lemma remove_all_files:
  assumes "faults f = (\<lambda>_. None)" "distinct (map path_key paths)"
    "\<And>p. p \<in> set paths \<Longrightarrow> old p \<Longrightarrow> \<exists>c m. node_at f p = Some (RegFile c m)"
  shows "\<exists>f'. remove_all old paths f = ([], f') \<and>
    (\<forall>k. node_of f' k = (if k \<in> path_key ` {p \<in> set paths. old p} then None else node_of f k))"
  using assms
proof (induction paths arbitrary: f)
  case (Cons p ps)
  show ?case
  proof (cases "old p")
    case True
    then obtain c m where "node_at f p = Some (RegFile c m)" using Cons.prems(3) [of p] by auto
    then obtain f1 where f1: "os_Remove p f = (Inr (), f1)" "faults f1 = (\<lambda>_. None)"
      "\<And>k. node_of f1 k = (if k = path_key p then None else node_of f k)"
      using Remove_file [OF Cons.prems(1)] by metis
    have "\<exists>c m. node_at f1 q = Some (RegFile c m)" if "q \<in> set ps" "old q" for q
    proof -
      have "path_key q \<noteq> path_key p" using Cons.prems(2) that(1) by (auto simp: image_iff)
      then show ?thesis using Cons.prems(3) [of q] that f1(3) [of "path_key q"] by (simp add: node_at_def)
    qed
    from Cons.IH [OF f1(2) _ this] Cons.prems(2) obtain f2 where f2: "remove_all old ps f1 = ([], f2)"
      "\<forall>k. node_of f2 k = (if k \<in> path_key ` {p \<in> set ps. old p} then None else node_of f1 k)" by auto
    have "node_of f2 k = (if k \<in> path_key ` {x \<in> set (p # ps). old x} then None else node_of f k)" for k
      using spec [OF f2(2), of k] f1(3) [of k] True by (cases "k = path_key p") auto
    then show ?thesis using True f1(1) f2(1) by auto
  next
    case False
    have "{x \<in> set (p # ps). old x} = {x \<in> set ps. old x}" using False by auto
    moreover have "remove_all old (p # ps) f = remove_all old ps f" using False by simp
    moreover have "distinct (map path_key ps)" using Cons.prems(2) by simp
    ultimately show ?thesis using Cons.IH [OF Cons.prems(1)] Cons.prems(3) by simp
  qed
qed simp

subsection \<open>The pattern and the names it matches\<close>

abbreviation literal :: "string \<Rightarrow> bool" where
  "literal s \<equiv> \<not> has_meta s"

lemma literal_iff: "literal s \<longleftrightarrow> CHR ''*'' \<notin> set s \<and> CHR ''?'' \<notin> set s \<and> simple_pattern s"
  by (auto simp: has_meta_def simple_pattern_def)

lemma simple_match_Nil [simp]: "simple_match [] s \<longleftrightarrow> s = []"
  by (simp add: simple_match_def)

lemma simple_match_Cons:
  "simple_match (p # ps) s \<longleftrightarrow>
     (if p = CHR ''*'' then
        (simple_match ps s \<or> (case s of [] \<Rightarrow> False | c # cs \<Rightarrow> c \<noteq> slash \<and> simple_match (p # ps) cs))
      else (case s of [] \<Rightarrow> False
            | c # cs \<Rightarrow> (if p = CHR ''?'' then c \<noteq> slash else c = p) \<and> simple_match ps cs))"
  by (cases s) (simp_all add: simple_match_def simple_elem_def)

lemma Match_char:
  "p \<noteq> CHR ''*'' \<Longrightarrow> simple_match (p # ps) (c # cs) \<longleftrightarrow>
     (if p = CHR ''?'' then c \<noteq> slash else c = p) \<and> simple_match ps cs"
  "p \<noteq> CHR ''*'' \<Longrightarrow> \<not> simple_match (p # ps) []"
  by (simp_all add: simple_match_Cons)

lemma Match_append:
  "CHR ''*'' \<notin> set ps \<Longrightarrow> simple_match (ps @ qs) s \<longleftrightarrow>
     (\<exists>d t. s = d @ t \<and> simple_match ps d \<and> simple_match qs t)"
proof (induction ps arbitrary: s)
  case (Cons p ps)
  then have p: "p \<noteq> CHR ''*''" by auto
  show ?case
  proof (cases s)
    case Nil
    then show ?thesis using p by (auto simp: Match_char)
  next
    case (Cons c cs)
    have "(\<exists>d t. c # cs = d @ t \<and> simple_match (p # ps) d \<and> simple_match qs t) \<longleftrightarrow>
        (\<exists>d t. cs = d @ t \<and> simple_match (p # ps) (c # d) \<and> simple_match qs t)"
      using Match_char(2) [OF p] by (auto simp: Cons_eq_append_conv)
    then show ?thesis using Cons Cons.IH [of cs] Cons.prems p by (simp add: Match_char) blast
  qed
qed simp

lemma Match_literal: "literal l \<Longrightarrow> simple_match l s \<longleftrightarrow> s = l"
proof (induction l arbitrary: s)
  case (Cons c l)
  then have c: "c \<noteq> CHR ''*''" "c \<noteq> CHR ''?''" "literal l" by (auto simp: literal_iff)
  show ?case using Cons.IH [OF c(3)] Match_char [OF c(1)] c(2) by (cases s) simp_all
qed simp

text \<open>The names \<open>CleanOlderThan\<close> considers: prefix, separator, ten characters with two dashes, suffix.\<close>

lemma Match_pattern:
  assumes "literal pre" "literal suf"
  shows "simple_match (pre @ ''????-??-??'' @ suf) s \<longleftrightarrow>
    (\<exists>d. s = pre @ d @ suf \<and> simple_match ''????-??-??'' d)"
proof -
  have "simple_match (pre @ ''????-??-??'' @ suf) s \<longleftrightarrow>
      (\<exists>x d t. s = x @ d @ t \<and> simple_match pre x \<and> simple_match ''????-??-??'' d \<and> simple_match suf t)"
    using assms(1) by (subst Match_append, simp add: literal_iff, subst Match_append, simp, blast)
  then show ?thesis using assms by (simp add: Match_literal)
qed

lemma Match_date_dashed:
  assumes "simple_match ''????-??-??'' d"
  shows "dashed d" "length d = 10"
  using assms by (auto simp: dashed_def Match_char neq_Nil_conv simple_match_Cons split: list.splits)

lemma Match_any: "simple_match (replicate n (CHR ''?'')) s \<longleftrightarrow> length s = n \<and> slash \<notin> set s"
proof (induction n arbitrary: s)
  case (Suc n)
  then show ?case by (cases s) (auto simp: Match_char)
qed auto

lemma Match_format_date:
  assumes "valid_date a" "four_digit_year a"
  shows "simple_match ''????-??-??'' (format_date a)"
proof -
  let ?y = "zpad 4 (nat (date_year a))" and ?m = "zpad 2 (nat (date_month a))" and ?d = "zpad 2 (nat (date_day a))"
  have plain: "slash \<notin> set (zpad w n)" for w n
    using zpad_digits [of w n] by (auto simp: list_all_iff is_digit_def)
  have "length ?y = 4" "length ?m = 2" "length ?d = 2"
    using assms valid_date_bounds [of a] by (auto simp: four_digit_year_def intro!: zpad_length)
  then have m: "simple_match (replicate 4 (CHR ''?'')) ?y" "simple_match (replicate 2 (CHR ''?'')) ?m"
    "simple_match (replicate 2 (CHR ''?'')) ?d"
    using plain by (simp_all only: Match_any simp_thms)
  have dash: "simple_match ''-'' ''-''" by (simp add: Match_char)
  have app: "simple_match (ps @ qs) (s @ t)" if "simple_match ps s" "simple_match qs t" "CHR ''*'' \<notin> set ps"
    for ps qs s t using that Match_append by blast
  have "simple_match (replicate 4 (CHR ''?'') @ ''-'' @ replicate 2 (CHR ''?'') @ ''-'' @ replicate 2 (CHR ''?''))
      (?y @ ''-'' @ ?m @ ''-'' @ ?d)"
    by (intro app m dash) simp_all
  then show ?thesis using assms by (simp add: format_date_zpad numeral_eq_Suc)
qed

text \<open>What the glob of a literal naming finds: the existing files with a date-shaped middle.\<close>

abbreviation day_path :: "string \<Rightarrow> Naming \<Rightarrow> string \<Rightarrow> string" where
  "day_path dir naming d \<equiv> filepath_Join [dir, Naming_FileName naming d]"

definition cleanable :: "Naming \<Rightarrow> bool" where
  "cleanable n \<longleftrightarrow> plain_naming n \<and> literal (nm_Prefix n) \<and> literal (nm_Sep n) \<and> literal (nm_Suffix n)
     \<and> (nm_Prefix n = [] \<longrightarrow> nm_Sep n = [])"

lemma cleanable_name:
  "cleanable n \<Longrightarrow> Naming_FileName n d = nm_Prefix n @ nm_Sep n @ d @ nm_Suffix n"
  by (auto simp: cleanable_def Naming_FileName_def)

lemma day_path_key:
  assumes "dir \<noteq> []" "plain_naming n" "dashed d"
  shows "path_key (day_path dir n d) = (fst (path_key dir), snd (path_key dir) @ [Naming_FileName n d])"
  using path_key_name [OF assms(1)] FileName_elem [OF assms(2,3)] by simp

lemma is_old_day:
  assumes "dir \<noteq> []" "cleanable n" "simple_match ''????-??-??'' d"
  shows "is_old n cutoff (day_path dir n d) \<longleftrightarrow> d \<le> cutoff"
proof -
  have "elem_ok (Naming_FileName n d)" "Naming_FileName n d \<noteq> ''..''"
    using FileName_elem Match_date_dashed(1) [OF assms(3)] assms(2) by (auto simp: cleanable_def)
  then have base: "filepath_Base (day_path dir n d) = nm_Prefix n @ nm_Sep n @ d @ nm_Suffix n"
    using Base_Dir_Join(1) [OF assms(1)] assms(2) by (simp add: cleanable_name)
  have "nm_Prefix n = [] \<Longrightarrow> nm_Sep n = []" using assms(2) by (simp add: cleanable_def)
  then show ?thesis using Match_date_dashed(2) [OF assms(3)]
    by (auto simp: is_old_def base strings_TrimSuffix_def strings_TrimPrefix_def not_less suffix_def prefix_def)
qed

lemma Glob_day_files:
  assumes "faults f = (\<lambda>_. None)" "dir \<noteq> []" "node_at f dir = Some (Directory m)" "cleanable n" "literal (filepath_Clean dir)"
  obtains ds dir' where "filepath_Glob (filepath_Join [dir, nm_Prefix n @ nm_Sep n @ ''????-??-??'' @ nm_Suffix n]) f
      = Inr (map (day_path dir' n) ds)" "distinct ds" "dir' \<noteq> []" "path_key dir' = path_key dir"
    "\<And>d. d \<in> set ds \<longleftrightarrow> simple_match ''????-??-??'' d \<and> node_at f (day_path dir n d) \<noteq> None"
proof -
  define pat where "pat = nm_Prefix n @ nm_Sep n @ ''????-??-??'' @ nm_Suffix n"
  define dir' where "dir' = filepath_Clean dir"
  define names where "names = filter (simple_match pat)
    (sort (remdups (map (\<lambda>k. last (snd k)) (children (path_key dir) f))))"
  have pat: "CHR ''-'' \<in> set pat" "slash \<notin> set pat" "simple_pattern pat" "has_meta pat"
    using assms(4) literal_simple by (auto simp: pat_def cleanable_def plain_naming_def)
  then have ok: "elem_ok pat" "pat \<noteq> ''..''" by (auto simp: elem_ok_def)
  have key: "path_key dir' = path_key dir" and dir': "dir' \<noteq> []" by (simp_all add: dir'_def)
  have "node_at f dir' = Some (Directory m)" using assms(3) key by (simp add: node_at_def)
  then have "dir_names f dir' = sort (remdups (map (\<lambda>k. last (snd k)) (children (path_key dir) f)))"
    using assms(1) dir' by (simp add: dir_names_def os_Stat_def os_Open_def key)
  with Glob_one_dir [OF assms(2) ok pat(3,4) assms(5), of f]
  have glob: "filepath_Glob (filepath_Join [dir, pat]) f = Inr (map (\<lambda>x. filepath_Join [dir', x]) names)"
    by (simp add: dir'_def names_def)
  define trim where "trim = (\<lambda>x. take 10 (drop (length (nm_Prefix n @ nm_Sep n)) x) :: string)"
  have name: "simple_match pat x \<longleftrightarrow> (\<exists>d. x = Naming_FileName n d \<and> simple_match ''????-??-??'' d)" for x
    using Match_pattern [of "nm_Prefix n @ nm_Sep n" "nm_Suffix n" x] assms(4)
    by (simp add: pat_def cleanable_name) (auto simp: cleanable_def literal_iff)
  have untrim: "trim (Naming_FileName n d) = d" if "simple_match ''????-??-??'' d" for d
    using Match_date_dashed(2) [OF that] assms(4) by (simp add: trim_def cleanable_name)
  have trim: "Naming_FileName n (trim x) = x" if "x \<in> set names" for x
    using that name [of x] untrim by (auto simp: names_def)
  have names: "x \<in> set names \<longleftrightarrow> simple_match pat x \<and> node_of f (fst (path_key dir), snd (path_key dir) @ [x]) \<noteq> None" for x
    unfolding child_names [symmetric] by (auto simp: names_def)
  have found: "filepath_Glob (filepath_Join [dir, nm_Prefix n @ nm_Sep n @ ''????-??-??'' @ nm_Suffix n]) f
      = Inr (map (day_path dir' n) (map trim names))"
    using trim glob by (simp add: pat_def)
  have "distinct names" by (simp add: names_def)
  then have dist: "distinct (map trim names)"
    unfolding distinct_map using trim by (metis inj_onI)
  have "d \<in> set (map trim names) \<longleftrightarrow> simple_match ''????-??-??'' d \<and> node_at f (day_path dir n d) \<noteq> None" for d
  proof -
    have "d \<in> set (map trim names) \<longleftrightarrow> simple_match ''????-??-??'' d \<and> Naming_FileName n d \<in> set names"
    proof
      assume "d \<in> set (map trim names)"
      then obtain x where "x \<in> set names" "d = trim x" by auto
      then show "simple_match ''????-??-??'' d \<and> Naming_FileName n d \<in> set names"
        using names [of x] name [of x] untrim trim by fastforce
    next
      assume "simple_match ''????-??-??'' d \<and> Naming_FileName n d \<in> set names"
      then show "d \<in> set (map trim names)" using untrim [of d] by force
    qed
    then show ?thesis
      using names [of "Naming_FileName n d"] name [of "Naming_FileName n d"] Match_date_dashed(1) [of d]
        day_path_key [OF assms(2), of n d] assms(4) by (auto simp: cleanable_def node_at_def)
  qed
  with found dist dir' key show thesis by (rule that)
qed

text \<open>Which files \<open>CleanOlderThan\<close> removes, as paths: those of the days that are there and not after the cutoff.\<close>

lemma CleanOlderThan_removes:
  assumes fl: "faults f = (\<lambda>_. None)" and dir: "dir \<noteq> []" "node_at f dir = Some (Directory m)"
    and n: "cleanable n" "literal (filepath_Clean dir)" and r: "retainDays > 0"
    and plain: "\<And>d. dashed d \<Longrightarrow> plain_node (node_at f (day_path dir n d))"
    and cutoff: "c = format_date (date_of_day (local_day tlocal (time_AddDays tlocal (- retainDays) now)))"
  obtains f' ds where "CleanOlderThan tlocal now dir n retainDays f = ([], f')"
    and "\<And>d. d \<in> set ds \<longleftrightarrow> simple_match ''????-??-??'' d \<and> node_at f (day_path dir n d) \<noteq> None"
    and "\<And>k. node_of f' k = (if k \<in> {path_key (day_path dir n d) |d. d \<in> set ds \<and> d \<le> c} then None else node_of f k)"
proof -
  obtain ds dir' where g: "filepath_Glob (filepath_Join [dir, nm_Prefix n @ nm_Sep n @ ''????-??-??'' @ nm_Suffix n]) f
      = Inr (map (day_path dir' n) ds)" and ds: "distinct ds" and dir': "dir' \<noteq> []" "path_key dir' = path_key dir"
    and in_ds: "\<And>d. d \<in> set ds \<longleftrightarrow> simple_match ''????-??-??'' d \<and> node_at f (day_path dir n d) \<noteq> None"
    by (rule Glob_day_files [OF fl dir n]) blast
  let ?paths = "map (day_path dir' n) ds"
  have pn: "plain_naming n" using n(1) by (simp add: cleanable_def)
  have dashed: "dashed d" if "d \<in> set ds" for d using that in_ds Match_date_dashed(1) by blast
  have key: "path_key (day_path dir' n d) = path_key (day_path dir n d)" if "d \<in> set ds" for d
    using day_path_key pn dashed [OF that] dir(1) dir' by simp
  have dist: "distinct (map path_key ?paths)"
    using ds dashed key day_path_key [OF dir(1) pn] pn by (auto simp: distinct_map FileName_inj intro!: inj_onI)
  have regular: "\<exists>c m. node_at f p = Some (RegFile c m)" if "p \<in> set ?paths" for p
  proof -
    from that obtain d where d: "d \<in> set ds" "p = day_path dir' n d" by auto
    then have "node_at f p = node_at f (day_path dir n d)" "node_at f (day_path dir n d) \<noteq> None"
      using key in_ds by (auto simp: node_at_def)
    with plain [of d] dashed [OF d(1)] show ?thesis
      by (auto simp: plain_node_def split: option.splits node.splits)
  qed
  obtain f' where run: "remove_all (is_old n c) ?paths f = ([], f')"
    and gone: "\<forall>k. node_of f' k = (if k \<in> path_key ` {p \<in> set ?paths. is_old n c p} then None else node_of f k)"
    using remove_all_files [OF fl dist, of "is_old n c"] regular by blast
  have clean: "CleanOlderThan tlocal now dir n retainDays f = ([], f')"
    using r run by (simp add: CleanOlderThan_def Let_def time_Format_def cutoff [symmetric] g [simplified])
  have "{p \<in> set ?paths. is_old n c p} = day_path dir' n ` {d \<in> set ds. d \<le> c}"
    using is_old_day [OF dir'(1) n(1)] in_ds by auto
  then have "path_key ` {p \<in> set ?paths. is_old n c p} = (\<lambda>d. path_key (day_path dir n d)) ` {d \<in> set ds. d \<le> c}"
    using key by (simp add: image_image cong: image_cong_simp)
  then have old: "path_key ` {p \<in> set ?paths. is_old n c p} = {path_key (day_path dir n d) |d. d \<in> set ds \<and> d \<le> c}" by blast
  have "node_of f' k = (if k \<in> {path_key (day_path dir n d) |d. d \<in> set ds \<and> d \<le> c} then None else node_of f k)" for k
    using spec [OF gone, of k] unfolding old .
  with clean in_ds show thesis by (rule that)
qed


definition demo_retain_fs :: fs where
  "demo_retain_fs = put_node (False, [''log'', ''app-1970-01-01.jsonl'']) (RegFile ''x'' 420)
     (put_node (False, [''log'', ''app-1970-01-02.jsonl'']) (RegFile ''y'' 420) demo_fs)"

lemma demo_log_key: "path_key ''log'' = (False, [''log''])"
  by (simp add: path_key_def path_elems_def filepath_IsAbs_def)

lemma demo_retain_plain: "dashed d \<Longrightarrow> plain_node (node_at demo_retain_fs (day_path ''log'' demo_naming d))"
  using day_path_key [of "''log''" demo_naming d] demo_plain demo_log_key
  by (simp add: demo_retain_fs_def demo_fs_def node_at_put node_of_put plain_node_def empty_fs_def)
    (simp add: node_at_def node_of_def)


subsection \<open>Namings without a prefix\<close>

lemma Remove_other: "os_Remove p f = (r, f') \<Longrightarrow> k \<noteq> path_key p \<Longrightarrow> node_of f' k = node_of f k"
  by (auto simp: os_Remove_def node_of_def delete_conv' split: option.splits if_splits)

lemma remove_all_other:
  "k \<notin> path_key ` set paths \<Longrightarrow> node_of (snd (remove_all old paths f)) k = node_of f k"
proof (induction paths arbitrary: f)
  case (Cons p ps)
  have "node_of (snd (os_Remove p f)) k = node_of f k"
    using Remove_other [of p f _ _ k] Cons.prems by (metis image_eqI list.set_intros(1) prod.collapse)
  then show ?case using Cons by (auto split: prod.splits sum.splits) (metis snd_conv)
qed simp

text \<open>
  Without a prefix but with a separator, \<open>CleanOlderThan\<close> never removes a file of the store: its
  pattern starts with the separator, which \<open>FileName\<close> leaves out, so old files stay for ever.
\<close>

theorem CleanOlderThan_misses_unprefixed:
  assumes n: "nm_Prefix n = []" "nm_Sep n \<noteq> []" "plain_naming n" "literal (nm_Sep n)" "literal (nm_Suffix n)"
    and dir: "dir \<noteq> []" "literal (filepath_Clean dir)" and d: "dashed d" "length d = 10"
  shows "node_at (snd (CleanOlderThan tlocal now dir n retainDays f)) (day_path dir n d) = node_at f (day_path dir n d)"
proof -
  define pat where "pat = nm_Sep n @ ''????-??-??'' @ nm_Suffix n"
  define dir' where "dir' = filepath_Clean dir"
  have pat: "CHR ''-'' \<in> set pat" "slash \<notin> set pat" "simple_pattern pat" "has_meta pat"
    using n(3-5) literal_simple by (auto simp: pat_def plain_naming_def)
  then have ok: "elem_ok pat" "pat \<noteq> ''..''" by (auto simp: elem_ok_def)
  have key: "path_key dir' = path_key dir" and dir': "dir' \<noteq> []" by (simp_all add: dir'_def)
  have miss: "path_key (filepath_Join [dir', x]) \<noteq> path_key (day_path dir n d)" if match: "simple_match pat x" for x
  proof -
    obtain e where x: "x = nm_Sep n @ e @ nm_Suffix n" "simple_match ''????-??-??'' e"
      using match Match_pattern [OF n(4,5), of x] unfolding pat_def by blast
    note e = Match_date_dashed [OF x(2)]
    have "CHR ''-'' \<in> set x" "slash \<notin> set x" using e n(3) x(1) by (auto simp: dashed_def plain_naming_def)
    then have "elem_ok x" "x \<noteq> ''..''" by (auto simp: elem_ok_def)
    from path_key_name [OF dir' this] have "snd (path_key (filepath_Join [dir', x])) = snd (path_key dir) @ [x]"
      using key by simp
    moreover have "x \<noteq> Naming_FileName n d"
      using n(1,2) d(2) e(2) x(1) by (auto simp: Naming_FileName_def dest!: arg_cong [where f = length])
    ultimately show ?thesis using day_path_key [OF dir(1) n(3) d(1)] by (auto simp: prod_eq_iff)
  qed
  have g: "filepath_Glob (filepath_Join [dir, pat]) f
      = Inr (map (\<lambda>x. filepath_Join [dir', x]) (filter (simple_match pat) (dir_names f dir')))"
    unfolding dir'_def by (rule Glob_one_dir [OF dir(1) ok pat(3,4) dir(2)])
  have "path_key (day_path dir n d) \<notin> path_key ` set (map (\<lambda>x. filepath_Join [dir', x]) (filter (simple_match pat) (dir_names f dir')))"
    using miss by auto (metis miss)
  from remove_all_other [OF this] show ?thesis
    using n(1) g by (simp add: CleanOlderThan_def Let_def node_at_def pat_def)
qed

theorem CleanOlderThan_misses_unprefixed_witness:
  "\<forall>f. node_at (snd (CleanOlderThan (\<lambda>_. 0) 864000 ''log'' \<lparr>nm_Prefix = [], nm_Sep = ''-'', nm_Suffix = ''.log''\<rparr> 1 f))
     (day_path ''log'' \<lparr>nm_Prefix = [], nm_Sep = ''-'', nm_Suffix = ''.log''\<rparr> ''1970-01-01'')
   = node_at f (day_path ''log'' \<lparr>nm_Prefix = [], nm_Sep = ''-'', nm_Suffix = ''.log''\<rparr> ''1970-01-01'')"
  by (intro allI, rule CleanOlderThan_misses_unprefixed) (simp_all add: plain_naming_def has_meta_def dashed_def demo_log_key filepath_Clean_def)

subsection \<open>Directories with pattern characters\<close>

text \<open>
  The directory is part of the pattern. Cleaning a directory whose name has brackets removes nothing there,
  and removes the old files of another directory, whose name the brackets match.
\<close>

definition demo_bracket_fs :: fs where
  "demo_bracket_fs = \<lparr>nodes = [((False, [''l1'']), Directory 493), ((False, [''l[1]'']), Directory 493),
     ((False, [''l1'', ''app-1970-01-01.jsonl'']), RegFile ''x'' 420),
     ((False, [''l[1]'', ''app-1970-01-01.jsonl'']), RegFile ''y'' 420)], faults = (\<lambda>_. None)\<rparr>"

lemma demo_bracket_glob:
  "glob_limit (Suc (Suc n)) (filepath_Join [''l[1]'', ''app-????-??-??.jsonl'']) demo_bracket_fs = Inr [''l1/app-1970-01-01.jsonl'']"
  by code_simp

theorem CleanOlderThan_brackets:
  "\<exists>f'. CleanOlderThan (\<lambda>_. 0) 86400 ''l[1]'' demo_naming 1 demo_bracket_fs = ([], f')
    \<and> node_at f' ''l1/app-1970-01-01.jsonl'' = None \<and> node_at f' ''l[1]/app-1970-01-01.jsonl'' = Some (RegFile ''y'' 420)"
proof -
  let ?p = "''l1/app-1970-01-01.jsonl''"
  have keys: "path_key ?p = (False, [''l1'', ''app-1970-01-01.jsonl''])"
    "path_key ''l[1]/app-1970-01-01.jsonl'' = (False, [''l[1]'', ''app-1970-01-01.jsonl''])" by code_simp+
  have cut: "time_Format (\<lambda>_. 0) (time_AddDays (\<lambda>_. 0) (- 1) 86400) = ''1970-01-01''"
    using demo_days(1) [of 0] by (simp add: time_Format_def time_AddDays_def time_Date_def local_secs_def local_day_def)
  have old: "is_old demo_naming ''1970-01-01'' ?p" by code_simp
  have "filepath_Glob (filepath_Join [''l[1]'', ''app-????-??-??.jsonl'']) demo_bracket_fs = Inr [?p]"
    using demo_bracket_glob [of 9998] by (simp add: filepath_Glob_def)
  moreover have at: "node_at demo_bracket_fs ?p = Some (RegFile ''x'' 420)" "faults demo_bracket_fs = (\<lambda>_. None)"
    by (simp_all add: node_at_def keys node_of_def demo_bracket_fs_def)
  obtain f' where f': "os_Remove ?p demo_bracket_fs = (Inr (), f')" "\<And>k. node_of f' k = (if k = path_key ?p then None else node_of demo_bracket_fs k)"
    using Remove_file [OF at(2,1)] by metis
  ultimately have "CleanOlderThan (\<lambda>_. 0) 86400 ''l[1]'' demo_naming 1 demo_bracket_fs = ([], f')"
    using cut old by (simp add: CleanOlderThan_def Let_def demo_naming_def)
  moreover have "node_of demo_bracket_fs (False, [''l[1]'', ''app-1970-01-01.jsonl'']) = Some (RegFile ''y'' 420)"
    by (simp add: node_of_def demo_bracket_fs_def)
  ultimately show ?thesis by (intro exI [of _ f']) (simp add: node_at_def keys f'(2))
qed

end
