(* ===== verification/Logman.thy ===== *)
theory Logman
  imports Go_OS
begin

text \<open>
  Logging (src/logman) and the end of the process (src/signal/handler.go). slog's handler, lumberjack's files
  and the formatting of messages are the environment: a log call is an action with its level, message and
  attributes, and the writer it goes to. A callback is known by a number.
\<close>

subsection \<open>The end of the process\<close>

record quit_state =
  qs_callbacks :: "nat list"
  qs_listening :: bool

definition OnQuit :: "nat \<Rightarrow> quit_state \<Rightarrow> quit_state" where
  "OnQuit fn s =
     (let s1 = s\<lparr>qs_callbacks := qs_callbacks s @ [fn]\<rparr>
      in if qs_listening s then s1 else s1\<lparr>qs_listening := True\<rparr>)"

datatype log_writer = Stdout | Stderr | Discard | FileLog string | StdoutAndFile string

datatype log_action =
    RunCallback nat
  | LogRecord int string "(string \<times> string) list" log_writer
  | Exit nat

definition CallQuitFuncs :: "quit_state \<Rightarrow> log_action list" where
  "CallQuitFuncs s = map RunCallback (qs_callbacks s)"

text \<open>What the goroutine of \<open>OnQuit\<close> does when the signal comes.\<close>

definition quit_signal :: "quit_state \<Rightarrow> log_action list" where
  "quit_signal s = (if qs_listening s then CallQuitFuncs s @ [Exit 0] else [])"

subsection \<open>Configuration and writers\<close>

record log_Config =
  lc_Level :: string
  lc_Target :: string
  lc_Storage :: string
  lc_Filename :: string

text \<open>A file is lumberjack's: its name and the limits it is rotated by.\<close>

record log_file =
  lf_Filename :: string
  lf_Compress :: bool
  lf_MaxSize :: nat
  lf_MaxBackups :: nat
  lf_MaxAge :: nat

definition FileWriter :: "log_Config \<Rightarrow> string \<Rightarrow> fs \<Rightarrow> log_file \<times> fs" where
  "FileWriter config name f =
     (let p = (if strings_HasPrefix name ''/'' then name @ ''.log'' else filepath_Join [lc_Storage config, name @ ''.log'']);
          d = filepath_Dir p
      in (\<lparr>lf_Filename = p, lf_Compress = True, lf_MaxSize = 100, lf_MaxBackups = 21, lf_MaxAge = 7\<rparr>,
          if d \<noteq> [] \<and> d \<noteq> ''.'' then snd (os_MkdirAll d 493 f) else f))"

definition AutoWriter :: "log_Config \<Rightarrow> string \<Rightarrow> fs \<Rightarrow> log_writer \<times> fs" where
  "AutoWriter config name f =
     (let file_log = FileWriter config name f
      in if lc_Target config = ''file'' then (FileLog (lf_Filename (fst file_log)), snd file_log)
         else if lc_Target config = ''both'' then (StdoutAndFile (lf_Filename (fst file_log)), snd file_log)
         else if lc_Target config = ''null'' then (Discard, f)
         else if lc_Target config = ''stderr'' then (Stderr, f)
         else (Stdout, f))"

text \<open>\<open>slog.Level.UnmarshalText\<close>; on an error the level stays what it was, which is 0.\<close>

definition slog_level :: "string \<Rightarrow> int" where
  "slog_level s =
     (let name = map ascii_upper (takeWhile (\<lambda>c. c \<noteq> CHR ''+'' \<and> c \<noteq> CHR ''-'') s);
          off = dropWhile (\<lambda>c. c \<noteq> CHR ''+'' \<and> c \<noteq> CHR ''-'') s;
          base = map_of [(''DEBUG'', -4), (''INFO'', 0), (''WARN'', 4), (''ERROR'', 8)] name
      in case (base, if off = [] then Some 0 else strconv_Atoi off) of
           (Some b, Some n) \<Rightarrow> wrap64 (b + n)
         | _ \<Rightarrow> 0)"

record slog_Logger =
  sl_Level :: int
  sl_Writer :: log_writer

definition NewLogger :: "log_Config \<Rightarrow> string \<Rightarrow> fs \<Rightarrow> slog_Logger \<times> fs" where
  "NewLogger config name f =
     (case AutoWriter config name f of (w, f1) \<Rightarrow> (\<lparr>sl_Level = slog_level (lc_Level config), sl_Writer = w\<rparr>, f1))"

text \<open>\<open>replaceAttr\<close>: the time is written in one format, and a logger's name without the dots and slashes it begins with.\<close>

definition replaceAttr :: "string \<Rightarrow> string \<times> string \<Rightarrow> string \<times> string" where
  "replaceAttr now a =
     (if fst a = ''time'' then (fst a, now)
      else if fst a = ''Logger'' then (fst a, strings_TrimLeft (snd a) ''./'')
      else a)"

text \<open>\<open>SetDefault\<close> keeps the level, the target and the directory, and makes the default logger.\<close>

definition SetDefault :: "log_Config \<Rightarrow> log_Config \<Rightarrow> fs \<Rightarrow> log_Config \<times> slog_Logger \<times> fs" where
  "SetDefault args config f =
     (let config1 = config\<lparr>lc_Level := lc_Level args, lc_Target := lc_Target args, lc_Storage := lc_Storage args\<rparr>
      in (config1, NewLogger config1 (lc_Filename args) f))"

subsection \<open>Loggers\<close>

text \<open>A record is written when the logger's level lets it through, with its attributes replaced.\<close>

definition slog_Log :: "string \<Rightarrow> slog_Logger \<Rightarrow> int \<Rightarrow> string \<Rightarrow> (string \<times> string) list \<Rightarrow> log_action list" where
  "slog_Log now l level msg args =
     (if sl_Level l \<le> level then [LogRecord level msg (map (replaceAttr now) ((''time'', now) # args)) (sl_Writer l)] else [])"

record log_Logger =
  lg_name :: string
  lg_logger :: slog_Logger
  lg_ctx :: nat

definition NamedWithContext :: "log_Config \<Rightarrow> string \<Rightarrow> nat \<Rightarrow> fs \<Rightarrow> log_Logger \<times> fs" where
  "NamedWithContext config name ctx f =
     (case NewLogger config name f of (l, f1) \<Rightarrow> (\<lparr>lg_name = name, lg_logger = l, lg_ctx = ctx\<rparr>, f1))"

text \<open>The background context is number 0.\<close>

definition Named :: "log_Config \<Rightarrow> string \<Rightarrow> fs \<Rightarrow> log_Logger \<times> fs" where
  "Named config name f = NamedWithContext config name 0 f"

definition WithContext :: "nat \<Rightarrow> log_Logger \<Rightarrow> log_Logger" where
  "WithContext ctx l = l\<lparr>lg_ctx := ctx\<rparr>"

definition Logger_log :: "string \<Rightarrow> log_Logger \<Rightarrow> int \<Rightarrow> string \<Rightarrow> (string \<times> string) list \<Rightarrow> log_action list" where
  "Logger_log now l level msg args = slog_Log now (lg_logger l) level msg ((''Logger'', lg_name l) # args)"

text \<open>The calls of a logger: four levels, each also with a format, and the fatal ones, which end the process.\<close>

datatype log_call =
    CallDebug string "(string \<times> string) list" | CallInfo string "(string \<times> string) list"
  | CallWarn string "(string \<times> string) list" | CallError string "(string \<times> string) list"
  | CallDebugf string | CallInfof string | CallWarnf string | CallErrorf string
  | CallFatal string "(string \<times> string) list" | CallFatalf string

fun Logger_call :: "string \<Rightarrow> quit_state \<Rightarrow> log_Logger \<Rightarrow> log_call \<Rightarrow> log_action list" where
  "Logger_call now q l (CallDebug msg args) = Logger_log now l (-4) msg args"
| "Logger_call now q l (CallDebugf text1) = Logger_log now l (-4) text1 []"
| "Logger_call now q l (CallInfo msg args) = Logger_log now l 0 msg args"
| "Logger_call now q l (CallInfof text1) = Logger_log now l 0 text1 []"
| "Logger_call now q l (CallWarn msg args) = Logger_log now l 4 msg args"
| "Logger_call now q l (CallWarnf text1) = Logger_log now l 4 text1 []"
| "Logger_call now q l (CallError msg args) = Logger_log now l 8 msg args"
| "Logger_call now q l (CallErrorf text1) = Logger_log now l 8 text1 []"
| "Logger_call now q l (CallFatal msg args) = CallQuitFuncs q @ Logger_log now l 8 msg args @ [Exit 1]"
| "Logger_call now q l (CallFatalf text1) = CallQuitFuncs q @ Logger_log now l 8 text1 [] @ [Exit 1]"

text \<open>The functions of the package go to the default logger and add no name.\<close>

fun global_call :: "string \<Rightarrow> quit_state \<Rightarrow> slog_Logger \<Rightarrow> log_call \<Rightarrow> log_action list" where
  "global_call now q d (CallDebug msg args) = slog_Log now d (-4) msg args"
| "global_call now q d (CallDebugf text1) = slog_Log now d (-4) text1 []"
| "global_call now q d (CallInfo msg args) = slog_Log now d 0 msg args"
| "global_call now q d (CallInfof text1) = slog_Log now d 0 text1 []"
| "global_call now q d (CallWarn msg args) = slog_Log now d 4 msg args"
| "global_call now q d (CallWarnf text1) = slog_Log now d 4 text1 []"
| "global_call now q d (CallError msg args) = slog_Log now d 8 msg args"
| "global_call now q d (CallErrorf text1) = slog_Log now d 8 text1 []"
| "global_call now q d (CallFatal msg args) = CallQuitFuncs q @ slog_Log now d 8 msg args @ [Exit 1]"
| "global_call now q d (CallFatalf text1) = CallQuitFuncs q @ slog_Log now d 8 text1 [] @ [Exit 1]"

subsection \<open>Lemmas\<close>

text \<open>The callbacks run in the order in which they were registered, each once per registration.\<close>

lemma quit_order:
  "quit_signal (fold OnQuit fns \<lparr>qs_callbacks = [], qs_listening = False\<rparr>) = (if fns = [] then [] else map RunCallback fns @ [Exit 0])"
proof -
  have "fold OnQuit fns s = s\<lparr>qs_callbacks := qs_callbacks s @ fns, qs_listening := qs_listening s \<or> fns \<noteq> []\<rparr>" for s
    by (induction fns arbitrary: s) (auto simp: OnQuit_def Let_def)
  then show ?thesis by (simp add: quit_signal_def CallQuitFuncs_def)
qed

text \<open>A fatal call ends the process last, whatever the level of the logger, and after every callback.\<close>

lemma fatal_exits: "last (Logger_call now q l (CallFatal msg args)) = Exit 1 \<and> prefix (CallQuitFuncs q) (Logger_call now q l (CallFatal msg args))"
  by (simp add: prefix_def)

text \<open>A record that is logged says which logger it is from, without dots and slashes in front.\<close>

lemma Logger_log_name:
  "Logger_log now l level msg args = [LogRecord lv m attrs w] \<Longrightarrow>
     (''Logger'', strings_TrimLeft (lg_name l) ''./'') \<in> set attrs \<and> lv = level \<and> sl_Level (lg_logger l) \<le> level"
  by (auto simp: Logger_log_def slog_Log_def replaceAttr_def split: if_splits)

text \<open>Levels, one with an offset, and the level of a text that names none.\<close>

lemma levels: "slog_level ''debug'' = -4" "slog_level ''Warn+1'' = 5" "slog_level ''verbose'' = 0" "slog_level [] = 0"
  by code_simp+

lemma absolute_name_ignores_storage:
  "fst (FileWriter c (CHR ''/'' # n) f) = fst (FileWriter c' (CHR ''/'' # n) f)"
  by (simp add: FileWriter_def Let_def)

end
