(* ===== verification/Dborm.thy ===== *)
theory Dborm
  imports Logman
begin

text \<open>
  The database connection (src/dborm): the choice of the driver and its data source name (db.go, driver.go),
  the logger handed to gorm (logger.go) and the check of a sort order (unsafe.go). gorm and its drivers are
  parameters: a dialector is the name that its driver is opened with.
\<close>

subsection \<open>Data source names\<close>

record db_Config =
  dc_Type :: string
  dc_Host :: string
  dc_User :: string
  dc_Password :: string
  dc_DbName :: string
  dc_Option :: string

datatype db_dialector = Sqlite string | Mysql string | Postgres string

text \<open>The error of \<open>MkdirAll\<close> is dropped; 493 is 0755.\<close>

definition useSqlite :: "db_Config \<Rightarrow> fs \<Rightarrow> db_dialector \<times> fs" where
  "useSqlite c f =
     (let dbname = (if dc_Host c \<noteq> [] \<and> \<not> filepath_IsAbs (dc_DbName c) then filepath_Join [dc_Host c, dc_DbName c] else dc_DbName c);
          opt = (if dc_Option c = [] then ''?_pragma=busy_timeout(5000)&_pragma=journal_mode(WAL)'' else dc_Option c)
      in (Sqlite (dbname @ opt), snd (os_MkdirAll (filepath_Dir dbname) 493 f)))"

definition useMysql :: "db_Config \<Rightarrow> db_dialector" where
  "useMysql c =
     (let opt = (if dc_Option c = [] then ''?charset=utf8mb4&parseTime=True&loc=Local'' else dc_Option c)
      in Mysql (dc_User c @ '':'' @ dc_Password c @ ''@tcp('' @ dc_Host c @ '')/'' @ dc_DbName c @ opt))"

definition usePgsql :: "db_Config \<Rightarrow> db_dialector" where
  "usePgsql c =
     (let opt = (if dc_Option c = [] then ''?sslmode=disable&TimeZone=Asia/Shanghai'' else dc_Option c)
      in Postgres (''postgres://'' @ dc_User c @ '':'' @ dc_Password c @ ''@'' @ dc_Host c @ ''/'' @ dc_DbName c @ opt))"

text \<open>\<^const>\<open>Inl\<close> is the fatal log call, with its message and attributes, that ends the process.\<close>

definition dialector :: "db_Config \<Rightarrow> fs \<Rightarrow> (log_call + db_dialector) \<times> fs" where
  "dialector c f =
     (if dc_Type c = ''sqlite'' then (case useSqlite c f of (d, f1) \<Rightarrow> (Inr d, f1))
      else if dc_Type c = ''mysql'' then (Inr (useMysql c), f)
      else if dc_Type c \<in> set [''pgsql'', ''postgres'', ''postgresql''] then (Inr (usePgsql c), f)
      else (Inl (CallFatal ''database type error'' [(''type'', dc_Type c)]), f))"

subsection \<open>The logger\<close>

text \<open>The settings are behind a pointer that the copies of a logger share; the level is kept and never read.\<close>

record db_Logger =
  dl_LogLevel :: int
  dl_SlowThreshold :: int
  dl_IgnoreNotFound :: bool
  dl_logger :: log_Logger

definition db_NewLogger :: "log_Logger \<Rightarrow> db_Logger" where
  "db_NewLogger l = \<lparr>dl_LogLevel = 0, dl_SlowThreshold = 5 * 10 ^ 9, dl_IgnoreNotFound = False, dl_logger = l\<rparr>"

definition db_LogMode :: "int \<Rightarrow> db_Logger \<Rightarrow> db_Logger" where
  "db_LogMode level l = l\<lparr>dl_LogLevel := level\<rparr>"

text \<open>\<open>txt1\<close> is the formatted message.\<close>

definition db_Info :: "string \<Rightarrow> quit_state \<Rightarrow> db_Logger \<Rightarrow> nat \<Rightarrow> string \<Rightarrow> log_action list" where
  "db_Info now q l ctx txt1 = Logger_call now q (WithContext ctx (dl_logger l)) (CallInfo txt1 [])"

definition db_Warn :: "string \<Rightarrow> quit_state \<Rightarrow> db_Logger \<Rightarrow> nat \<Rightarrow> string \<Rightarrow> log_action list" where
  "db_Warn now q l ctx txt1 = Logger_call now q (WithContext ctx (dl_logger l)) (CallWarn txt1 [])"

definition db_Error :: "string \<Rightarrow> quit_state \<Rightarrow> db_Logger \<Rightarrow> nat \<Rightarrow> string \<Rightarrow> log_action list" where
  "db_Error now q l ctx txt1 = Logger_call now q (WithContext ctx (dl_logger l)) (CallError txt1 [])"

text \<open>\<open>not_found\<close> is \<open>errors.Is\<close> with gorm's error, \<open>err_text\<close> and \<open>dur_text\<close> format an error and a duration.\<close>

definition db_Trace :: "(go_error \<Rightarrow> bool) \<Rightarrow> (go_error \<Rightarrow> string) \<Rightarrow> (int \<Rightarrow> string) \<Rightarrow> string \<Rightarrow> quit_state \<Rightarrow> db_Logger \<Rightarrow> nat
    \<Rightarrow> int \<Rightarrow> string \<times> int \<Rightarrow> go_error option \<Rightarrow> log_action list" where
  "db_Trace not_found err_text dur_text now q l ctx elapsed res err =
     (let lg = WithContext ctx (dl_logger l);
          attrs = [(''sql'', fst res), (''rows'', strconv_Itoa (snd res)), (''elapsed'', dur_text elapsed)]
      in if err \<noteq> None \<and> (\<not> not_found (the err) \<or> \<not> dl_IgnoreNotFound l)
         then Logger_call now q lg (CallError ''trace error'' ((''error'', err_text (the err)) # attrs))
         else if elapsed > dl_SlowThreshold l \<and> dl_SlowThreshold l \<noteq> 0
         then Logger_call now q lg (CallWarn (''trace slow sql >= '' @ dur_text (dl_SlowThreshold l)) attrs)
         else Logger_call now q lg (CallInfo ''trace query'' attrs))"

subsection \<open>Connection\<close>

text \<open>The variables of the package, and gorm's default logger once it has been set.\<close>

record 'db db_state =
  ds_DB :: "'db option"
  ds_RawLogger :: "log_Logger option"
  ds_Default :: "db_Logger option"

definition db_logger_init :: "log_Config \<Rightarrow> 'db db_state \<Rightarrow> fs \<Rightarrow> 'db db_state \<times> fs" where
  "db_logger_init config s f =
     (case ds_RawLogger s of
        Some _ \<Rightarrow> (s, f)
      | None \<Rightarrow> (case Named config ''gorm'' f of
                   (raw, f1) \<Rightarrow> (s\<lparr>ds_RawLogger := Some raw, ds_Default := Some (db_NewLogger raw)\<rparr>, f1)))"

text \<open>\<open>gorm_Open\<close> gets the dialector and the logger. A fatal call ends the process; otherwise the database is returned.\<close>

definition db_Connect :: "(db_dialector \<Rightarrow> db_Logger option \<Rightarrow> 'db go_result) \<Rightarrow> (go_error \<Rightarrow> string) \<Rightarrow> log_Config \<Rightarrow> db_Config
    \<Rightarrow> 'db db_state \<Rightarrow> fs \<Rightarrow> (log_call + 'db option) \<times> 'db db_state \<times> fs" where
  "db_Connect gorm_Open err_text config c s f =
     (let (s1, f1) = db_logger_init config s f; (d, f2) = dialector c f1
      in case d of
           Inl fatal \<Rightarrow> (Inl fatal, s1, f2)
         | Inr dial \<Rightarrow>
             (case gorm_Open dial (ds_Default s1) of
                Inl err \<Rightarrow> (Inl (CallFatal ''connect to databse failed'' [(''error'', err_text err)]), s1, f2)
              | Inr db \<Rightarrow> (Inr (Some db), s1\<lparr>ds_DB := Some db\<rparr>, f2)))"

text \<open>\<^const>\<open>None\<close> is the panic on a connection that was never made. \<open>sql_DB\<close> is \<open>DB.DB()\<close>.\<close>

definition db_Destroy :: "('db \<Rightarrow> 'sql option \<times> go_error option) \<Rightarrow> ('sql \<Rightarrow> go_error option) \<Rightarrow> 'db db_state \<Rightarrow> go_error option option" where
  "db_Destroy sql_DB close s =
     (case ds_DB s of
        None \<Rightarrow> None
      | Some db \<Rightarrow> (case sql_DB db of (Some sql, _) \<Rightarrow> Some (close sql) | (None, err) \<Rightarrow> Some err))"

subsection \<open>Sort orders\<close>

text \<open>
  The expression is a word, possibly with \<open>DESC\<close> behind one space. No character of a word is a space, so the
  longest word decides the match.
\<close>

definition word_char :: "char \<Rightarrow> bool" where
  "word_char c \<longleftrightarrow>
     (let n = of_char c :: nat in (48 \<le> n \<and> n \<le> 57) \<or> (65 \<le> n \<and> n \<le> 90) \<or> (97 \<le> n \<and> n \<le> 122) \<or> n = 95)"

definition order_expr :: "string \<Rightarrow> bool" where
  "order_expr v \<longleftrightarrow> takeWhile word_char v \<noteq> [] \<and> dropWhile word_char v \<in> set [[], '' DESC'']"

definition OrderSafe :: "string \<Rightarrow> go_error option" where
  "OrderSafe data =
     (if list_all order_expr (strings_Split (CHR '','') data) then None else Some (Errorf ''unsafe sorting field''))"

subsection \<open>Lemmas\<close>

text \<open>The expression as a language: a word, or a word followed by \<open>DESC\<close>.\<close>

definition order_item :: "string \<Rightarrow> bool" where
  "order_item v \<longleftrightarrow> (\<exists>w. w \<noteq> [] \<and> list_all word_char w \<and> (v = w \<or> v = w @ '' DESC''))"

lemma space_no_word [simp]: "\<not> word_char (CHR '' '')" "\<not> word_char (CHR '','')"
  by (simp_all add: word_char_def)

lemma takeWhile_words: "list_all P w \<Longrightarrow> \<not> P c \<Longrightarrow> takeWhile P (w @ c # r) = w \<and> dropWhile P (w @ c # r) = c # r"
  by (induction w) auto

lemma order_expr_item: "order_expr v \<longleftrightarrow> order_item v"
proof
  assume "order_expr v"
  then have e: "takeWhile word_char v \<noteq> []" "dropWhile word_char v = [] \<or> dropWhile word_char v = '' DESC''"
    by (auto simp: order_expr_def)
  obtain tw dw where v: "takeWhile word_char v = tw" "dropWhile word_char v = dw" "v = tw @ dw" by (metis takeWhile_dropWhile_id)
  from e have "tw \<noteq> []" "dw = [] \<or> dw = '' DESC''" unfolding v(1,2) .
  moreover have "list_all word_char tw" unfolding v(1) [symmetric] by (auto simp: list_all_iff dest: set_takeWhileD)
  ultimately show "order_item v" unfolding order_item_def v(3) by (intro exI [of _ tw]) auto
next
  assume "order_item v"
  then obtain w where w: "w \<noteq> []" "list_all word_char w" "v = w \<or> v = w @ '' DESC''" unfolding order_item_def by blast
  from w(2) have "takeWhile word_char w = w" "dropWhile word_char w = []" by (auto simp: list_all_iff)
  moreover have "takeWhile word_char (w @ '' DESC'') = w" "dropWhile word_char (w @ '' DESC'') = '' DESC''"
    using takeWhile_words [OF w(2), of "CHR '' ''"] by simp_all
  ultimately show "order_expr v" using w(1,3) unfolding order_expr_def by (elim disjE) (simp_all only:, simp_all)
qed

lemma Split_cover: "x \<in> set s \<Longrightarrow> x \<noteq> c \<Longrightarrow> \<exists>l \<in> set (strings_Split c s). x \<in> set l"
  by (induction s) (fastforce split: list.splits)+

text \<open>What passes is a list of columns: nothing in it can end the clause or open another.\<close>

lemma OrderSafe_spec:
  "OrderSafe data = None \<longleftrightarrow> (\<forall>v \<in> set (strings_Split (CHR '','') data). order_item v)"
  by (simp add: OrderSafe_def order_expr_item list_all_iff)

lemma OrderSafe_chars:
  assumes "OrderSafe data = None" and "x \<in> set data"
  shows "word_char x \<or> x = CHR '','' \<or> x = CHR '' ''"
proof (rule ccontr)
  assume no: "\<not> ?thesis"
  then obtain l where l: "l \<in> set (strings_Split (CHR '','') data)" "x \<in> set l" using Split_cover assms(2) by metis
  with assms(1) have "order_item l" by (simp add: OrderSafe_spec)
  then obtain w where "list_all word_char w" "x \<in> set w \<or> x \<in> set '' DESC''" using l(2) unfolding order_item_def by fastforce
  with no show False by (auto simp: list_all_iff word_char_def)
qed

text \<open>Every trace is logged at one level: the error decides first, then the time it took.\<close>

lemma Trace_level:
  "db_Trace nf et dt now q l ctx elapsed res err = [LogRecord lv msg attrs w] \<Longrightarrow>
     lv = (if err \<noteq> None \<and> (\<not> nf (the err) \<or> \<not> dl_IgnoreNotFound l) then 8
           else if elapsed > dl_SlowThreshold l \<and> dl_SlowThreshold l \<noteq> 0 then 4 else 0)"
  by (auto simp: db_Trace_def Let_def Logger_log_def slog_Log_def split: if_splits)

text \<open>The level that is set has no effect on what is logged.\<close>

lemma LogMode_ignored: "db_Trace nf et dt now q (db_LogMode level l) = db_Trace nf et dt now q l"
  by (simp add: db_Trace_def db_LogMode_def fun_eq_iff Let_def cong: if_cong)

text \<open>The logger is made once: a second connection keeps the one of the first.\<close>

lemma Connect_logger_once:
  assumes "db_Connect go et cf c s f = (r, s1, f1)"
  shows "ds_RawLogger s1 \<noteq> None \<and> (ds_RawLogger s \<noteq> None \<longrightarrow> ds_RawLogger s1 = ds_RawLogger s)"
proof -
  obtain s' f' where i: "db_logger_init cf s f = (s', f')" by fastforce
  then have "ds_RawLogger s' \<noteq> None \<and> (ds_RawLogger s \<noteq> None \<longrightarrow> ds_RawLogger s' = ds_RawLogger s)"
    by (auto simp: db_logger_init_def split: option.splits prod.splits)
  moreover from assms i have "ds_RawLogger s1 = ds_RawLogger s'"
    by (auto simp: db_Connect_def split: prod.splits sum.splits)
  ultimately show ?thesis by simp
qed

lemma Connect_sets:
  assumes "db_Connect go et cf c s f = (Inr db, s1, f1)"
  shows "ds_DB s1 = db \<and> db \<noteq> None"
  using assms by (auto simp: db_Connect_def split: prod.splits sum.splits)

text \<open>A password with an at sign moves the boundary between the password and the host of a data source name.\<close>

lemma Pgsql_ambiguous:
  "usePgsql \<lparr>dc_Type = t, dc_Host = ''db'', dc_User = ''u'', dc_Password = ''p@evil'', dc_DbName = ''x'', dc_Option = []\<rparr>
     = usePgsql \<lparr>dc_Type = t, dc_Host = ''evil@db'', dc_User = ''u'', dc_Password = ''p'', dc_DbName = ''x'', dc_Option = []\<rparr>"
  by (simp add: usePgsql_def)

end
