(* ===== verification/Fs_Clients.thy ===== *)
theory Fs_Clients
  imports Go_Steps Archive Upgrade_Run Command Jsonl_Store Jsonl_Retain Dborm
begin

text \<open>
  Every package that works on files keeps every property of the file system that the calls of package
  \<open>os\<close> keep (the locale of \<open>Go_Tree\<close>). The lemmas are proved once inside the locale; its two interpretations
  give that no package changes the environment and that the nodes always form trees.
\<close>

context fs_invariant begin

lemma keeps_snd:
  "keeps f \<Longrightarrow> keeps (snd (os_Remove p f))"
  "keeps f \<Longrightarrow> keeps (snd (os_RemoveAll p f))"
  "keeps f \<Longrightarrow> keeps (snd (os_MkdirAll p m f))"
  "keeps f \<Longrightarrow> keeps (snd (os_Chmod p m f))"
  "keeps f \<Longrightarrow> keeps (snd (file_Write p d f))"
  by (rule keeps_os [OF _ prod.collapse [symmetric]], assumption)+

paragraph \<open>filer\<close>

lemma keeps_with_dir:
  "keeps f \<Longrightarrow> (\<And>f f' u. keeps f \<Longrightarrow> act f = (u, f') \<Longrightarrow> keeps f') \<Longrightarrow> with_dir p act f = (r, f') \<Longrightarrow> keeps f'"
  by (fastforce simp: with_dir_def split: if_splits prod.splits sum.splits dest: keeps_os)

lemma keeps_filer_Write: "keeps f \<Longrightarrow> filer_Write p d f = (r, f') \<Longrightarrow> keeps f'"
  unfolding filer_Write_def by (erule (1) keeps_with_dir [rotated 2]) (rule keeps_WriteFile)

lemma keeps_filer_Append: "keeps f \<Longrightarrow> filer_Append p d f = (r, f') \<Longrightarrow> keeps f'"
  unfolding filer_Append_def
  by (erule keeps_with_dir [rotated 2]) (auto split: prod.splits sum.splits dest: keeps_os)

lemma keeps_filer_Move: "keeps f \<Longrightarrow> filer_Move a b overwrite f = (r, f') \<Longrightarrow> keeps f'"
  by (auto simp: filer_Move_def Let_def split: if_splits prod.splits sum.splits dest: keeps_os)

lemma keeps_SaveJson: "keeps f \<Longrightarrow> SaveJson m p d f = (r, f') \<Longrightarrow> keeps f'"
  by (auto simp: SaveJson_def split: sum.splits dest: keeps_filer_Write)

lemma keeps_SaveYaml: "keeps f \<Longrightarrow> SaveYaml m p d f = (r, f') \<Longrightarrow> keeps f'"
  by (auto simp: SaveYaml_def split: sum.splits dest: keeps_filer_Write)

lemma keeps_release_visit: "keeps f \<Longrightarrow> release_visit root d v f = (r, f') \<Longrightarrow> keeps f'"
  by (cases v) (auto simp: release_file_def split: sum.splits dest: keeps_os keeps_WriteFile)

lemma keeps_release_walk: "keeps f \<Longrightarrow> release_walk root d vs f = (r, f') \<Longrightarrow> keeps f'"
  by (induction vs arbitrary: f) (auto split: sum.splits prod.splits dest: keeps_release_visit)

lemma keeps_ReleaseEmbedFS: "keeps f \<Longrightarrow> ReleaseEmbedFS pick vs root args f = (r, f') \<Longrightarrow> keeps f'"
  by (auto simp: ReleaseEmbedFS_def os_MkdirTemp_def split: sum.splits prod.splits
      dest: keeps_os keeps_release_walk intro: keeps_snd)

paragraph \<open>archive\<close>

lemma keeps_Zip: "keeps f \<Longrightarrow> Zip lib p f = (r, f') \<Longrightarrow> keeps f'"
  by (auto simp: Zip_def Let_def split: if_splits prod.splits sum.splits option.splits
      dest: keeps_os intro!: keeps_snd)

lemma keeps_extract_file: "keeps f \<Longrightarrow> extract_file ze p f = (r, f') \<Longrightarrow> keeps f'"
  by (auto simp: extract_file_def split: prod.splits sum.splits option.splits dest: keeps_os)

lemma keeps_unzip_entries: "keeps f \<Longrightarrow> unzip_entries dir zes f = (r, f') \<Longrightarrow> keeps f'"
  by (induction zes arbitrary: f)
    (auto simp: Let_def split: if_splits prod.splits sum.splits option.splits dest: keeps_os keeps_extract_file,
      meson keeps_os keeps_extract_file)

lemma keeps_Unzip: "keeps f \<Longrightarrow> Unzip lib p f = (r, f') \<Longrightarrow> keeps f'"
  by (auto simp: Unzip_def split: sum.splits dest: keeps_unzip_entries)

lemma keeps_untar_steps: "keeps f \<Longrightarrow> untar_steps tgz name dest steps f = (r, f') \<Longrightarrow> keeps f'"
  by (induction tgz name dest steps f rule: untar_steps.induct)
    (auto split: if_splits prod.splits sum.splits dest: keeps_os)

lemma keeps_UntarFile: "keeps f \<Longrightarrow> UntarFile gunzip tgz name dest f = (r, f') \<Longrightarrow> keeps f'"
  by (auto simp: UntarFile_def split: if_splits sum.splits dest: keeps_untar_steps)

paragraph \<open>upgrade and request\<close>

lemma keeps_install_new: "keeps f \<Longrightarrow> install_new n t b moved f = (r, f') \<Longrightarrow> keeps f'"
  by (auto simp: install_new_def split: if_splits prod.splits sum.splits dest: keeps_os intro!: keeps_snd)

lemma keeps_commitBinary: "keeps f \<Longrightarrow> commitBinary sha n t m v f = (r, f') \<Longrightarrow> keeps f'"
  by (auto simp: commitBinary_def Let_def split: option.splits if_splits prod.splits sum.splits)
    (meson keeps_os keeps_install_new)+

lemma keeps_SaveStream: "keeps f \<Longrightarrow> SaveStream temp rd target f = (r, f') \<Longrightarrow> keeps f'"
  by (auto simp: SaveStream_def split: option.splits if_splits prod.splits sum.splits dest: keeps_os)

lemma keeps_Download: "keeps f \<Longrightarrow> request_Download get gunzip temp url target gz f = (r, f') \<Longrightarrow> keeps f'"
  by (auto simp: request_Download_def split: if_splits prod.splits sum.splits dest: keeps_SaveStream)

lemma keeps_apply_info:
  assumes "keeps f" 
    "\<And>url out f f' u. keeps f \<Longrightarrow> (case up_Download up of None \<Rightarrow> default_handler | Some h \<Rightarrow> h) url out f = (u, f') \<Longrightarrow> keeps f'"
    "apply_info sha executable default_handler up info f = (r, f')"
  shows "keeps f'"
proof -
  define h where "h = (case up_Download up of None \<Rightarrow> default_handler | Some h \<Rightarrow> h)"
  have "keeps f2" if "h url out f = (u, f2)" for url out u f2
    using assms(1,2) that unfolding h_def by blast
  with assms(1,3) show ?thesis unfolding apply_info_def h_def [symmetric] CommitBinary_def Let_def
    by (auto split: option.splits if_splits prod.splits sum.splits) (meson keeps_commitBinary)+
qed

lemma keeps_run_upgrade: "keeps f \<Longrightarrow> run_upgrade env param f = (r, f') \<Longrightarrow> keeps f'"
proof (cases "check_update env param")
  case (Inr info)
  have "keeps f2" if "keeps f1" "defaultDownloadHandler (download_get env) url out f1 = (u, f2)" for url out f1 u f2
    using that by (auto simp: defaultDownloadHandler_def download_get_def split: prod.splits sum.splits option.splits
        dest: keeps_Download)
  with Inr show "keeps f \<Longrightarrow> run_upgrade env param f = (r, f') \<Longrightarrow> keeps f'"
    unfolding run_upgrade_info [OF Inr] by (elim keeps_apply_info [rotated 2]) (auto simp: NewUpdater_def)
qed (auto dest: run_upgrade_unchecked [of env param _ f])

paragraph \<open>command\<close>

lemma keeps_createTempScript: "keeps f \<Longrightarrow> createTempScript env code ext f = (r, f') \<Longrightarrow> keeps f'"
  by (auto simp: createTempScript_def os_CreateTemp_def split: if_splits prod.splits sum.splits dest: keeps_os intro!: keeps_snd)

lemma keeps_script_command: "keeps f \<Longrightarrow> script_command env data f = (r, f') \<Longrightarrow> keeps f'"
  by (auto simp: script_command_def Let_def split: if_splits prod.splits sum.splits list.splits dest: keeps_createTempScript)

paragraph \<open>jsonl\<close>

lemma keeps_bufio_Flush: "keeps f \<Longrightarrow> bufio_Flush b f = (r, b', f') \<Longrightarrow> keeps f'"
  by (auto simp: bufio_Flush_def split: option.splits if_splits prod.splits sum.splits dest: keeps_os)

lemma keeps_bufio_direct: "keeps f \<Longrightarrow> bufio_direct p b f = (r, b', f') \<Longrightarrow> keeps f'"
  by (auto simp: bufio_direct_def split: prod.splits sum.splits dest: keeps_os)

lemma keeps_bufio_Write: "keeps f \<Longrightarrow> bufio_Write p b f = (r, b', f') \<Longrightarrow> keeps f'"
  by (auto simp: bufio_Write_def Let_def split: option.splits if_splits prod.splits
      dest: keeps_bufio_Flush keeps_bufio_direct)

lemma keeps_ensureFile: "keeps f \<Longrightarrow> ensureFileLocked now (s, f) = (r, s', f') \<Longrightarrow> keeps f'"
proof -
  assume f: "keeps f" and run: "ensureFileLocked now (s, f) = (r, s', f')"
  let ?f1 = "case (st_file s, st_bw s) of (Some _, Some b) \<Rightarrow> snd (snd (bufio_Flush b f)) | _ \<Rightarrow> f"
  have "keeps ?f1" using f keeps_bufio_Flush by (auto split: option.split) (metis prod.collapse)
  with run f show "keeps f'"
    by (auto simp: ensureFileLocked_def Let_def split: if_splits prod.splits sum.splits dest: keeps_OpenWrite)
qed

lemma keeps_writeLocked: "keeps f \<Longrightarrow> writeLocked now line (s, f) = (r, s', f') \<Longrightarrow> keeps f'"
  by (auto simp: writeLocked_def split: option.splits prod.splits sum.splits
      dest: keeps_ensureFile keeps_bufio_Write keeps_os)

lemma keeps_Store_Append: "keeps f \<Longrightarrow> Store_Append now v (s, f) = (r, s', f') \<Longrightarrow> keeps f'"
  by (auto simp: Store_Append_def Let_def split: option.splits sum.splits if_splits dest: keeps_writeLocked)

lemma keeps_Store_Flush: "keeps f \<Longrightarrow> Store_Flush (s, f) = (r, s', f') \<Longrightarrow> keeps f'"
  by (auto simp: Store_Flush_def split: option.splits prod.splits dest: keeps_bufio_Flush)

text \<open>The same over the whole state of a store.\<close>

lemma keeps_store:
  "keeps (snd sf) \<Longrightarrow> keeps (snd (snd (writeLocked now line sf)))"
  "keeps (snd sf) \<Longrightarrow> keeps (snd (snd (Store_Append now v sf)))"
  "keeps (snd sf) \<Longrightarrow> keeps (snd (snd (Store_Flush sf)))"
  by (metis keeps_writeLocked prod.collapse) (metis keeps_Store_Append prod.collapse, metis keeps_Store_Flush prod.collapse)

lemma keeps_runAsync: "keeps (snd sf) \<Longrightarrow> keeps (snd (runAsync_round now sf))"
  using keeps_store
  by (cases sf) (auto simp: runAsync_round_def split: option.splits list.splits prod.splits, (metis snd_conv)+)

lemma keeps_drain: "keeps (snd sf) \<Longrightarrow> keeps (snd (drain clock q sf))"
  by (induction q arbitrary: clock sf) (simp_all add: keeps_runAsync)

lemma keeps_Store_stop: "keeps (snd sf) \<Longrightarrow> keeps (snd (Store_stop clock sf))"
  by (cases sf) (auto simp: Store_stop_def split: option.split intro!: keeps_drain)

lemma keeps_Store_Close:
  assumes "keeps (snd sf)"
  shows "keeps (snd (snd (Store_Close clock sf)))"
  using keeps_Store_stop [OF assms, of clock]
  by (auto simp: Store_Close_def Let_def split: prod.splits option.splits dest: keeps_bufio_Flush)

lemma keeps_jsonl_New: "keeps f \<Longrightarrow> jsonl_New tlocal dir naming opts f = (r, f') \<Longrightarrow> keeps f'"
  by (auto simp: jsonl_New_def Let_def split: prod.splits sum.splits dest: keeps_os)

lemma keeps_remove_all: "keeps f \<Longrightarrow> remove_all old ps f = (r, f') \<Longrightarrow> keeps f'"
  by (induction ps arbitrary: f r) (auto split: if_splits prod.splits sum.splits dest: keeps_os)

lemma keeps_CleanOlderThan: "keeps f \<Longrightarrow> CleanOlderThan l now dir naming days f = (r, f') \<Longrightarrow> keeps f'"
  by (auto simp: CleanOlderThan_def Let_def split: if_splits sum.splits dest: keeps_remove_all)

paragraph \<open>logman and dborm\<close>

lemma keeps_FileWriter: "keeps f \<Longrightarrow> keeps (snd (FileWriter config name f))"
  by (auto simp: FileWriter_def Let_def intro: keeps_snd)

lemma keeps_NewLogger: "keeps f \<Longrightarrow> keeps (snd (NewLogger config name f))"
  using keeps_FileWriter [of f config name] by (auto simp: NewLogger_def AutoWriter_def Let_def)

lemma keeps_Named: "keeps f \<Longrightarrow> keeps (snd (Named config name f))"
  using keeps_NewLogger [of f config name] by (auto simp: Named_def NamedWithContext_def split: prod.split)

lemma keeps_dialector: "keeps f \<Longrightarrow> keeps (snd (dialector c f))"
  using keeps_snd(3) by (auto simp: dialector_def useSqlite_def Let_def)

lemma keeps_Connect: "keeps f \<Longrightarrow> keeps (snd (snd (db_Connect gorm_Open err_text config c s f)))"
proof -
  assume f: "keeps f"
  have "keeps (snd (db_logger_init config s f))"
    using keeps_Named [OF f, of config "''gorm''"] f by (auto simp: db_logger_init_def split: option.split prod.split)
  then have "keeps (snd (dialector c (snd (db_logger_init config s f))))" by (rule keeps_dialector)
  then show ?thesis by (auto simp: db_Connect_def Let_def split: prod.split sum.split)
qed

end

subsection \<open>What the packages do to the files, in any order\<close>

text \<open>
  One call of a package that works on files, with its arguments, its environment and its parameters free: the
  new file system is the one the model of the call returns, whether the call succeeds or not.
\<close>

inductive package_step :: "fs \<Rightarrow> fs \<Rightarrow> bool" where
  step_Write: "filer_Write p d f = (r, f') \<Longrightarrow> package_step f f'"
| step_Append: "filer_Append p d f = (r, f') \<Longrightarrow> package_step f f'"
| step_Move: "filer_Move p q overwrite f = (r, f') \<Longrightarrow> package_step f f'"
| step_Release: "ReleaseEmbedFS pick vs root args f = (r2, f') \<Longrightarrow> package_step f f'"
| step_Zip: "Zip lib p f = (e, f') \<Longrightarrow> package_step f f'"
| step_Unzip: "Unzip lib p f = (e, f') \<Longrightarrow> package_step f f'"
| step_Untar: "UntarFile gunzip p name dest f = (e, f') \<Longrightarrow> package_step f f'"
| step_Download: "request_Download get unzip temp url target gz f = (r3, f') \<Longrightarrow> package_step f f'"
| step_Commit: "CommitBinary sha u f = (e4, f') \<Longrightarrow> package_step f f'"
| step_Upgrade: "run_upgrade env2 param f = (e4, f') \<Longrightarrow> package_step f f'"
| step_Script: "script_command env data f = (r5, f') \<Longrightarrow> package_step f f'"
| step_Open: "jsonl_New tlocal dir naming opts f = (r6, f') \<Longrightarrow> package_step f f'"
| step_Line: "Store_Append now v (s, f) = (e, s', f') \<Longrightarrow> package_step f f'"
| step_Flush: "Store_Flush (s, f) = (e, s', f') \<Longrightarrow> package_step f f'"
| step_Async: "runAsync_round now (s, f) = (s', f') \<Longrightarrow> package_step f f'"
| step_Close: "Store_Close clock (s, f) = (e, s', f') \<Longrightarrow> package_step f f'"
| step_Clean: "CleanOlderThan l now dir naming days f = (es, f') \<Longrightarrow> package_step f f'"
| step_Log: "NewLogger config name f = (logger, f') \<Longrightarrow> package_step f f'"
| step_Sqlite: "dialector c f = (dial, f') \<Longrightarrow> package_step f f'"

context fs_invariant begin

lemma keeps_step: "package_step f f' \<Longrightarrow> keeps f \<Longrightarrow> keeps f'"
proof (induction rule: package_step.induct)
  case (step_Commit sha u f e4 f')
  then show ?case unfolding CommitBinary_def by (auto dest: keeps_commitBinary)
next
  case (step_Async now s f s' f')
  then show ?case using keeps_runAsync [of "(s, f)" now] by simp
next
  case (step_Close clock s f e s' f')
  then show ?case using keeps_Store_Close [of "(s, f)" clock] by simp
next
  case (step_Log config name f logger f')
  then show ?case using keeps_NewLogger [of f config name] by simp
next
  case (step_Sqlite c f dial f')
  then show ?case using keeps_dialector [of f c] by simp
qed (erule (1) keeps_filer_Write [rotated] keeps_filer_Append [rotated] keeps_filer_Move [rotated]
    keeps_ReleaseEmbedFS [rotated] keeps_Zip [rotated] keeps_Unzip [rotated] keeps_UntarFile [rotated]
    keeps_Download [rotated] keeps_run_upgrade [rotated] keeps_script_command [rotated]
    keeps_jsonl_New [rotated] keeps_Store_Append [rotated] keeps_Store_Flush [rotated] keeps_CleanOlderThan [rotated])+

end

sublocale fs_invariant \<subseteq> packages: safe_machine package_step keeps keeps
  by unfold_locales (auto intro: keeps_step)

text \<open>
  So a file system that is a tree stays one, and the environment that a package found is there after it: with them
  the theorems about one call apply after any calls of any packages.
\<close>

lemma packages_keep_tree:
  assumes "package_step\<^sup>*\<^sup>* f f'" and "tree_ok f"
  shows "tree_ok f'" "faults f' = faults f"
  using tree.packages.run_inv [OF assms] env.packages.run_inv [OF assms(1) refl] by simp_all

end
