(* ===== verification/Ttlcache.thy ===== *)
theory Ttlcache
  imports Go_Prelude Go_Steps
begin

text \<open>
  Package ttlcache (src/ttlcache/timed.go): the cache record, its operations with the time of the
  call as an argument (\<open>now\<close> is what \<open>time.Now\<close> returns, \<open>time.Since t\<close> is \<open>now - t\<close>), the contract
  of a map whose entries expire as a locale, and the goroutines that share one cache as a step
  relation whose steps are the critical sections of the mutex.
\<close>

subsection \<open>The cache and its operations\<close>

record 'v cacheItem =
  createdAt :: int
  item_value :: 'v

record 'v TimedCache =
  interval :: int
  stopChan_closed :: bool
  items :: "string \<Rightarrow> 'v cacheItem option"

definition NewTimedCache :: "int \<Rightarrow> 'v TimedCache" where
  "NewTimedCache d = \<lparr>interval = d, stopChan_closed = False, items = Map.empty\<rparr>"

definition TimedCache_Set :: "int \<Rightarrow> string \<Rightarrow> 'v \<Rightarrow> 'v TimedCache \<Rightarrow> 'v TimedCache" where
  "TimedCache_Set now key v c =
     c\<lparr>items := (items c)(key \<mapsto> \<lparr>createdAt = now, item_value = v\<rparr>)\<rparr>"

text \<open>
  \<open>Get\<close> takes the read lock for the lookup, looks at the clock outside the lock, and takes the
  write lock for the removal of an expired entry.
\<close>

definition Get_stale :: "int \<Rightarrow> 'v TimedCache \<Rightarrow> 'v cacheItem \<Rightarrow> bool" where
  "Get_stale now c it \<longleftrightarrow> now - createdAt it \<ge> interval c"

definition Get_evict :: "string \<Rightarrow> 'v TimedCache \<Rightarrow> 'v TimedCache" where
  "Get_evict key c = c\<lparr>items := (items c)(key := None)\<rparr>"

definition TimedCache_Get :: "int \<Rightarrow> string \<Rightarrow> 'v TimedCache \<Rightarrow> 'v option \<times> 'v TimedCache" where
  "TimedCache_Get now key c =
     (case items c key of
        None \<Rightarrow> (None, c)
      | Some it \<Rightarrow> if Get_stale now c it then (None, Get_evict key c) else (Some (item_value it), c))"

definition DeleteExpired :: "int \<Rightarrow> 'v TimedCache \<Rightarrow> 'v TimedCache" where
  "DeleteExpired now c =
     c\<lparr>items := (\<lambda>k. case items c k of
          None \<Rightarrow> None
        | Some it \<Rightarrow> if now - createdAt it > interval c then None else Some it)\<rparr>"

text \<open>Closing a closed channel panics.\<close>

definition StopCleanup :: "'v TimedCache \<Rightarrow> 'v TimedCache go_result" where
  "StopCleanup c =
     (if stopChan_closed c then Inl (Panic ''close of closed channel'')
      else Inr (c\<lparr>stopChan_closed := True\<rparr>))"

lemmas ttl_defs = NewTimedCache_def TimedCache_Set_def Get_stale_def Get_evict_def
  TimedCache_Get_def DeleteExpired_def StopCleanup_def

subsection \<open>The contract of a map with expiry\<close>

text \<open>
  \<open>live c t\<close> is what a caller can still get at time \<open>t\<close>. A provider promises that a stored value is
  live for \<open>ttl\<close>, that a lookup answers with the live value, and that neither a lookup nor a sweep
  changes what is live from then on.
\<close>

locale expiring_map =
  fixes ttl :: "'c \<Rightarrow> int"
    and live :: "'c \<Rightarrow> int \<Rightarrow> 'k \<Rightarrow> 'v option"
    and put :: "int \<Rightarrow> 'k \<Rightarrow> 'v \<Rightarrow> 'c \<Rightarrow> 'c"
    and get :: "int \<Rightarrow> 'k \<Rightarrow> 'c \<Rightarrow> 'v option \<times> 'c"
    and sweep :: "int \<Rightarrow> 'c \<Rightarrow> 'c"
  assumes live_put: "t - now < ttl c \<Longrightarrow>
      live (put now k v c) t k' = (if k' = k then Some v else live c t k')"
    and get_live: "fst (get now k c) = live c now k"
    and live_get: "now \<le> t \<Longrightarrow> live (snd (get now k c)) t k' = live c t k'"
    and live_sweep: "now \<le> t \<Longrightarrow> live (sweep now c) t k' = live c t k'"
begin

text \<open>Lookups and sweeps, each with the time it runs at.\<close>

fun maintain :: "(int \<times> 'k option) list \<Rightarrow> 'c \<Rightarrow> 'c" where
  "maintain [] c = c"
| "maintain ((now, Some k) # ops) c = maintain ops (snd (get now k c))"
| "maintain ((now, None) # ops) c = maintain ops (sweep now c)"

lemma live_maintain:
  "(\<And>now o'. (now, o') \<in> set ops \<Longrightarrow> now \<le> t) \<Longrightarrow> live (maintain ops c) t k = live c t k"
proof (induction ops arbitrary: c)
  case Nil
  then show ?case by simp
next
  case (Cons op ops)
  obtain now o' where op: "op = (now, o')" by (cases op)
  have "now \<le> t" using Cons.prems [of now o'] op by simp
  moreover have "live (maintain ops d) t k = live d t k" for d
    using Cons.IH Cons.prems by (metis list.set_intros(2))
  ultimately show ?case using op by (cases o') (simp_all add: live_get live_sweep)
qed

lemma put_then_get:
  assumes "\<And>now o'. (now, o') \<in> set ops \<Longrightarrow> now \<le> t" and "t - s < ttl c"
  shows "fst (get t k (maintain ops (put s k v c))) = Some v"
  using assms by (simp add: get_live live_maintain live_put)

end

definition live_item :: "'v TimedCache \<Rightarrow> int \<Rightarrow> string \<Rightarrow> 'v option" where
  "live_item c t k =
     (case items c k of None \<Rightarrow> None
      | Some it \<Rightarrow> if t - createdAt it < interval c then Some (item_value it) else None)"

interpretation timed: expiring_map interval live_item TimedCache_Set TimedCache_Get DeleteExpired
  by unfold_locales (auto simp: live_item_def ttl_defs split: option.splits)

text \<open>The maintenance a cache sees between a \<open>Set\<close> and a \<open>Get\<close>, over the model's own operations.\<close>

fun cache_ops :: "(int \<times> string option) list \<Rightarrow> 'v TimedCache \<Rightarrow> 'v TimedCache" where
  "cache_ops [] c = c"
| "cache_ops ((now, Some k) # ops) c = cache_ops ops (snd (TimedCache_Get now k c))"
| "cache_ops ((now, None) # ops) c = cache_ops ops (DeleteExpired now c)"

lemma cache_ops_maintain: "cache_ops ops c = timed.maintain ops c"
  by (induction ops c rule: cache_ops.induct) auto

subsection \<open>Goroutines sharing one cache\<close>

text \<open>
  What a goroutine that calls \<open>Get\<close> is about to do: nothing, test the item it read, or take the
  write lock to remove the key. \<open>clock\<close> is the wall clock, \<open>history\<close> records every \<open>Set\<close> and
  \<open>returned\<close> every value a \<open>Get\<close> returned, with the time; the cleaner runs until it receives from
  the closed \<open>stopChan\<close>.
\<close>

datatype 'v get_pc = Idle | Looked string "'v cacheItem option" | Evicting string

record 'v ttl_sys =
  cache :: "'v TimedCache"
  clock :: int
  pcs :: "nat \<Rightarrow> 'v get_pc"
  cleaning :: bool
  history :: "(int \<times> string \<times> 'v) set"
  returned :: "(int \<times> string \<times> 'v) set"

definition ttl_init :: "int \<Rightarrow> 'v ttl_sys" where
  "ttl_init d = \<lparr>cache = NewTimedCache d, clock = 0, pcs = (\<lambda>_. Idle), cleaning = True,
     history = {}, returned = {}\<rparr>"

inductive ttl_step :: "'v ttl_sys \<Rightarrow> 'v ttl_sys \<Rightarrow> bool" where
  time_passes: "0 \<le> d \<Longrightarrow> ttl_step s (s\<lparr>clock := clock s + d\<rparr>)"
| set_item: "ttl_step s (s\<lparr>cache := TimedCache_Set (clock s) k v (cache s),
     history := insert (clock s, k, v) (history s)\<rparr>)"
| get_lookup: "pcs s i = Idle \<Longrightarrow>
     ttl_step s (s\<lparr>pcs := (pcs s)(i := Looked k (items (cache s) k))\<rparr>)"
| get_missing: "pcs s i = Looked k None \<Longrightarrow> ttl_step s (s\<lparr>pcs := (pcs s)(i := Idle)\<rparr>)"
| get_hit: "pcs s i = Looked k (Some it) \<Longrightarrow> \<not> Get_stale (clock s) (cache s) it \<Longrightarrow>
     ttl_step s (s\<lparr>pcs := (pcs s)(i := Idle),
       returned := insert (clock s, k, item_value it) (returned s)\<rparr>)"
| get_expired: "pcs s i = Looked k (Some it) \<Longrightarrow> Get_stale (clock s) (cache s) it \<Longrightarrow>
     ttl_step s (s\<lparr>pcs := (pcs s)(i := Evicting k)\<rparr>)"
| get_evict: "pcs s i = Evicting k \<Longrightarrow>
     ttl_step s (s\<lparr>pcs := (pcs s)(i := Idle), cache := Get_evict k (cache s)\<rparr>)"
| cleaner_tick: "cleaning s \<Longrightarrow> ttl_step s (s\<lparr>cache := DeleteExpired (clock s) (cache s)\<rparr>)"
| stop: "StopCleanup (cache s) = Inr c \<Longrightarrow> ttl_step s (s\<lparr>cache := c\<rparr>)"
| cleaner_stops: "cleaning s \<Longrightarrow> stopChan_closed (cache s) \<Longrightarrow> ttl_step s (s\<lparr>cleaning := False\<rparr>)"

text \<open>A \<open>Get\<close> that nothing interrupts does what the operation above does.\<close>

lemma get_uninterrupted:
  assumes "pcs s i = Idle"
  obtains t where "ttl_step\<^sup>*\<^sup>* s t" "cache t = snd (TimedCache_Get (clock s) k (cache s))" "pcs t = pcs s"
    "returned t = (case fst (TimedCache_Get (clock s) k (cache s)) of
       None \<Rightarrow> returned s | Some v \<Rightarrow> insert (clock s, k, v) (returned s))"
proof -
  let ?r = "items (cache s) k"
  let ?s1 = "s\<lparr>pcs := (pcs s)(i := Looked k ?r)\<rparr>"
  have look: "ttl_step s ?s1" by (rule get_lookup [OF assms])
  have idle: "(pcs s)(i := Idle) = pcs s" using assms by (simp add: fun_upd_idem)
  show thesis
  proof (cases ?r)
    case None
    then have "ttl_step ?s1 (?s1\<lparr>pcs := (pcs ?s1)(i := Idle)\<rparr>)" by (intro get_missing) simp
    with look show thesis
      by (intro that [of "?s1\<lparr>pcs := (pcs ?s1)(i := Idle)\<rparr>"]) (simp_all add: TimedCache_Get_def None idle)
  next
    case (Some it)
    show thesis
    proof (cases "Get_stale (clock s) (cache s) it")
      case False
      let ?t = "?s1\<lparr>pcs := (pcs ?s1)(i := Idle), returned := insert (clock ?s1, k, item_value it) (returned ?s1)\<rparr>"
      have "ttl_step ?s1 ?t" using Some False by (intro get_hit) simp_all
      with look show thesis by (intro that [of ?t]) (simp_all add: TimedCache_Get_def Some False idle)
    next
      case True
      let ?s2 = "?s1\<lparr>pcs := (pcs ?s1)(i := Evicting k)\<rparr>"
      let ?t = "?s2\<lparr>pcs := (pcs ?s2)(i := Idle), cache := Get_evict k (cache ?s2)\<rparr>"
      have "ttl_step ?s1 ?s2" using Some True by (intro get_expired) simp_all
      moreover have "ttl_step ?s2 ?t" by (rule get_evict) simp
      ultimately show thesis using look by (intro that [of ?t]) (simp_all add: TimedCache_Get_def Some True idle)
    qed
  qed
qed

inductive ttl_reachable :: "int \<Rightarrow> 'v ttl_sys \<Rightarrow> bool" for d where
  ttl_start: "ttl_reachable d (ttl_init d)"
| ttl_next: "ttl_reachable d s \<Longrightarrow> ttl_step s t \<Longrightarrow> ttl_reachable d t"

text \<open>
  The invariant: the interval is the configured one; every stored item, and every item a \<open>Get\<close> has
  in its hand, is the record of a \<open>Set\<close>; every returned value was stored less than one interval
  before the time of the test.
\<close>

definition genuine :: "'v ttl_sys \<Rightarrow> string \<Rightarrow> 'v cacheItem \<Rightarrow> bool" where
  "genuine s k it \<longleftrightarrow> (createdAt it, k, item_value it) \<in> history s \<and> createdAt it \<le> clock s"

definition ttl_inv :: "int \<Rightarrow> 'v ttl_sys \<Rightarrow> bool" where
  "ttl_inv d s \<longleftrightarrow> interval (cache s) = d
     \<and> (\<forall>k it. items (cache s) k = Some it \<longrightarrow> genuine s k it)
     \<and> (\<forall>i k it. pcs s i = Looked k (Some it) \<longrightarrow> genuine s k it)
     \<and> (\<forall>t k v. (t, k, v) \<in> returned s \<longrightarrow> (\<exists>t0. (t0, k, v) \<in> history s \<and> t0 \<le> t \<and> t - t0 < d))"

lemma ttl_inv_init: "ttl_inv d (ttl_init d)"
  by (simp add: ttl_inv_def ttl_init_def NewTimedCache_def)

lemma DeleteExpired_items: "items (DeleteExpired now c) k = Some it \<Longrightarrow> items c k = Some it"
  by (auto simp: DeleteExpired_def split: option.splits if_splits)

lemma ttl_inv_step: "ttl_step s t \<Longrightarrow> ttl_inv d s \<Longrightarrow> ttl_inv d t"
proof (induction rule: ttl_step.induct)
  case (set_item s k v)
  then show ?case
    by (simp add: ttl_inv_def genuine_def TimedCache_Set_def) blast
next
  case (get_lookup s i k)
  then show ?case by (auto simp: ttl_inv_def genuine_def split: if_splits)
next
  case (get_hit s i k it)
  then have "clock s - createdAt it < d" "genuine s k it"
    by (simp_all add: ttl_inv_def Get_stale_def)
  with get_hit(3) show ?case
    by (auto simp: ttl_inv_def genuine_def split: if_splits)
next
  case (get_evict s i k)
  then show ?case by (auto simp: ttl_inv_def genuine_def Get_evict_def split: if_splits)
next
  case (cleaner_tick s)
  then show ?case
    by (auto simp: ttl_inv_def genuine_def dest!: DeleteExpired_items) (simp add: DeleteExpired_def)
qed (fastforce simp: ttl_inv_def genuine_def StopCleanup_def split: if_splits)+

lemma ttl_reachable_runs: "ttl_reachable d s \<Longrightarrow> ttl_step\<^sup>*\<^sup>* (ttl_init d) s"
  by (induction rule: ttl_reachable.induct) (auto intro: rtranclp.intros)

interpretation ttl_machine: safe_machine ttl_step "\<lambda>s. s = ttl_init d" "ttl_inv d" for d
  by unfold_locales (auto intro: ttl_inv_init ttl_inv_step)

lemma ttl_reachable_inv: "ttl_reachable d s \<Longrightarrow> ttl_inv d s"
  by (rule ttl_machine.reach_inv [OF ttl_reachable_runs refl])

subsection \<open>Properties\<close>

text \<open>
  C9. A value stored at time \<open>s\<close> is what \<open>Get\<close> returns at any time \<open>t\<close> less than the interval later,
  whatever lookups (of this or other keys) and sweeps run in between: the eager deletions of \<open>Get\<close>
  and of the cleaner never remove a live entry.
\<close>

theorem ttl_set_then_get:
  assumes "\<And>now o'. (now, o') \<in> set ops \<Longrightarrow> now \<le> t" and "t - s < interval c"
  shows "fst (TimedCache_Get t k (cache_ops ops (TimedCache_Set s k v c))) = Some v"
  unfolding cache_ops_maintain using assms by (rule timed.put_then_get)

theorem ttl_set_then_get_witness:
  "fst (TimedCache_Get 12 ''k''
     (cache_ops [(4, None), (11, Some ''k''), (12, Some ''other''), (12, None)]
       (TimedCache_Set 3 ''k'' (7 :: nat) (NewTimedCache 10)))) = Some 7"
  by (rule ttl_set_then_get) (auto simp: NewTimedCache_def)

text \<open>
  C10. With any number of goroutines calling \<open>Set\<close> and \<open>Get\<close>, the cleaner and \<open>StopCleanup\<close>
  interleaving at their critical sections, a value that some \<open>Get\<close> returns was stored under that
  very key less than one interval before \<open>Get\<close> looked at the clock.
\<close>

theorem ttl_get_never_stale:
  assumes "ttl_reachable d s" and "(t, k, v) \<in> returned s"
  shows "\<exists>t0. (t0, k, v) \<in> history s \<and> t0 \<le> t \<and> t - t0 < d"
  using ttl_reachable_inv [OF assms(1)] assms(2) by (auto simp: ttl_inv_def)

lemma ttl_lookup_after_set:
  assumes "ttl_reachable d s" and "pcs s i = Idle" and "0 \<le> e"
  shows "ttl_reachable d (s\<lparr>cache := TimedCache_Set (clock s) k v (cache s),
     history := insert (clock s, k, v) (history s), clock := clock s + e,
     pcs := (pcs s)(i := Looked k (Some \<lparr>createdAt = clock s, item_value = v\<rparr>))\<rparr>)"
proof -
  let ?s1 = "s\<lparr>cache := TimedCache_Set (clock s) k v (cache s),
     history := insert (clock s, k, v) (history s)\<rparr>"
  let ?s2 = "?s1\<lparr>clock := clock ?s1 + e\<rparr>"
  have "ttl_reachable d ?s1" using assms(1) by (rule ttl_next) (rule set_item)
  then have "ttl_reachable d ?s2" by (rule ttl_next) (rule time_passes [OF assms(3)])
  then have "ttl_reachable d (?s2\<lparr>pcs := (pcs ?s2)(i := Looked k (items (cache ?s2) k))\<rparr>)"
    by (rule ttl_next) (rule get_lookup, simp add: assms(2))
  then show ?thesis by (simp add: TimedCache_Set_def)
qed

theorem ttl_get_never_stale_witness:
  "\<exists>s :: nat ttl_sys. ttl_reachable 10 s \<and> (3, ''k'', 7) \<in> returned s
     \<and> (\<exists>t0. (t0, ''k'', 7) \<in> history s \<and> t0 \<le> 3 \<and> 3 - t0 < 10)"
proof -
  let ?it = "\<lparr>createdAt = 0, item_value = 7\<rparr> :: nat cacheItem"
  let ?s = "(ttl_init 10)\<lparr>cache := TimedCache_Set 0 ''k'' 7 (NewTimedCache 10),
     history := {(0, ''k'', 7)}, clock := 3,
     pcs := (\<lambda>_. Idle)(0 := Looked ''k'' (Some ?it))\<rparr> :: nat ttl_sys"
  let ?t = "?s\<lparr>pcs := (pcs ?s)(0 := Idle), returned := insert (clock ?s, ''k'', item_value ?it) (returned ?s)\<rparr>"
  have "ttl_reachable 10 ?s"
    using ttl_lookup_after_set [OF ttl_start, of 10 0 3 "''k''" "7 :: nat"]
    by (simp add: ttl_init_def)
  moreover have "ttl_step ?s ?t"
    by (rule get_hit) (simp_all add: Get_stale_def TimedCache_Set_def NewTimedCache_def)
  ultimately have r: "ttl_reachable 10 ?t" by (rule ttl_next)
  moreover have "(3, ''k'', 7) \<in> returned ?t" by simp
  ultimately show ?thesis using ttl_get_never_stale [OF r, of 3 "''k''" 7] by blast
qed

text \<open>
  C11. \<open>Get\<close> removes the key it found expired without looking again under the write lock. There is
  a run in which a value stored at the present moment is gone at that moment although nobody
  deleted it: a \<open>Set\<close> between the test and the removal is lost.
\<close>

theorem ttl_fresh_set_can_be_lost:
  "\<exists>s :: nat ttl_sys. ttl_reachable 10 s \<and> (clock s, ''k'', 2) \<in> history s
     \<and> live_item (cache s) (clock s) ''k'' = None"
proof -
  let ?it = "\<lparr>createdAt = 0, item_value = 5\<rparr> :: nat cacheItem"
  let ?s = "(ttl_init 10)\<lparr>cache := TimedCache_Set 0 ''k'' 5 (NewTimedCache 10),
     history := {(0, ''k'', 5)}, clock := 10,
     pcs := (\<lambda>_. Idle)(0 := Looked ''k'' (Some ?it))\<rparr> :: nat ttl_sys"
  let ?t = "?s\<lparr>pcs := (pcs ?s)(0 := Evicting ''k'')\<rparr>"
  let ?u = "?t\<lparr>cache := TimedCache_Set (clock ?t) ''k'' 2 (cache ?t),
     history := insert (clock ?t, ''k'', 2) (history ?t)\<rparr>"
  let ?v = "?u\<lparr>pcs := (pcs ?u)(0 := Idle), cache := Get_evict ''k'' (cache ?u)\<rparr>"
  have "ttl_reachable 10 ?s"
    using ttl_lookup_after_set [OF ttl_start, of 10 0 10 "''k''" "5 :: nat"]
    by (simp add: ttl_init_def)
  moreover have "ttl_step ?s ?t"
    by (rule get_expired [where it = ?it]) (simp_all add: Get_stale_def TimedCache_Set_def NewTimedCache_def)
  ultimately have "ttl_reachable 10 ?t" by (rule ttl_next)
  moreover have "ttl_step ?t ?u" by (rule set_item)
  ultimately have "ttl_reachable 10 ?u" by (rule ttl_next)
  moreover have "ttl_step ?u ?v" by (rule get_evict) simp
  ultimately have "ttl_reachable 10 ?v" by (rule ttl_next)
  moreover have "(clock ?v, ''k'', 2) \<in> history ?v" by simp
  moreover have "live_item (cache ?v) (clock ?v) ''k'' = None"
    by (simp add: live_item_def Get_evict_def)
  ultimately show ?thesis by blast
qed

end
