(* ===== verification/Jsonl_Reader.thy ===== *)
theory Jsonl_Reader
  imports Jsonl_Retain "HOL-Library.Signed_Division"
begin

text \<open>
  The readers of package jsonl (src/jsonl/filter.go and src/jsonl/reader.go): line filters, the streaming
  scan of one file and of a range of days, sampling into time buckets, and the backward read of the
  last lines of a file. Parameters of the model: \<open>gj\<close> is \<open>gjson.GetBytes\<close>, \<open>rfc\<close> is \<open>time.Parse\<close> with
  \<open>RFC3339Nano\<close> and \<open>unmarshal\<close> is \<open>json.Unmarshal\<close> into the caller's type.
\<close>

subsection \<open>Filters\<close>

datatype gjson_Type = gjson_Null | gjson_Bool | gjson_Number | gjson_String | gjson_JSON

record gjson_Result =
  gj_Type :: gjson_Type
  gj_Int :: int
  gj_Str :: string
  gj_String :: string

type_synonym jsonl_Filter = "(bytes \<Rightarrow> bool) option"

definition jsonl_And :: "jsonl_Filter list \<Rightarrow> jsonl_Filter" where
  "jsonl_And filters =
     (case List.map_filter (\<lambda>f. f) filters of
        [] \<Rightarrow> None
      | [f] \<Rightarrow> Some f
      | fs \<Rightarrow> Some (\<lambda>line. list_all (\<lambda>f. f line) fs))"

definition StrEq :: "(bytes \<Rightarrow> string \<Rightarrow> gjson_Result) \<Rightarrow> string \<Rightarrow> string \<Rightarrow> jsonl_Filter" where
  "StrEq gj path val =
     (if path = [] \<or> val = [] then None else Some (\<lambda>line. gj_String (gj line path) = val))"

definition ParseTimestamp ::
  "(bytes \<Rightarrow> string \<Rightarrow> gjson_Result) \<Rightarrow> (string \<Rightarrow> int option) \<Rightarrow> bytes \<Rightarrow> string \<Rightarrow> int option" where
  "ParseTimestamp gj rfc line path =
     (if path = [] then None
      else case gj_Type (gj line path) of
             gjson_Number \<Rightarrow> Some (gj_Int (gj line path))
           | gjson_String \<Rightarrow> rfc (gj_Str (gj line path))
           | _ \<Rightarrow> None)"

definition tsGTEFilter ::
  "(bytes \<Rightarrow> string \<Rightarrow> gjson_Result) \<Rightarrow> (string \<Rightarrow> int option) \<Rightarrow> string \<Rightarrow> int \<Rightarrow> jsonl_Filter" where
  "tsGTEFilter gj rfc path cutoffUnix =
     (if path = [] then None
      else Some (\<lambda>line. case ParseTimestamp gj rfc line path of None \<Rightarrow> False | Some ts \<Rightarrow> cutoffUnix \<le> ts))"

definition accepts :: "jsonl_Filter \<Rightarrow> bytes \<Rightarrow> bool" where
  "accepts flt line = (case flt of None \<Rightarrow> True | Some g \<Rightarrow> g line)"

lemma accepts_simps [simp]: "accepts None line" "accepts (Some g) line = g line"
  by (simp_all add: accepts_def)

text \<open>Composition keeps a line when every filter that is present keeps it.\<close>

lemma accepts_And: "accepts (jsonl_And fs) line \<longleftrightarrow> (\<forall>f\<in>set fs. accepts f line)"
proof -
  have "(\<forall>f\<in>set fs. accepts f line) \<longleftrightarrow> list_all (\<lambda>g. g line) (List.map_filter (\<lambda>f. f) fs)"
    by (induction fs) (auto simp: List.map_filter_simps split: option.splits)
  then show ?thesis
    by (auto simp: jsonl_And_def split: list.splits)
qed

subsection \<open>Scanning a file\<close>

text \<open>
  A line of \<open>max_token\<close> bytes or more does not fit the buffer of the scanner and stops the scan.
\<close>

definition max_token :: nat where
  "max_token = 1048576"

text \<open>The handler of the caller is a function of the line and its own state; \<open>False\<close> ends the scan.\<close>

type_synonym 'h handler = "bytes \<Rightarrow> 'h \<Rightarrow> bool \<times> 'h"

fun scan_loop :: "jsonl_Filter \<Rightarrow> 'h handler \<Rightarrow> bytes list \<Rightarrow> 'h \<Rightarrow> go_error option \<times> 'h" where
  "scan_loop flt hd_fn [] h = (None, h)"
| "scan_loop flt hd_fn (raw # rest) h =
     (if max_token \<le> length raw then (Some (Errorf ''bufio.Scanner: token too long''), h)
      else
        let line = drop_cr raw
        in if line = [] then scan_loop flt hd_fn rest h
           else if \<not> accepts flt line then scan_loop flt hd_fn rest h
           else case hd_fn line h of
                  (False, h') \<Rightarrow> (None, h')
                | (True, h') \<Rightarrow> scan_loop flt hd_fn rest h')"

definition ScanFile :: "fs \<Rightarrow> string \<Rightarrow> jsonl_Filter \<Rightarrow> 'h handler \<Rightarrow> 'h \<Rightarrow> go_error option \<times> 'h" where
  "ScanFile f path flt hd_fn h =
     (case os_Open f path of
        Inl e \<Rightarrow> (if errors_Is e ErrNotExist then (None, h) else (Some e, h))
      | Inr n \<Rightarrow>
          (case faults f (SysRead path) of
             Some e \<Rightarrow> (Some e, h)
           | None \<Rightarrow>
               (case n of
                  RegFile data m \<Rightarrow> scan_loop flt hd_fn (raw_lines data) h
                | _ \<Rightarrow> (Some (ErrIO ''is a directory''), h))))"

text \<open>The files of the dates are scanned in turn; \<open>None\<close> is a call that does not return.\<close>

fun scan_dates :: "fs \<Rightarrow> Store \<Rightarrow> jsonl_Filter \<Rightarrow> 'h handler \<Rightarrow> string list \<Rightarrow> 'h \<Rightarrow> go_error option \<times> 'h" where
  "scan_dates f s flt hd_fn [] h = (None, h)"
| "scan_dates f s flt hd_fn (date # dates) h =
     (let path = Store_FilePath s date
      in case ScanFile f path flt hd_fn h of
           (Some e, h') \<Rightarrow> (Some (Wrapf (''jsonl: scan '' @ path) e), h')
         | (None, h') \<Rightarrow> scan_dates f s flt hd_fn dates h')"

definition ScanSince ::
  "(bytes \<Rightarrow> string \<Rightarrow> gjson_Result) \<Rightarrow> (string \<Rightarrow> int option) \<Rightarrow> location \<Rightarrow> int \<Rightarrow> fs \<Rightarrow> Store \<Rightarrow> int \<Rightarrow> string
   \<Rightarrow> jsonl_Filter \<Rightarrow> 'h handler \<Rightarrow> 'h \<Rightarrow> (go_error option \<times> 'h) option" where
  "ScanSince gj rfc tlocal now f s cutoffUnix tsField extra hd_fn h =
     (case daysInRange tlocal cutoffUnix now (Some (st_loc s)) of
        None \<Rightarrow> None
      | Some dates \<Rightarrow>
          let combined = jsonl_And [tsGTEFilter gj rfc tsField cutoffUnix, extra]
          in Some (scan_dates f s combined hd_fn dates h))"

definition DecodeSince ::
  "(bytes \<Rightarrow> string \<Rightarrow> gjson_Result) \<Rightarrow> (string \<Rightarrow> int option) \<Rightarrow> (bytes \<Rightarrow> 'v option) \<Rightarrow> location \<Rightarrow> int \<Rightarrow> fs
   \<Rightarrow> Store \<Rightarrow> int \<Rightarrow> string \<Rightarrow> jsonl_Filter \<Rightarrow> ('v list \<times> go_error option) option" where
  "DecodeSince gj rfc unmarshal tlocal now f s cutoffUnix tsField extra =
     map_option (\<lambda>(err, out). (out, err))
       (ScanSince gj rfc tlocal now f s cutoffUnix tsField extra
          (\<lambda>line out. case unmarshal line of None \<Rightarrow> (True, out) | Some v \<Rightarrow> (True, out @ [v])) [])"

subsection \<open>Sampling\<close>

type_synonym buckets = "int \<Rightarrow> (int \<times> bytes) option"

definition sample_line ::
  "(bytes \<Rightarrow> string \<Rightarrow> gjson_Result) \<Rightarrow> (string \<Rightarrow> int option) \<Rightarrow> int \<Rightarrow> string \<Rightarrow> int \<Rightarrow> int \<Rightarrow> buckets handler" where
  "sample_line gj rfc cutoffUnix tsField bucketSeconds maxBucket line bs =
     (case ParseTimestamp gj rfc line tsField of
        None \<Rightarrow> (True, bs)
      | Some ts \<Rightarrow>
          let b0 = wrap64 (wrap64 (ts - cutoffUnix) sdiv bucketSeconds);
              bucket = (if b0 > maxBucket then maxBucket else b0)
          in case bs bucket of
               Some (prev_ts, prev_line) \<Rightarrow>
                 if prev_ts > ts then (True, bs) else (True, bs(bucket \<mapsto> (ts, line)))
             | None \<Rightarrow> (True, bs(bucket \<mapsto> (ts, line))))"

definition bucket_width :: "int \<Rightarrow> int \<Rightarrow> int \<Rightarrow> int" where
  "bucket_width now cutoffUnix sampleSize =
     (let w0 = wrap64 (now - cutoffUnix);
          window = (if w0 \<le> 0 then 1 else w0);
          b = wrap64 (wrap64 (wrap64 (window + sampleSize) - 1) sdiv sampleSize)
      in if b \<le> 0 then 1 else b)"

definition DecodeSinceSampled ::
  "(bytes \<Rightarrow> string \<Rightarrow> gjson_Result) \<Rightarrow> (string \<Rightarrow> int option) \<Rightarrow> (bytes \<Rightarrow> 'v option) \<Rightarrow> location \<Rightarrow> int \<Rightarrow> fs
   \<Rightarrow> Store \<Rightarrow> int \<Rightarrow> string \<Rightarrow> jsonl_Filter \<Rightarrow> int \<Rightarrow> ('v list \<times> go_error option) option" where
  "DecodeSinceSampled gj rfc unmarshal tlocal now f s cutoffUnix tsField extra sampleSize =
     (if sampleSize \<le> 0 then DecodeSince gj rfc unmarshal tlocal now f s cutoffUnix tsField extra
      else
        let maxBucket = sampleSize - 1
        in case ScanSince gj rfc tlocal now f s cutoffUnix tsField extra
                  (sample_line gj rfc cutoffUnix tsField (bucket_width now cutoffUnix sampleSize) maxBucket)
                  (\<lambda>_. None) of
             None \<Rightarrow> None
           | Some (Some e, bs) \<Rightarrow> Some ([], Some e)
           | Some (None, bs) \<Rightarrow>
               Some (List.map_filter (\<lambda>b. case bs b of None \<Rightarrow> None | Some (ts, line) \<Rightarrow> unmarshal line) [0..maxBucket],
                     None))"

subsection \<open>Reading the last lines\<close>

text \<open>
  The inner loop of \<open>tailLines\<close>: \<open>i\<close> is the index above the byte looked at, \<open>e\<close> the end of the line
  being collected. It returns the lines found, the new end, and whether \<open>n\<close> lines were reached.
\<close>

fun tail_inner :: "nat \<Rightarrow> jsonl_Filter \<Rightarrow> bytes \<Rightarrow> nat \<Rightarrow> nat \<Rightarrow> bytes list \<Rightarrow> bytes list \<times> nat \<times> bool" where
  "tail_inner n flt merged 0 e result = (result, e, False)"
| "tail_inner n flt merged (Suc i) e result =
     (if merged ! i \<noteq> nl then tail_inner n flt merged i e result
      else
        let line = take (e - Suc i) (drop (Suc i) merged)
        in if line = [] then tail_inner n flt merged i i result
           else if \<not> accepts flt line then tail_inner n flt merged i i result
           else let result' = result @ [line]
                in if n \<le> length result' then (result', i, True)
                   else tail_inner n flt merged i i result')"

text \<open>The outer loop reads blocks of \<open>Suc c\<close> bytes backwards.\<close>

function tail_outer :: "nat \<Rightarrow> nat \<Rightarrow> jsonl_Filter \<Rightarrow> bytes \<Rightarrow> nat \<Rightarrow> bytes \<Rightarrow> bytes list \<Rightarrow> bytes list" where
  "tail_outer c n flt data pos carry result =
     (if pos = 0 \<or> n \<le> length result then result
      else
        let readSize = (if pos < Suc c then pos else Suc c);
            pos' = pos - readSize;
            merged = take readSize (drop pos' data) @ carry
        in case tail_inner n flt merged (length merged) (length merged) result of
             (result', e, finished) \<Rightarrow>
               if finished then result'
               else
                 let carry' = take e merged
                 in if pos' = 0 \<and> carry' \<noteq> [] then
                      (if accepts flt carry' then result' @ [carry'] else result')
                    else tail_outer c n flt data pos' carry' result')"
  by pat_completeness auto
termination by (relation "measure (\<lambda>(c, n, flt, data, pos, carry, result). pos)") (auto split: if_splits)

definition chunkSize :: nat where
  "chunkSize = 32 * 1024"

text \<open>A block lies inside the file, so reading it fails only with an error other than \<open>io.EOF\<close>.\<close>

definition tailLines :: "fs \<Rightarrow> string \<Rightarrow> int \<Rightarrow> jsonl_Filter \<Rightarrow> bytes list go_result" where
  "tailLines f path n flt =
     (if n \<le> 0 then Inr []
      else case os_Open f path of
             Inl e \<Rightarrow> (if errors_Is e ErrNotExist then Inr [] else Inl e)
           | Inr node \<Rightarrow>
               if node_size node = 0 then Inr []
               else (case faults f (SysRead path) of
                       Some e \<Rightarrow> Inl e
                     | None \<Rightarrow>
                         (case node of
                            RegFile data m \<Rightarrow> Inr (tail_outer (chunkSize - 1) (nat n) flt data (length data) [] [])
                          | _ \<Rightarrow> Inl (ErrIO ''is a directory''))))"

definition DecodeTail ::
  "(bytes \<Rightarrow> 'v option) \<Rightarrow> fs \<Rightarrow> string \<Rightarrow> int \<Rightarrow> jsonl_Filter \<Rightarrow> 'v list go_result" where
  "DecodeTail unmarshal f path n flt =
     (case tailLines f path n flt of
        Inl e \<Rightarrow> Inl e
      | Inr lines \<Rightarrow> Inr (List.map_filter unmarshal lines))"

text \<open>\<open>DecodeTailDays\<close>: \<open>k\<close> days are still to come, the next one is \<open>back\<close> days ago.\<close>

fun tail_days ::
  "(bytes \<Rightarrow> 'v option) \<Rightarrow> fs \<Rightarrow> Store \<Rightarrow> int \<Rightarrow> int \<Rightarrow> jsonl_Filter \<Rightarrow> nat \<Rightarrow> int \<Rightarrow> 'v list \<Rightarrow> 'v list go_result" where
  "tail_days unmarshal f s now limit flt 0 back out = Inr out"
| "tail_days unmarshal f s now limit flt (Suc k) back out =
     (if limit \<le> int (length out) then Inr out
      else
        let date = time_Format (st_loc s) (time_AddDays (st_loc s) (- back) now);
            path = Store_FilePath s date
        in case tailLines f path (limit - int (length out)) flt of
             Inl e \<Rightarrow> Inl (Wrapf (''jsonl: tail '' @ path) e)
           | Inr lines \<Rightarrow>
               tail_days unmarshal f s now limit flt k (back + 1) (out @ List.map_filter unmarshal lines))"

definition DecodeTailDays ::
  "(bytes \<Rightarrow> 'v option) \<Rightarrow> fs \<Rightarrow> Store option \<Rightarrow> int \<Rightarrow> int \<Rightarrow> int \<Rightarrow> jsonl_Filter \<Rightarrow> 'v list go_result" where
  "DecodeTailDays unmarshal f s_opt now days limit flt =
     (case s_opt of
        None \<Rightarrow> Inr []
      | Some s \<Rightarrow>
          if days \<le> 0 \<or> limit \<le> 0 then Inr []
          else tail_days unmarshal f s now limit flt (nat days) 0 [])"

subsection \<open>The backward read finds the last lines\<close>

definition kept :: "jsonl_Filter \<Rightarrow> bytes list \<Rightarrow> bytes list" where
  "kept flt ls = filter (\<lambda>l. l \<noteq> [] \<and> accepts flt l) ls"

text \<open>What \<open>tailLines\<close> returns: the newest non-empty accepted lines, newest first, at most \<open>n\<close>.\<close>

definition newest :: "nat \<Rightarrow> jsonl_Filter \<Rightarrow> bytes \<Rightarrow> bytes list" where
  "newest n flt data = take n (kept flt (rev (strings_Split nl data)))"

lemma kept_append [simp]: "kept flt (xs @ ys) = kept flt xs @ kept flt ys"
  by (simp add: kept_def)

lemma kept_single: "kept flt [l] = (if l \<noteq> [] \<and> accepts flt l then [l] else [])"
  by (simp add: kept_def)

text \<open>At a newline the inner loop takes the line behind it, if it is kept.\<close>

lemma tail_inner_newline:
  assumes "merged ! i = nl" "length result < n" "k = kept flt [take (e - Suc i) (drop (Suc i) merged)]"
  shows "tail_inner n flt merged (Suc i) e result =
    (if n \<le> length (result @ k) then (result @ k, i, True) else tail_inner n flt merged i i (result @ k))"
  using assms by (simp add: Let_def kept_single)

lemma take_at_newline:
  "i < e \<Longrightarrow> e \<le> length xs \<Longrightarrow> take e xs = take i xs @ xs ! i # take (e - Suc i) (drop (Suc i) xs)"
  by (metis Cons_nth_drop_Suc Suc_diff_Suc le_add_diff_inverse less_imp_le_nat less_le_trans take_Suc_Cons take_add)

lemma tail_inner_spec:
  assumes "e \<le> length merged" "i \<le> e" "nl \<notin> set (take (e - i) (drop i merged))" "length result < n"
  shows "\<exists>result' e' finished. tail_inner n flt merged i e result = (result', e', finished) \<and>
    (let parts = strings_Split nl (take e merged)
     in result' = take n (result @ kept flt (rev (tl parts))) \<and> (finished \<longleftrightarrow> n \<le> length result') \<and>
        (\<not> finished \<longrightarrow> take e' merged = hd parts))"
  using assms
proof (induction i arbitrary: e result)
  case 0
  then have "strings_Split nl (take e merged) = [take e merged]" by (simp add: Split_no_sep)
  with 0 show ?case by (simp add: kept_def)
next
  case (Suc i)
  show ?case
  proof (cases "merged ! i = nl")
    case False
    have "drop i merged = merged ! i # drop (Suc i) merged" "e - i = Suc (e - Suc i)"
      using Suc.prems by (simp_all add: Cons_nth_drop_Suc)
    then have "nl \<notin> set (take (e - i) (drop i merged))" using Suc.prems False by simp
    with Suc.IH [of e result] Suc.prems False show ?thesis by simp
  next
    case True
    let ?line = "take (e - Suc i) (drop (Suc i) merged)"
    let ?parts = "strings_Split nl (take i merged)"
    let ?k = "kept flt [?line]"
    have "strings_Split nl (take e merged) = ?parts @ [?line]"
      using Suc.prems True take_at_newline [of i e merged] by (simp add: Split_append Split_no_sep)
    then have parts: "hd (strings_Split nl (take e merged)) = hd ?parts"
      "kept flt (rev (tl (strings_Split nl (take e merged)))) = ?k @ kept flt (rev (tl ?parts))"
      using kept_append [of flt "[?line]" "rev (tl ?parts)"] by (cases ?parts; simp)+
    note run = tail_inner_newline [OF True Suc.prems(4) refl, of flt e]
    show ?thesis
    proof (cases "n \<le> length (result @ ?k)")
      case True
      then have "n = length (result @ ?k)" using Suc.prems(4) by (simp add: kept_single split: if_splits)
      then show ?thesis using True run parts by (simp add: Let_def)
    next
      case False
      then show ?thesis using Suc.IH [of i "result @ ?k"] Suc.prems run parts by (simp add: Let_def)
    qed
  qed
qed

text \<open>A line that reaches into the window is the last part before it, with the carry behind.\<close>

lemma Split_carry:
  assumes "strings_Split c ys = carry # ls"
  shows "strings_Split c (xs @ ys) = strings_Split c (xs @ carry) @ ls"
proof -
  have "c \<notin> set carry" using assms Split_parts_no_sep [of carry c ys] by simp
  then show ?thesis using assms Split_append_hd [of c xs ys] Split_append_hd [of c xs carry] by (simp add: Split_no_sep)
qed

lemma newest_reached:
  assumes "strings_Split nl (drop pos data) = p # ls" "n \<le> length (kept flt (rev ls))"
  shows "newest n flt data = take n (kept flt (rev ls))"
  using assms Split_append_hd [of nl "take pos data" "drop pos data"] by (simp add: newest_def)

text \<open>One block: its complete lines are taken until there are enough.\<close>

lemma tail_block:
  assumes "length result < n" "strings_Split nl merged = p # ps"
  obtains e' where
    "tail_inner n flt merged (length merged) (length merged) result =
       (take n (result @ kept flt (rev ps)), e', n \<le> length (result @ kept flt (rev ps)))"
    "length (result @ kept flt (rev ps)) < n \<Longrightarrow> take e' merged = p"
proof -
  have "n \<le> length (take n (result @ xs)) \<longleftrightarrow> n \<le> length (result @ xs)" for xs by auto
  then show thesis
    using tail_inner_spec [of "length merged" merged "length merged" result n flt] assms that
    by (auto simp: Let_def simp del: take_append length_append length_take)
qed

text \<open>
  The invariant of the outer loop: the bytes from \<open>pos\<close> on are the carry, without a newline, followed by
  complete lines \<open>ls\<close>, and the result holds the kept ones of those.
\<close>

lemma tail_outer_spec:
  assumes "pos \<le> length data" "strings_Split nl (drop pos data) = carry # ls"
    "result = kept flt (rev ls)" "length result < n" "pos = 0 \<longrightarrow> carry = []"
  shows "tail_outer c n flt data pos carry result = newest n flt data"
  using assms
proof (induction pos arbitrary: carry result ls rule: less_induct)
  case (less pos)
  note prems = less.prems
  show ?case
  proof (cases "pos = 0")
    case True
    then have "kept flt (rev (strings_Split nl data)) = result"
      using prems(2,3,5) by (simp add: kept_def)
    then show ?thesis using True prems(4) by (simp add: newest_def)
  next
    case False
    define rs where "rs = (if pos < Suc c then pos else Suc c)"
    define pos' where "pos' = pos - rs"
    define merged where "merged = take rs (drop pos' data) @ carry"
    have rs: "rs \<le> pos" "pos' + rs = pos" using False by (auto simp: rs_def pos'_def)
    obtain p ps where ps: "strings_Split nl merged = p # ps" by (cases "strings_Split nl merged") auto
    have "drop pos' data = take rs (drop pos' data) @ drop pos data"
      using rs by (metis append_take_drop_id drop_drop add.commute)
    then have split: "strings_Split nl (drop pos' data) = p # (ps @ ls)"
      using Split_carry [OF prems(2), of "take rs (drop pos' data)"] ps by (simp add: merged_def)
    have all: "result @ kept flt (rev ps) = kept flt (rev (ps @ ls))" using prems(3) by simp
    obtain e' where inner: "tail_inner n flt merged (length merged) (length merged) result =
        (take n (kept flt (rev (ps @ ls))), e', n \<le> length (kept flt (rev (ps @ ls))))"
      and e': "length (kept flt (rev (ps @ ls))) < n \<Longrightarrow> take e' merged = p"
      using tail_block [OF prems(4) ps, of flt] unfolding all by blast
    have entered: "\<not> (pos = 0 \<or> n \<le> length result)" using False prems(4) by simp
    have "tail_outer c n flt data pos carry result =
        (if n \<le> length (kept flt (rev (ps @ ls))) then take n (kept flt (rev (ps @ ls)))
         else if pos' = 0 \<and> take e' merged \<noteq> []
           then (if accepts flt (take e' merged) then take n (kept flt (rev (ps @ ls))) @ [take e' merged]
                 else take n (kept flt (rev (ps @ ls))))
         else tail_outer c n flt data pos' (take e' merged) (take n (kept flt (rev (ps @ ls)))))"
      by (subst tail_outer.simps) (simp only: entered if_False Let_def rs_def [symmetric] pos'_def [symmetric]
          merged_def [symmetric] inner prod.case)
    then have step: "tail_outer c n flt data pos carry result =
        (if n \<le> length (kept flt (rev (ps @ ls))) then take n (kept flt (rev (ps @ ls)))
         else if pos' = 0 \<and> p \<noteq> [] then kept flt (rev (ps @ ls)) @ kept flt [p]
         else tail_outer c n flt data pos' p (kept flt (rev (ps @ ls))))"
      using e' by (simp add: kept_single not_le)
    consider (enough) "n \<le> length (kept flt (rev (ps @ ls)))"
      | (first) "length (kept flt (rev (ps @ ls))) < n" "pos' = 0 \<and> p \<noteq> []"
      | (more) "length (kept flt (rev (ps @ ls))) < n" "\<not> (pos' = 0 \<and> p \<noteq> [])" by linarith
    then show ?thesis
    proof cases
      case enough
      then show ?thesis using step newest_reached [OF split] by simp
    next
      case first
      then have "newest n flt data = take n (kept flt (rev (ps @ ls)) @ kept flt [p])" using split by (simp add: newest_def)
      then show ?thesis using step first by (simp add: kept_single)
    next
      case more
      then have "tail_outer c n flt data pos' p (kept flt (rev (ps @ ls))) = newest n flt data"
        using rs False prems(1) split by (intro less.IH [of pos' p "ps @ ls"]) (auto simp: rs_def pos'_def)
      then show ?thesis using step more by auto
    qed
  qed
qed

lemma tail_file:
  assumes "os_Open f path = Inr (RegFile data m)" "faults f (SysRead path) = None"
  shows "tailLines f path n flt = Inr (newest (nat n) flt data)"
proof (cases "n \<le> 0 \<or> data = []")
  case True
  then show ?thesis using assms by (auto simp: tailLines_def newest_def kept_def)
next
  case False
  then have "tail_outer (chunkSize - 1) (nat n) flt data (length data) [] [] = newest (nat n) flt data"
    by (intro tail_outer_spec [where ls = "[]"]) (auto simp: kept_def)
  with False assms show ?thesis by (simp add: tailLines_def)
qed

text \<open>
  C4. \<open>tailLines\<close> returns exactly the newest accepted lines: for a readable file, whatever its size, its
  blocks and the lengths of its lines, the backward read gives the last \<open>n\<close> non-empty lines that pass
  the filter, newest first, as if the whole file had been split at its newlines.
\<close>

theorem tailLines_newest:
  assumes "os_Open f path = Inr (RegFile data m)" "faults f (SysRead path) = None"
  shows "tailLines f path n flt = Inr (newest (nat n) flt data)"
  using assms by (rule tail_file)

definition demo_file_fs :: "bytes \<Rightarrow> fs" where
  "demo_file_fs data = put_node (False, [''f'']) (RegFile data 420) empty_fs"

lemma demo_file:
  "os_Open (demo_file_fs data) ''f'' = Inr (RegFile data 420)" "faults (demo_file_fs data) c = None"
proof -
  have "path_key ''f'' = (False, [''f''])" by (simp add: path_key_def path_elems_def filepath_IsAbs_def)
  then show "os_Open (demo_file_fs data) ''f'' = Inr (RegFile data 420)"
    by (intro Open_file) (simp_all add: demo_file_fs_def node_at_put, simp add: empty_fs_def)
qed (simp add: demo_file_fs_def empty_fs_def)

theorem tailLines_newest_witness:
  "tailLines (demo_file_fs (''a'' @ [nl] @ ''b'' @ [nl, nl] @ ''c'')) ''f'' 2 None = Inr [''c'', ''b'']"
  using tailLines_newest [OF demo_file(1,2), of "''a'' @ [nl] @ ''b'' @ [nl, nl] @ ''c''" 2 None]
  by (simp add: newest_def kept_def)

subsection \<open>What a scan visits\<close>

fun visit :: "'h handler \<Rightarrow> bytes list \<Rightarrow> 'h \<Rightarrow> 'h" where
  "visit hd_fn [] h = h"
| "visit hd_fn (l # ls) h = (case hd_fn l h of (go, h') \<Rightarrow> if go then visit hd_fn ls h' else h')"

definition scanned :: "jsonl_Filter \<Rightarrow> bytes \<Rightarrow> bytes list" where
  "scanned flt data = kept flt (map drop_cr (raw_lines data))"

lemma kept_Cons: "kept flt (l # ls) = (if l \<noteq> [] \<and> accepts flt l then [l] else []) @ kept flt ls"
  by (simp add: kept_def)

lemma scan_loop_visit:
  "\<forall>l\<in>set ls. length l < max_token \<Longrightarrow>
     scan_loop flt hd_fn ls h = (None, visit hd_fn (kept flt (map drop_cr ls)) h)"
  by (induction ls arbitrary: h) (auto simp: kept_Cons Let_def kept_def split: prod.splits bool.splits)

lemma scan_file:
  assumes "os_Open f path = Inr (RegFile data m)" "faults f (SysRead path) = None"
    "\<forall>l\<in>set (raw_lines data). length l < max_token"
  shows "ScanFile f path flt hd_fn h = (None, visit hd_fn (scanned flt data) h)"
  using assms by (simp add: ScanFile_def scanned_def scan_loop_visit)

text \<open>
  \<open>ScanFile\<close> gives the handler exactly the file's non-empty accepted lines, in file order and with
  their carriage return stripped, up to the first one for which it returns false; a missing file has none.
\<close>

theorem ScanFile_visits:
  assumes "os_Open f path = Inr (RegFile data m)" "faults f (SysRead path) = None"
    "\<forall>l\<in>set (raw_lines data). length l < max_token"
  shows "ScanFile f path flt hd_fn h = (None, visit hd_fn (scanned flt data) h)"
  using assms by (rule scan_file)

theorem ScanFile_visits_witness:
  "ScanFile (demo_file_fs (''a'' @ [cr, nl, nl] @ ''b'')) ''f'' None (\<lambda>l h. (True, h @ [l])) [] = (None, [''a'', ''b''])"
  using ScanFile_visits [OF demo_file(1,2), of "''a'' @ [cr, nl, nl] @ ''b''" None "\<lambda>l h. (True, h @ [l])" "[]"]
  by (simp add: raw_lines_def scanned_def drop_cr_def kept_def max_token_def)

text \<open>A line too long for the buffer ends the scan with an error after the lines before it.\<close>

lemma scan_loop_too_long:
  "\<forall>l\<in>set ls. length l < max_token \<Longrightarrow> max_token \<le> length long \<Longrightarrow> (\<And>l h. fst (hd_fn l h)) \<Longrightarrow>
     scan_loop flt hd_fn (ls @ long # rest) h =
       (Some (Errorf ''bufio.Scanner: token too long''), visit hd_fn (kept flt (map drop_cr ls)) h)"
proof (induction ls arbitrary: h)
  case (Cons l ls)
  have "hd_fn (drop_cr l) h = (True, snd (hd_fn (drop_cr l) h))"
    using Cons.prems(3) [of "drop_cr l" h] by (metis prod.collapse)
  then show ?case using Cons by (auto simp: kept_Cons Let_def split: prod.splits)
qed (simp add: kept_def)

subsection \<open>Reading back what was written\<close>

text \<open>A marshalled value: JSON text, so it is not empty, holds no raw newline and ends in no carriage return.\<close>

definition json_line :: "bytes \<Rightarrow> bool" where
  "json_line v \<longleftrightarrow> v \<noteq> [] \<and> nl \<notin> set v \<and> last v \<noteq> cr \<and> length v < max_token"

lemma Split_file: "\<forall>v\<in>set vs. nl \<notin> set v \<Longrightarrow> strings_Split nl (concat (map (\<lambda>v. v @ [nl]) vs)) = vs @ [[]]"
  using Split_lines [of vs nl "[]"] by simp

lemma raw_lines_file: "\<forall>v\<in>set vs. nl \<notin> set v \<Longrightarrow> raw_lines (concat (map (\<lambda>v. v @ [nl]) vs)) = vs"
  by (simp add: raw_lines_def Split_file)

lemma drop_cr_line: "json_line v \<Longrightarrow> drop_cr v = v"
  by (simp add: json_line_def drop_cr_def)

fun written :: "Store \<Rightarrow> store_call list \<Rightarrow> string \<Rightarrow> bytes list" where
  "written s [] d = []"
| "written s (CallAppend now v # cs) d = (if Store_Today now s = d then [v] else []) @ written s cs d"
| "written s (c # cs) d = written s cs d"

lemma lines_written: "lines_of_day (appended s cs) d = concat (map (\<lambda>v. v @ [nl]) (written s cs d))"
  by (induction s cs d rule: written.induct) auto

lemma written_lines: "\<forall>t v. CallAppend t v \<in> set cs \<longrightarrow> P v \<Longrightarrow> \<forall>v\<in>set (written s cs d). P v"
  by (induction s cs d rule: written.induct) auto

text \<open>
  C3. Written lines come back. On a file system whose calls do not fail, with a directory, a naming without
  slashes and no day file of it there yet, and for values that are JSON texts of less than 1 MiB: after any calls on a fresh synchronous store and a final
  \<open>Close\<close>, scanning the file of a day with at least one line visits exactly the lines appended on that day that
  the filter accepts, in order, and the backward read returns the newest of them, newest first. (\<open>Append\<close> takes
  longer lines too, but the scanner stops at them.)
\<close>

theorem jsonl_roundtrip:
  assumes new: "jsonl_New tlocal dir naming opts f = (Inr s, f0)" "faults f = (\<lambda>_. None)" "dir \<noteq> []"
    "plain_naming naming" "\<And>d. dashed d \<Longrightarrow> node_at f (Store_FilePath s d) = None" "st_ch s = None"
    and d: "dashed d" and lines: "\<forall>t v. CallAppend t v \<in> set calls \<longrightarrow> json_line v"
    and run: "do_calls (calls @ [CallClose clock]) (s, f0) = (errs, s', f')"
    and some: "written s calls d \<noteq> []"
  shows "ScanFile f' (Store_FilePath s d) flt hd_fn h = (None, visit hd_fn (filter (accepts flt) (written s calls d)) h)
    \<and> tailLines f' (Store_FilePath s d) n flt = Inr (take (nat n) (filter (accepts flt) (rev (written s calls d))))"
proof -
  let ?p = "Store_FilePath s d" and ?vs = "written s calls d"
  let ?data = "concat (map (\<lambda>v. v @ [nl]) ?vs)"
  have plain: "plain_node (node_at f (Store_FilePath s d))" if "dashed d" for d
    using new(5) [OF that] by (simp add: plain_node_def)
  have disk0: "disk f ?p = []" using new(5) [OF d] by (simp add: disk_def)
  have ok: "sync_ok (s', f')" and disk: "disk f' ?p = ?data"
    using sync_run [OF new(1-4) plain new(6) d, of calls clock] run by (auto simp: disk0 lines_written)
  then obtain m where node: "node_at f' ?p = Some (RegFile ?data m)"
    using some by (cases "node_at f' ?p") (auto simp: disk_def split: node.splits)
  have fl: "faults f' c = None" for c using ok by (auto simp: sync_ok_def store_okD(1))
  have js: "\<forall>v\<in>set ?vs. json_line v" by (rule written_lines [OF lines])
  then have no_nl: "\<forall>v\<in>set ?vs. nl \<notin> set v" and short: "\<forall>v\<in>set ?vs. length v < max_token"
    and cr: "map drop_cr ?vs = ?vs" and ne: "\<forall>v\<in>set ?vs. v \<noteq> []"
    by (auto simp: json_line_def drop_cr_def intro!: map_idI)
  have open_p: "os_Open f' ?p = Inr (RegFile ?data m)" using node fl by (intro Open_file)
  have "scanned flt ?data = filter (accepts flt) ?vs"
    using ne by (auto simp: scanned_def raw_lines_file [OF no_nl] cr kept_def intro: filter_cong)
  moreover have "newest k flt ?data = take k (filter (accepts flt) (rev ?vs))" for k
    using ne by (auto simp: newest_def Split_file [OF no_nl] kept_def intro!: arg_cong [where f = "take k"] filter_cong)
  ultimately show ?thesis
    using scan_file [OF open_p fl, of flt hd_fn h] tail_file [OF open_p fl, of n flt] short
    by (simp add: raw_lines_file [OF no_nl])
qed

theorem jsonl_roundtrip_witness:
  "\<exists>errs s' f'. do_calls [CallAppend 5 ''a'', CallAppend 7 ''bb'', CallClose (\<lambda>_. 0)] (demo_store [WithBufferSize 8], demo_fs) = (errs, s', f')
     \<and> ScanFile f' (Store_FilePath (demo_store [WithBufferSize 8]) ''1970-01-01'') None (\<lambda>l h. (True, h @ [l])) [] = (None, [''a'', ''bb''])
     \<and> tailLines f' (Store_FilePath (demo_store [WithBufferSize 8]) ''1970-01-01'') 1 None = Inr [''bb'']"
proof -
  let ?s = "demo_store [WithBufferSize 8]" and ?cs = "[CallAppend 5 ''a'', CallAppend 7 ''bb'']"
  have ch: "st_ch ?s = None" by (simp add: demo_store_def jsonl_New_def demo_MkdirAll Let_def WithBufferSize_def)
  have today: "Store_Today t ?s = ''1970-01-01''" if "0 \<le> t" "t < 86400" for t
    using demo_days(1) [OF that] by (simp add: demo_store_def jsonl_New_def demo_MkdirAll Let_def WithBufferSize_def Store_Today_def)
  have w: "written ?s ?cs ''1970-01-01'' = [''a'', ''bb'']" using today [of 5] today [of 7] by simp
  have empty: "node_at empty_fs (Store_FilePath ?s d) = None" if "dashed d" for d
    using path_key_FilePath [of ?s d] demo_plain demo_New that
    by (simp add: node_at_def node_of_def empty_fs_def)
  obtain errs s' f' where run: "do_calls (?cs @ [CallClose (\<lambda>_. 0)]) (?s, demo_fs) = (errs, s', f')"
    by (metis prod.collapse)
  have "\<forall>t v. CallAppend t v \<in> set ?cs \<longrightarrow> json_line v" by (auto simp: json_line_def max_token_def)
  from jsonl_roundtrip [OF demo_New(1) _ _ demo_plain empty ch _ this run, of "''1970-01-01''" None "\<lambda>l h. (True, h @ [l])" "[]" 1]
  show ?thesis using run w today [of 5] today [of 7] by (simp add: empty_fs_def dashed_def)
qed

subsection \<open>Scanning a range of days\<close>

text \<open>A day file that can be read: a plain file or none, with lines that fit the scanner.\<close>

definition readable :: "fs \<Rightarrow> string \<Rightarrow> bool" where
  "readable f p \<longleftrightarrow> faults f (SysOpen p) = None \<and> faults f (SysRead p) = None \<and> plain_node (node_at f p)
     \<and> (\<forall>l\<in>set (raw_lines (disk f p)). length l < max_token)"

definition day_lines :: "fs \<Rightarrow> Store \<Rightarrow> jsonl_Filter \<Rightarrow> string \<Rightarrow> bytes list" where
  "day_lines f s flt d = scanned flt (disk f (Store_FilePath s d))"

lemma ScanFile_readable:
  assumes "readable f p"
  shows "ScanFile f p flt hd_fn h = (None, visit hd_fn (scanned flt (disk f p)) h)"
proof (cases "node_at f p")
  case None
  then have "os_Open f p = Inl ErrNotExist" using assms by (simp add: os_Open_def readable_def)
  then show ?thesis using None by (simp add: ScanFile_def disk_def scanned_def raw_lines_def kept_def errors_Is_def)
next
  case (Some n)
  then obtain c m where n: "node_at f p = Some (RegFile c m)"
    using assms by (cases n) (auto simp: readable_def plain_node_def)
  then have "disk f p = c" by (simp add: disk_def)
  then show ?thesis using scan_file [OF Open_file [OF _ n]] assms by (simp add: readable_def)
qed

lemma scan_dates_visit:
  "\<forall>d\<in>set dates. readable f (Store_FilePath s d) \<Longrightarrow>
     scan_dates f s flt hd_fn dates h = (None, fold (\<lambda>d. visit hd_fn (day_lines f s flt d)) dates h)"
  by (induction dates arbitrary: h) (auto simp: ScanFile_readable day_lines_def Let_def)

lemma visit_all: "(\<And>l h. hd_fn l h = (True, g l h)) \<Longrightarrow> visit hd_fn ls h = fold g ls h"
  by (induction ls arbitrary: h) auto

lemma fold_visits: "fold (\<lambda>d. fold g (ls d)) ds h = fold g (concat (map ls ds)) h"
  by (induction ds arbitrary: h) auto

lemma fold_decode:
  "fold (\<lambda>line out. case um line of None \<Rightarrow> out | Some v \<Rightarrow> out @ [v]) ls out = out @ List.map_filter um ls"
  by (induction ls arbitrary: out) (auto simp: List.map_filter_simps split: option.split)

definition since_filter ::
  "(bytes \<Rightarrow> string \<Rightarrow> gjson_Result) \<Rightarrow> (string \<Rightarrow> int option) \<Rightarrow> string \<Rightarrow> int \<Rightarrow> jsonl_Filter \<Rightarrow> jsonl_Filter" where
  "since_filter gj rfc tsField cutoff extra = jsonl_And [tsGTEFilter gj rfc tsField cutoff, extra]"

lemma accepts_since:
  "accepts (since_filter gj rfc tsField cutoff extra) line \<longleftrightarrow> accepts extra line
     \<and> (tsField = [] \<or> (\<exists>ts. ParseTimestamp gj rfc line tsField = Some ts \<and> cutoff \<le> ts))"
  by (auto simp: since_filter_def accepts_And tsGTEFilter_def split: option.splits)

text \<open>The conditions under which the days of a scan are the calendar days of its range.\<close>

definition scan_range :: "Store \<Rightarrow> int \<Rightarrow> int \<Rightarrow> fs \<Rightarrow> bool" where
  "scan_range s from to f \<longleftrightarrow> offset_span (st_loc s) \<and> from \<le> to
     \<and> local_day (st_loc s) from \<le> local_day (st_loc s) to
     \<and> (\<forall>d\<in>{local_day (st_loc s) from..local_day (st_loc s) to + 1}. has_midnight (st_loc s) d)
     \<and> (\<forall>d\<in>{local_day (st_loc s) from..local_day (st_loc s) to}.
          readable f (Store_FilePath s (format_date (date_of_day d))))"

definition range_dates :: "Store \<Rightarrow> int \<Rightarrow> int \<Rightarrow> string list" where
  "range_dates s from to = map (\<lambda>d. format_date (date_of_day d)) [local_day (st_loc s) from..local_day (st_loc s) to]"

lemma ScanSince_visit:
  assumes "scan_range s cutoff now f"
  shows "ScanSince gj rfc tlocal now f s cutoff tsField extra hd_fn h =
    Some (None, fold (\<lambda>d. visit hd_fn (day_lines f s (since_filter gj rfc tsField cutoff extra) d)) (range_dates s cutoff now) h)"
proof -
  have "daysInRange tlocal cutoff now (Some (st_loc s)) = Some (range_dates s cutoff now)"
    using days_in_range [of "st_loc s" cutoff now tlocal] assms by (simp add: scan_range_def range_dates_def)
  moreover have "\<forall>d\<in>set (range_dates s cutoff now). readable f (Store_FilePath s d)"
    using assms by (auto simp: scan_range_def range_dates_def)
  ultimately show ?thesis by (simp add: ScanSince_def scan_dates_visit since_filter_def)
qed

text \<open>A directory with the files of two days.\<close>

lemma demo_store_paths:
  "Store_FilePath (demo_store opts) d = day_path ''log'' demo_naming d" "st_loc (demo_store []) = (\<lambda>_. 0)"
  by (simp_all add: Store_FilePath_def demo_New)
    (simp add: demo_store_def jsonl_New_def demo_MkdirAll Let_def)

lemma demo_nodes:
  "node_at demo_retain_fs (day_path ''log'' demo_naming ''1970-01-01'') = Some (RegFile ''x'' 420)"
  "node_at demo_retain_fs (day_path ''log'' demo_naming ''1970-01-02'') = Some (RegFile ''y'' 420)"
  using day_path_key [of "''log''" demo_naming "''1970-01-01''"] day_path_key [of "''log''" demo_naming "''1970-01-02''"]
  by (simp_all add: demo_retain_fs_def node_at_put demo_log_key demo_plain dashed_def)
    (simp_all add: Naming_FileName_def demo_naming_def)

lemma demo_day_names:
  "format_date (date_of_day 0) = ''1970-01-01''" "format_date (date_of_day 1) = ''1970-01-02''"
  using demo_days(1) [of 0] demo_days(2) [of 86400] by (simp_all add: time_Format_def local_day_def)

lemma demo_dates: "range_dates (demo_store []) 0 86400 = [''1970-01-01'', ''1970-01-02'']"
proof -
  have "[0..1] = [0, 1::int]" by (simp add: upto_rec1)
  then show ?thesis by (simp add: range_dates_def demo_store_paths local_day_def demo_day_names)
qed

lemma demo_readable:
  "readable demo_retain_fs (day_path ''log'' demo_naming ''1970-01-01'')"
  "readable demo_retain_fs (day_path ''log'' demo_naming ''1970-01-02'')"
  by (simp_all add: readable_def plain_node_def disk_def demo_nodes raw_lines_def max_token_def)
    (simp_all add: demo_retain_fs_def demo_fs_def empty_fs_def)

lemma demo_range: "scan_range (demo_store []) 0 86400 demo_retain_fs"
proof -
  have "readable demo_retain_fs (day_path ''log'' demo_naming (format_date (date_of_day d)))" if "0 \<le> d" "d \<le> 1" for d
  proof -
    have "d = 0 \<or> d = 1" using that by auto
    then show ?thesis using demo_day_names demo_readable by auto
  qed
  then show ?thesis
    by (auto simp: scan_range_def demo_store_paths local_day_def offset_span_def has_midnight_fixed
        demo_day_names demo_readable)
qed

lemma demo_lines:
  "day_lines demo_retain_fs (demo_store []) (since_filter gj rfc [] c None) ''1970-01-01'' = [''x'']"
  "day_lines demo_retain_fs (demo_store []) (since_filter gj rfc [] c None) ''1970-01-02'' = [''y'']"
  by (simp_all add: day_lines_def scanned_def kept_def accepts_since demo_store_paths disk_def demo_nodes
      raw_lines_def drop_cr_def)

text \<open>
  A handler that asks to stop is not obeyed across files: \<open>ScanSince\<close> ends the scan of the current
  day's file and goes on with the next day, so a handler that always answers false is still called once
  for every day of the range that has an accepted line.
\<close>

theorem ScanSince_stops_one_file_only:
  assumes "scan_range s cutoff now f"
  shows "ScanSince gj rfc tlocal now f s cutoff tsField extra (\<lambda>line calls. (False, calls + 1)) (0 :: nat) =
    Some (None, length (filter (\<lambda>d. day_lines f s (since_filter gj rfc tsField cutoff extra) d \<noteq> [])
      (range_dates s cutoff now)))"
proof -
  have "visit (\<lambda>line calls. (False, calls + 1)) ls k = (if ls = [] then k else k + (1::nat))" for ls k
    by (cases ls) auto
  then have v: "visit (\<lambda>line calls. (False, calls + 1)) = (\<lambda>ls k. if ls = [] then k else k + (1::nat))"
    by (intro ext)
  have "fold (\<lambda>d k. if P d then k else k + 1) ds (k::nat) = k + length (filter (\<lambda>d. \<not> P d) ds)" for P and ds :: "string list" and k
    by (induction ds arbitrary: k) auto
  then show ?thesis unfolding ScanSince_visit [OF assms] v by simp
qed

theorem ScanSince_stops_one_file_only_witness:
  "\<forall>gj rfc. ScanSince gj rfc (\<lambda>_. 0) 86400 demo_retain_fs (demo_store []) 0 [] None (\<lambda>line calls. (False, calls + 1)) (0 :: nat)
     = Some (None, 2)"
proof (intro allI)
  fix gj rfc
  show "ScanSince gj rfc (\<lambda>_. 0) 86400 demo_retain_fs (demo_store []) 0 [] None (\<lambda>line calls. (False, calls + 1)) (0 :: nat)
     = Some (None, 2)"
    using ScanSince_stops_one_file_only [OF demo_range, of gj rfc "\<lambda>_. 0" "[]" None]
    by (simp add: demo_dates demo_lines)
qed



subsection \<open>Sampling keeps the newest line of each bucket\<close>

text \<open>The bucket of a timestamp and the lines a table of buckets stands for.\<close>

definition sample_bucket :: "int \<Rightarrow> int \<Rightarrow> int \<Rightarrow> int \<Rightarrow> int" where
  "sample_bucket cutoff width maxBucket ts = min ((ts - cutoff) div width) maxBucket"

lemma bucket_width_pos: "0 < bucket_width now cutoff n"
  by (simp add: bucket_width_def Let_def)

lemma sample_line_bucket:
  assumes "ParseTimestamp gj rfc line tsField = Some ts" "cutoff \<le> ts" "ts - cutoff < 2 ^ 63" "0 < width"
  shows "sample_line gj rfc cutoff tsField width maxBucket line bs =
    (True, case bs (sample_bucket cutoff width maxBucket ts) of
             Some p \<Rightarrow> if fst p > ts then bs else bs(sample_bucket cutoff width maxBucket ts \<mapsto> (ts, line))
           | None \<Rightarrow> bs(sample_bucket cutoff width maxBucket ts \<mapsto> (ts, line)))"
proof -
  have d: "wrap64 (ts - cutoff) = ts - cutoff" using assms(2,3) by (intro wrap64_id) (simp add: in_int64_def min_int64_def max_int64_def)
  have q: "0 \<le> (ts - cutoff) div width" "(ts - cutoff) div width \<le> ts - cutoff"
    using assms(2,4) zdiv_mono2 [of "ts - cutoff" 1 width] by (simp_all add: pos_imp_zdiv_nonneg_iff)
  then have "wrap64 ((ts - cutoff) div width) = (ts - cutoff) div width"
    using assms(3) by (intro wrap64_id) (simp add: in_int64_def min_int64_def max_int64_def)
  moreover have "(ts - cutoff) sdiv width = (ts - cutoff) div width"
    using assms(2,4) by (simp add: signed_divide_int_def sgn_if)
  ultimately show ?thesis
    using assms(1) d by (auto simp: sample_line_def sample_bucket_def Let_def min_def split: option.split)
qed

definition sampled_ok :: "(bytes \<Rightarrow> int) \<Rightarrow> (int \<Rightarrow> int) \<Rightarrow> bytes list \<Rightarrow> buckets \<Rightarrow> bool" where
  "sampled_ok ts bucket ls bs \<longleftrightarrow> (\<forall>b. case bs b of
       None \<Rightarrow> \<forall>l\<in>set ls. bucket (ts l) \<noteq> b
     | Some (t, l) \<Rightarrow> l \<in> set ls \<and> t = ts l \<and> bucket t = b \<and> (\<forall>l'\<in>set ls. bucket (ts l') = b \<longrightarrow> ts l' \<le> t))"

lemma sampled_okD:
  "sampled_ok ts bucket ls bs \<Longrightarrow> bs b = Some (t, l) \<Longrightarrow>
     l \<in> set ls \<and> t = ts l \<and> bucket t = b \<and> (\<forall>l'\<in>set ls. bucket (ts l') = b \<longrightarrow> ts l' \<le> t)"
  "sampled_ok ts bucket ls bs \<Longrightarrow> bs b = None \<Longrightarrow> l \<in> set ls \<Longrightarrow> bucket (ts l) \<noteq> b"
  unfolding sampled_ok_def by (drule spec [of _ b]; auto)+

definition bucket_insert :: "(bytes \<Rightarrow> int) \<Rightarrow> (int \<Rightarrow> int) \<Rightarrow> bytes \<Rightarrow> buckets \<Rightarrow> buckets" where
  "bucket_insert ts bucket l bs =
     (case bs (bucket (ts l)) of
        Some p \<Rightarrow> if fst p > ts l then bs else bs(bucket (ts l) \<mapsto> (ts l, l))
      | None \<Rightarrow> bs(bucket (ts l) \<mapsto> (ts l, l)))"

lemma sampled_step:
  assumes "sampled_ok ts bucket ls bs"
  shows "sampled_ok ts bucket (ls @ [l]) (bucket_insert ts bucket l bs)"
  unfolding sampled_ok_def bucket_insert_def
proof
  fix b
  have at: "case bs b of None \<Rightarrow> \<forall>l\<in>set ls. bucket (ts l) \<noteq> b
     | Some (t, l) \<Rightarrow> l \<in> set ls \<and> t = ts l \<and> bucket t = b \<and> (\<forall>l'\<in>set ls. bucket (ts l') = b \<longrightarrow> ts l' \<le> t)" for b
    using assms unfolding sampled_ok_def by blast
  show "case (case bs (bucket (ts l)) of
      Some p \<Rightarrow> if fst p > ts l then bs else bs(bucket (ts l) \<mapsto> (ts l, l))
    | None \<Rightarrow> bs(bucket (ts l) \<mapsto> (ts l, l))) b of
       None \<Rightarrow> \<forall>l\<in>set (ls @ [l]). bucket (ts l) \<noteq> b
     | Some (t, l') \<Rightarrow> l' \<in> set (ls @ [l]) \<and> t = ts l' \<and> bucket t = b
         \<and> (\<forall>l'\<in>set (ls @ [l]). bucket (ts l') = b \<longrightarrow> ts l' \<le> t)"
    using at [of b] at [of "bucket (ts l)"]
    by (cases "b = bucket (ts l)"; cases "bs b"; cases "bs (bucket (ts l))") (fastforce split: if_splits)+
qed

lemma sampled_fold:
  "sampled_ok ts bucket ls bs \<Longrightarrow> sampled_ok ts bucket (ls @ ms) (fold (bucket_insert ts bucket) ms bs)"
proof (induction ms arbitrary: ls bs)
  case (Cons m ms)
  from Cons.IH [OF sampled_step [OF Cons.prems, of m]] show ?case by simp
qed simp

text \<open>The picked lines, bucket by bucket.\<close>

lemma picked_sorted:
  assumes ok: "sampled_ok ts (sample_bucket cutoff w M) ls bs" and "0 < w"
  shows "sorted_wrt (<) (map fst (List.map_filter bs [0..M]))"
proof -
  have less: "t1 < t2" if "bs a = Some (t1, l1)" "bs b = Some (t2, l2)" "a < b" "b \<le> M" for a b t1 t2 l1 l2
  proof -
    have "sample_bucket cutoff w M t1 = a" "sample_bucket cutoff w M t2 = b"
      using sampled_okD(1) [OF ok that(1)] sampled_okD(1) [OF ok that(2)] by auto
    then have "(t1 - cutoff) div w < (t2 - cutoff) div w"
      using that(3,4) by (auto simp: sample_bucket_def min_def split: if_splits)
    then show ?thesis using zdiv_mono1 [of "t2 - cutoff" "t1 - cutoff" w] assms(2) by linarith
  qed
  have "sorted_wrt (<) (map fst (List.map_filter bs bs_list))" if "sorted_wrt (<) bs_list" "\<forall>b\<in>set bs_list. b \<le> M" for bs_list
    using that
  proof (induction bs_list)
    case (Cons b rest)
    have "t < t'" if b: "bs b = Some (t, l)" and later: "(t', l') \<in> set (List.map_filter bs rest)" for t l t' l'
    proof -
      obtain b' where "b' \<in> set rest" "bs b' = Some (t', l')"
        using later by (auto simp: List.map_filter_def)
      then show ?thesis using less [OF b] Cons.prems by auto
    qed
    then show ?case using Cons by (auto simp: List.map_filter_simps split: option.split)
  qed (simp add: List.map_filter_simps)
  then show ?thesis by simp
qed

lemma map_filter_decode:
  "List.map_filter (\<lambda>b. case bs b of None \<Rightarrow> None | Some (t, l) \<Rightarrow> um l) xs = List.map_filter um (map snd (List.map_filter bs xs))"
  by (induction xs) (auto simp: List.map_filter_simps split: option.split)

lemma length_map_filter: "length (List.map_filter g xs) \<le> length xs"
  by (simp add: List.map_filter_def)

text \<open>The sampling scan puts every line that \<open>DecodeSince\<close> would decode into its bucket.\<close>

lemma sampled_scan:
  assumes range: "scan_range s cutoff now f" and "tsField \<noteq> []"
    and ls: "ls = concat (map (day_lines f s (since_filter gj rfc tsField cutoff extra)) (range_dates s cutoff now))"
    and ts: "ts = (\<lambda>l. the (ParseTimestamp gj rfc l tsField))" and fits: "\<forall>l\<in>set ls. ts l - cutoff < 2 ^ 63" and "0 < w"
  shows "ScanSince gj rfc tlocal now f s cutoff tsField extra (sample_line gj rfc cutoff tsField w M) h =
      Some (None, fold (bucket_insert ts (sample_bucket cutoff w M)) ls h)"
    and "l \<in> set ls \<Longrightarrow> cutoff \<le> ts l"
proof -
  let ?h = "sample_line gj rfc cutoff tsField w M" and ?step = "bucket_insert ts (sample_bucket cutoff w M)"
  let ?L = "day_lines f s (since_filter gj rfc tsField cutoff extra)"
  have acc: "ParseTimestamp gj rfc l tsField = Some (ts l) \<and> cutoff \<le> ts l" if "l \<in> set ls" for l
    using that assms(2) unfolding ls ts by (auto simp: day_lines_def scanned_def kept_def accepts_since)
  then show "l \<in> set ls \<Longrightarrow> cutoff \<le> ts l" by blast
  have step: "?h l bs = (True, ?step l bs)" if "l \<in> set ls" for l bs
    using sample_line_bucket [of gj rfc l tsField "ts l" cutoff w M bs] acc [OF that] fits that \<open>0 < w\<close>
    by (simp add: bucket_insert_def)
  have vis: "visit ?h ms bs = fold ?step ms bs" if "set ms \<subseteq> set ls" for ms bs
    using that by (induction ms arbitrary: bs) (auto simp: step)
  have "visit ?h (?L d) = fold ?step (?L d)" if "d \<in> set (range_dates s cutoff now)" for d
    using that by (intro ext vis) (auto simp: ls)
  then have "fold (\<lambda>d. visit ?h (?L d)) (range_dates s cutoff now) bs
      = fold (\<lambda>d. fold ?step (?L d)) (range_dates s cutoff now) bs" for bs
    by (intro fold_cong) simp_all
  then show "ScanSince gj rfc tlocal now f s cutoff tsField extra ?h h = Some (None, fold ?step ls h)"
    unfolding ScanSince_visit [OF range] by (simp add: fold_visits ls)
qed

lemma picked_covers:
  assumes ok: "sampled_ok ts bucket ls bs" and l: "l \<in> set ls" and "0 \<le> bucket (ts l)" "bucket (ts l) \<le> M"
  shows "\<exists>(t, l')\<in>set (List.map_filter bs [0..M]). bucket t = bucket (ts l) \<and> ts l \<le> t"
proof -
  obtain t l' where t: "bs (bucket (ts l)) = Some (t, l')"
    using sampled_okD(2) [OF ok _ l] by (cases "bs (bucket (ts l))") auto
  moreover have "bucket (ts l) \<in> set [0..M]" using assms(3,4) by simp
  ultimately have "(t, l') \<in> set (List.map_filter bs [0..M])" by (force simp: List.map_filter_def)
  with sampled_okD(1) [OF ok t] l show ?thesis by blast
qed

text \<open>
  C6. \<open>DecodeSinceSampled\<close> keeps the newest line of every time bucket. Under the conditions of \<open>DecodeSince\<close> above (on
  the range, the time zone and the day files), with a field for the timestamp and a positive sample size, and when
  no distance to the cutoff overflows, it decodes at most \<open>sampleSize\<close> of the lines that \<open>DecodeSince\<close> would, in
  strictly increasing time order, and every such line shares its bucket with a kept line that is at least as new.
\<close>

theorem DecodeSinceSampled_buckets:
  assumes range: "scan_range s cutoff now f" and "0 < sampleSize" "tsField \<noteq> []"
    and ls: "ls = concat (map (day_lines f s (since_filter gj rfc tsField cutoff extra)) (range_dates s cutoff now))"
    and ts: "ts = (\<lambda>l. the (ParseTimestamp gj rfc l tsField))" and fits: "\<forall>l\<in>set ls. ts l - cutoff < 2 ^ 63"
    and bucket: "bucket = sample_bucket cutoff (bucket_width now cutoff sampleSize) (sampleSize - 1)"
  shows "\<exists>picked. DecodeSinceSampled gj rfc unmarshal tlocal now f s cutoff tsField extra sampleSize =
      Some (List.map_filter unmarshal (map snd picked), None)
    \<and> int (length picked) \<le> sampleSize \<and> sorted_wrt (<) (map fst picked)
    \<and> (\<forall>(t, l)\<in>set picked. l \<in> set ls \<and> t = ts l)
    \<and> (\<forall>l\<in>set ls. \<exists>(t, l')\<in>set picked. bucket t = bucket (ts l) \<and> ts l \<le> t)"
proof -
  let ?w = "bucket_width now cutoff sampleSize" and ?M = "sampleSize - 1"
  note scan = sampled_scan [OF range assms(3) ls ts fits bucket_width_pos]
  define bs where "bs = fold (bucket_insert ts bucket) ls (\<lambda>_. None)"
  have ok: "sampled_ok ts bucket ls bs"
    using sampled_fold [of ts bucket "[]" "\<lambda>_. None" ls] by (simp add: bs_def sampled_ok_def)
  let ?picked = "List.map_filter bs [0..?M]"
  have "DecodeSinceSampled gj rfc unmarshal tlocal now f s cutoff tsField extra sampleSize =
      Some (List.map_filter unmarshal (map snd ?picked), None)"
    using assms(2) scan(1) by (simp add: DecodeSinceSampled_def map_filter_decode bs_def bucket Let_def)
  moreover have "int (length ?picked) \<le> sampleSize"
    using length_map_filter [of bs "[0..?M]"] assms(2) by simp
  moreover have "sorted_wrt (<) (map fst ?picked)"
    using picked_sorted [OF ok [unfolded bucket] bucket_width_pos] .
  moreover have "\<forall>(t, l)\<in>set ?picked. l \<in> set ls \<and> t = ts l"
    using sampled_okD(1) [OF ok] by (auto simp: List.map_filter_def)
  moreover have "\<exists>(t, l')\<in>set ?picked. bucket t = bucket (ts l) \<and> ts l \<le> t" if l: "l \<in> set ls" for l
    using scan(2) [OF l] bucket_width_pos [of now cutoff sampleSize] assms(2)
    by (intro picked_covers [OF ok l]) (auto simp: bucket sample_bucket_def min_def pos_imp_zdiv_nonneg_iff)
  ultimately show ?thesis by blast
qed

lemma demo_lines_any:
  "day_lines demo_retain_fs (demo_store []) flt ''1970-01-01'' = kept flt [''x'']"
  "day_lines demo_retain_fs (demo_store []) flt ''1970-01-02'' = kept flt [''y'']"
  by (simp_all add: day_lines_def scanned_def demo_store_paths disk_def demo_nodes raw_lines_def drop_cr_def)

definition demo_gj :: "bytes \<Rightarrow> string \<Rightarrow> gjson_Result" where
  "demo_gj line path = \<lparr>gj_Type = gjson_Number, gj_Int = (if line = ''x'' then 10 else 86390), gj_Str = [], gj_String = []\<rparr>"

theorem DecodeSinceSampled_buckets_witness:
  "\<exists>picked :: (int \<times> bytes) list. DecodeSinceSampled demo_gj (\<lambda>_. None) Some (\<lambda>_. 0) 86400 demo_retain_fs (demo_store []) 0 ''ts'' None 5 =
     Some (List.map_filter Some (map snd picked), None) \<and> int (length picked) \<le> 5 \<and> sorted_wrt (<) (map fst picked)"
proof -
  let ?flt = "since_filter demo_gj (\<lambda>_. None) ''ts'' 0 None"
  have "accepts ?flt ''x''" "accepts ?flt ''y''"
    by (simp_all add: accepts_since ParseTimestamp_def demo_gj_def)
  then have ls: "concat (map (day_lines demo_retain_fs (demo_store []) ?flt) (range_dates (demo_store []) 0 86400)) = [''x'', ''y'']"
    by (simp add: demo_dates demo_lines_any kept_def)
  have fits: "\<forall>l\<in>set [''x'', ''y'']. the (ParseTimestamp demo_gj (\<lambda>_. None) l ''ts'') - 0 < 2 ^ 63"
    by (simp add: ParseTimestamp_def demo_gj_def)
  have "(0 :: int) < 5" "''ts'' \<noteq> []" by simp_all
  from DecodeSinceSampled_buckets [OF demo_range this refl refl _ refl, of demo_gj "\<lambda>_. None" None Some "\<lambda>_. 0",
      unfolded ls, OF fits]
  show ?thesis by blast
qed

subsection \<open>The newest lines of the last days\<close>

definition back_date :: "Store \<Rightarrow> int \<Rightarrow> int \<Rightarrow> string" where
  "back_date s now b = time_Format (st_loc s) (time_AddDays (st_loc s) (- b) now)"

definition tailable :: "fs \<Rightarrow> string \<Rightarrow> bool" where
  "tailable f p \<longleftrightarrow> faults f (SysOpen p) = None \<and> faults f (SysRead p) = None \<and> plain_node (node_at f p)"

lemma tail_tailable:
  assumes "tailable f p"
  shows "tailLines f p n flt = Inr (newest (nat n) flt (disk f p))"
proof (cases "node_at f p")
  case None
  then have "os_Open f p = Inl ErrNotExist" using assms by (simp add: os_Open_def tailable_def)
  then show ?thesis using None by (simp add: tailLines_def disk_def newest_def kept_def errors_Is_def)
next
  case (Some n')
  then obtain c m where n: "node_at f p = Some (RegFile c m)"
    using assms by (cases n') (auto simp: tailable_def plain_node_def)
  then show ?thesis using tail_file [OF Open_file [OF _ n]] assms by (simp add: tailable_def disk_def)
qed

definition day_newest :: "fs \<Rightarrow> Store \<Rightarrow> jsonl_Filter \<Rightarrow> string \<Rightarrow> bytes list" where
  "day_newest f s flt d = kept flt (rev (strings_Split nl (disk f (Store_FilePath s d))))"

lemma map_filter_all: "\<forall>l\<in>set ls. um l \<noteq> None \<Longrightarrow> List.map_filter um ls = map (\<lambda>l. the (um l)) ls"
  by (induction ls) (auto simp: List.map_filter_simps)

lemma take_take_append: "take m (take m xs @ ys) = take m (xs @ ys)"
  by (simp add: min_def)

lemma tail_days_spec:
  assumes "\<forall>b\<in>{b0..<b0 + int k}. tailable f (Store_FilePath s (back_date s now b))"
    and "\<forall>b\<in>{b0..<b0 + int k}. \<forall>l\<in>set (day_newest f s flt (back_date s now b)). um l \<noteq> None"
    and "0 < limit" "int (length out) \<le> limit"
  shows "tail_days um f s now limit flt k b0 out = Inr (take (nat limit) (out @
    map (\<lambda>l. the (um l)) (concat (map (\<lambda>b. day_newest f s flt (back_date s now b)) [b0..b0 + int k - 1]))))"
  using assms
proof (induction k arbitrary: b0 out)
  case (Suc k)
  show ?case
  proof (cases "limit \<le> int (length out)")
    case True
    then have "nat limit = length out" using Suc.prems(4) by simp
    then show ?thesis using True by simp
  next
    case False
    let ?p = "Store_FilePath s (back_date s now b0)" and ?ls = "day_newest f s flt (back_date s now b0)"
    let ?left = "nat (limit - int (length out))"
    let ?out = "out @ map (\<lambda>l. the (um l)) (take ?left ?ls)"
    have here: "tailable f ?p" "\<forall>l\<in>set ?ls. um l \<noteq> None" using Suc.prems(1,2) by auto
    have "tailLines f ?p (limit - int (length out)) flt = Inr (take ?left ?ls)"
      using tail_tailable [OF here(1)] by (simp add: newest_def day_newest_def)
    moreover have "List.map_filter um (take ?left ?ls) = map (\<lambda>l. the (um l)) (take ?left ?ls)"
      using here(2) by (intro map_filter_all) (auto dest: in_set_takeD)
    ultimately have step: "tail_days um f s now limit flt (Suc k) b0 out = tail_days um f s now limit flt k (b0 + 1) ?out"
      using False by (simp add: back_date_def Let_def)
    have "int (length ?out) \<le> limit" using False by simp
    then have "tail_days um f s now limit flt k (b0 + 1) ?out = Inr (take (nat limit) (?out @
        map (\<lambda>l. the (um l)) (concat (map (\<lambda>b. day_newest f s flt (back_date s now b)) [b0 + 1..b0 + 1 + int k - 1]))))"
      using Suc.prems by (intro Suc.IH) auto
    moreover have "[b0..b0 + int (Suc k) - 1] = b0 # [b0 + 1..b0 + 1 + int k - 1]"
      using upto_rec1 [of b0 "b0 + int k"] by (simp add: algebra_simps)
    moreover have "take (nat limit) (?out @ ys) = take (nat limit) (out @ map (\<lambda>l. the (um l)) ?ls @ ys)" for ys
      using take_take_append [of ?left "map (\<lambda>l. the (um l)) ?ls" ys] False
      by (simp add: take_map nat_diff_distrib')
    ultimately show ?thesis using step by simp
  qed
qed simp

text \<open>
  \<open>DecodeTailDays\<close> returns the newest \<open>limit\<close> accepted lines of the last \<open>days\<close> days: when their
  files can be read and every accepted line decodes, the result is the first \<open>limit\<close> of today's lines
  from last to first, then yesterday's, and so on.
\<close>

theorem DecodeTailDays_newest:
  assumes "0 < days" "0 < limit"
    and "\<forall>b\<in>{0..<days}. tailable f (Store_FilePath s (back_date s now b))"
    and "\<forall>b\<in>{0..<days}. \<forall>l\<in>set (day_newest f s flt (back_date s now b)). um l \<noteq> None"
  shows "DecodeTailDays um f (Some s) now days limit flt = Inr (take (nat limit)
    (map (\<lambda>l. the (um l)) (concat (map (\<lambda>b. day_newest f s flt (back_date s now b)) [0..days - 1]))))"
  using tail_days_spec [of 0 "nat days" f s now flt um limit "[]"] assms
  by (simp add: DecodeTailDays_def)

theorem DecodeTailDays_newest_witness:
  "DecodeTailDays Some demo_retain_fs (Some (demo_store [])) 86400 2 5 None = Inr [''y'', ''x'']"
proof -
  have days: "[0..1] = [0, 1::int]" by (simp add: upto_rec1)
  have dates: "back_date (demo_store []) 86400 0 = ''1970-01-02''" "back_date (demo_store []) 86400 1 = ''1970-01-01''"
    using demo_days(1) [of 0] demo_days(2) [of 86400]
    by (simp_all add: back_date_def demo_store_paths time_AddDays_def time_Date_def local_day_def local_secs_def)
  have t: "tailable demo_retain_fs (day_path ''log'' demo_naming ''1970-01-01'')"
    "tailable demo_retain_fs (day_path ''log'' demo_naming ''1970-01-02'')"
    using demo_readable by (simp_all add: tailable_def readable_def)
  have l: "day_newest demo_retain_fs (demo_store []) None ''1970-01-01'' = [''x'']"
    "day_newest demo_retain_fs (demo_store []) None ''1970-01-02'' = [''y'']"
    by (simp_all add: day_newest_def demo_store_paths disk_def demo_nodes kept_def)
  have two: "{0..<2} = {0, 1::int}" by auto
  show ?thesis
    using DecodeTailDays_newest [of 2 5 demo_retain_fs "demo_store []" 86400 None Some]
    by (simp add: two days dates demo_store_paths t l)
qed

end
