(* ===== verification/Go_Base64.thy ===== *)
theory Go_Base64
  imports Go_Prelude
begin

text \<open>
  \<open>base64.StdEncoding\<close>: padded encoding, and decoding that skips line breaks and rejects missing or
  misplaced padding. The error of a failed decoding is one value; Go's also carries an offset.
\<close>

definition b64_char :: "nat \<Rightarrow> char" where
  "b64_char i =
     (if i < 26 then char_of (65 + i) else if i < 52 then char_of (71 + i)
      else if i < 62 then char_of (i - 4) else if i = 62 then CHR ''+'' else CHR ''/'')"

definition b64_val :: "char \<Rightarrow> nat option" where
  "b64_val c =
     (let n = of_char c :: nat
      in if 65 \<le> n \<and> n \<le> 90 then Some (n - 65)
         else if 97 \<le> n \<and> n \<le> 122 then Some (n - 71)
         else if 48 \<le> n \<and> n \<le> 57 then Some (n + 4)
         else if n = 43 then Some 62
         else if n = 47 then Some 63
         else None)"

abbreviation pad :: char where "pad \<equiv> CHR ''=''"

fun b64_enc :: "nat list \<Rightarrow> string" where
  "b64_enc [] = []"
| "b64_enc [a] = [b64_char (a div 4), b64_char (a mod 4 * 16), pad, pad]"
| "b64_enc [a, b] = [b64_char (a div 4), b64_char (a mod 4 * 16 + b div 16), b64_char (b mod 16 * 4), pad]"
| "b64_enc (a # b # c # rest) =
     [b64_char (a div 4), b64_char (a mod 4 * 16 + b div 16), b64_char (b mod 16 * 4 + c div 64), b64_char (c mod 64)]
     @ b64_enc rest"

definition base64_EncodeToString :: "bytes \<Rightarrow> string" where
  "base64_EncodeToString d = b64_enc (map of_char d)"

fun b64_dec :: "string \<Rightarrow> nat list option" where
  "b64_dec [] = Some []"
| "b64_dec (p # q # r # s # rest) =
     (case (b64_val p, b64_val q) of
        (Some x, Some y) \<Rightarrow>
          if r = pad then (if s = pad \<and> rest = [] then Some [x * 4 + y div 16] else None)
          else (case b64_val r of
                  None \<Rightarrow> None
                | Some z \<Rightarrow>
                    if s = pad then (if rest = [] then Some [x * 4 + y div 16, y mod 16 * 16 + z div 4] else None)
                    else (case (b64_val s, b64_dec rest) of
                            (Some w, Some ds) \<Rightarrow>
                              Some ((x * 4 + y div 16) # (y mod 16 * 16 + z div 4) # (z mod 4 * 64 + w) # ds)
                          | _ \<Rightarrow> None))
      | _ \<Rightarrow> None)"
| "b64_dec _ = None"

definition base64_DecodeString :: "string \<Rightarrow> bytes go_result" where
  "base64_DecodeString s =
     (case b64_dec (filter (\<lambda>c. c \<noteq> nl \<and> c \<noteq> cr) s) of
        None \<Rightarrow> Inl (Errorf ''illegal base64 data'') | Some ds \<Rightarrow> Inr (map char_of ds))"

lemma b64_val_char: "i < 64 \<Longrightarrow> b64_val (b64_char i) = Some i"
  by (auto simp: b64_char_def b64_val_def Let_def)

lemma b64_val_special [simp]: "b64_val pad = None" "b64_val nl = None" "b64_val cr = None"
  by (simp_all add: b64_val_def)

lemma b64_char_ne: "i < 64 \<Longrightarrow> b64_char i \<noteq> pad \<and> b64_char i \<noteq> nl \<and> b64_char i \<noteq> cr"
  using b64_val_char [of i] b64_val_special by force

lemma b64_dec_enc: "\<forall>x\<in>set ds. x < 256 \<Longrightarrow> b64_dec (b64_enc ds) = Some ds"
proof (induction ds rule: b64_enc.induct)
  case (2 a)
  have "a div 4 < 64" "a mod 4 * 16 < 64" using 2 by auto
  then show ?case by (simp add: b64_val_char)
next
  case (3 a b)
  have lt: "a div 4 < 64" "a mod 4 * 16 + b div 16 < 64" "b mod 16 * 4 < 64" using 3 by auto
  have "b div 16 < 16" using 3 by auto
  then have "b div 16 div 16 = 0" "b div 16 mod 16 * 16 + b mod 16 = b" by simp_all
  then show ?case using lt by (simp add: b64_val_char b64_char_ne)
next
  case (4 a b c rest)
  have lt: "a div 4 < 64" "a mod 4 * 16 + b div 16 < 64" "b mod 16 * 4 + c div 64 < 64" "c mod 64 < 64" using 4 by auto
  have b: "b div 16 < 16" "c div 64 < 4" using 4 by auto
  have "(a mod 4 * 16 + b div 16) div 16 = a mod 4" "(a mod 4 * 16 + b div 16) mod 16 = b div 16"
    "(b mod 16 * 4 + c div 64) div 4 = b mod 16" "(b mod 16 * 4 + c div 64) mod 4 = c div 64"
    using b by auto
  then show ?case using 4 lt by (simp add: b64_val_char b64_char_ne)
qed simp

lemma b64_enc_plain: "\<forall>x\<in>set ds. x < 256 \<Longrightarrow> filter (\<lambda>c. c \<noteq> nl \<and> c \<noteq> cr) (b64_enc ds) = b64_enc ds"
proof (induction ds rule: b64_enc.induct)
  case (2 a)
  have "a div 4 < 64" "a mod 4 * 16 < 64" using 2 by auto
  then show ?case by (simp add: b64_char_ne)
next
  case (3 a b)
  have "a div 4 < 64" "a mod 4 * 16 + b div 16 < 64" "b mod 16 * 4 < 64" using 3 by auto
  then show ?case by (simp add: b64_char_ne)
next
  case (4 a b c rest)
  have lt: "a div 4 < 64" "a mod 4 * 16 + b div 16 < 64" "b mod 16 * 4 + c div 64 < 64" "c mod 64 < 64" using 4 by auto
  then show ?case using 4 by (simp add: b64_char_ne)
qed simp

lemma base64_roundtrip [simp]: "base64_DecodeString (base64_EncodeToString s) = Inr s"
proof -
  have "\<forall>x\<in>set (map of_char s). x < (256 :: nat)" by auto
  then show ?thesis
    by (simp add: base64_DecodeString_def base64_EncodeToString_def b64_dec_enc b64_enc_plain o_def)
qed

end
