(* ===== verification/Etcd.thy ===== *)
theory Etcd
  imports Go_Base64 "HOL-Library.Word" "HOL-Library.Multiset"
begin

text \<open>
  The etcd client (src/etcd/client.go): endpoint rotation, token handling, the retry on an expired token,
  \<open>Get\<close> and \<open>Put\<close>. The network is an environment that answers a request and changes the world \<open>'w\<close>;
  a JSON request body is kept as the record it is marshalled from, and \<open>json.Unmarshal\<close> of the three
  response types is part of the environment. Texts of error messages are given in English.
\<close>

subsection \<open>Requests, responses and the client\<close>

datatype etcd_body =
    AuthBody string string
  | RangeBody string int
  | PutBody string string
  | WatchBody string

record http_request =
  rq_url :: string
  rq_body :: etcd_body
  rq_auth :: "string option"
  rq_deadline :: "int option"

record http_response =
  rs_status :: int
  rs_raw :: bytes
  rs_read_err :: "go_error option"

record watch_event_json =
  wj_type :: string
  wj_value :: string

record watchResponse =
  wr_events :: "watch_event_json list"
  wr_error :: string

record 'w etcd_env =
  env_request :: "string \<Rightarrow> go_error option"
  env_do :: "http_request \<Rightarrow> 'w \<Rightarrow> http_response go_result \<times> 'w"
  env_token :: "bytes \<Rightarrow> string go_result"
  env_kvs :: "bytes \<Rightarrow> string list go_result"
  env_watch :: "bytes \<Rightarrow> watchResponse go_result"
  env_done :: "'w \<Rightarrow> bool \<times> 'w"
  env_now :: "'w \<Rightarrow> int"

record etcd_Client =
  ec_endpoints :: "string list"
  ec_username :: string
  ec_password :: string
  ec_timeout :: int
  ec_robin :: "64 word"
  ec_token :: string

record etcd_Config =
  cfg_Endpoints :: "string list"
  cfg_Username :: string
  cfg_Password :: string
  cfg_DialTimeout :: int

definition etcd_New :: "etcd_Config \<Rightarrow> etcd_Client" where
  "etcd_New cfg =
     \<lparr>ec_endpoints = cfg_Endpoints cfg, ec_username = cfg_Username cfg, ec_password = cfg_Password cfg,
      ec_timeout = (if cfg_DialTimeout cfg = 0 then 5000000000 else cfg_DialTimeout cfg),
      ec_robin = 0, ec_token = []\<rparr>"

definition b64 :: "string \<Rightarrow> string" where
  "b64 s = base64_EncodeToString s"

subsection \<open>Endpoints and tokens\<close>

definition etcd_endpoint :: "etcd_Client \<Rightarrow> string \<times> etcd_Client" where
  "etcd_endpoint c =
     (if ec_endpoints c = [] then (''http://localhost:2379'', c)
      else let r = ec_robin c + 1;
               idx = r mod of_nat (length (ec_endpoints c))
           in (ec_endpoints c ! unat idx, c\<lparr>ec_robin := r\<rparr>))"

definition resetToken :: "string \<Rightarrow> etcd_Client \<Rightarrow> etcd_Client" where
  "resetToken token c = (if ec_token c = token then c\<lparr>ec_token := []\<rparr> else c)"

text \<open>\<open>setAuth\<close>: the header, when there is a token, and the token used.\<close>

definition setAuth :: "etcd_Client \<Rightarrow> string option \<times> string" where
  "setAuth c = (if ec_token c \<noteq> [] then Some (ec_token c) else None, ec_token c)"

definition status_error :: "string \<Rightarrow> http_response \<Rightarrow> go_error" where
  "status_error what r = Errorf (what @ '' failed '' @ strconv_Itoa (rs_status r) @ '': '' @ rs_raw r)"

definition authenticate :: "'w etcd_env \<Rightarrow> int option \<Rightarrow> etcd_Client \<times> 'w \<Rightarrow> string go_result \<times> etcd_Client \<times> 'w" where
  "authenticate env deadline cw =
     (let (c, w) = cw; (ep, c1) = etcd_endpoint c; url = ep @ ''/v3/auth/authenticate''
      in case env_request env url of
           Some e \<Rightarrow> (Inl e, c1, w)
         | None \<Rightarrow>
             (case env_do env \<lparr>rq_url = url, rq_body = AuthBody (ec_username c) (ec_password c),
                               rq_auth = None, rq_deadline = deadline\<rparr> w of
                (Inl e, w1) \<Rightarrow> (Inl e, c1, w1)
              | (Inr resp, w1) \<Rightarrow>
                  if rs_status resp \<ge> 300 then (Inl (status_error ''etcd authenticate'' resp), c1, w1)
                  else (case env_token env (rs_raw resp) of
                          Inl e \<Rightarrow> (Inl (Wrapf ''etcd authenticate: bad response'' e), c1, w1)
                        | Inr token \<Rightarrow> (Inr token, c1, w1))))"

definition ensureToken :: "'w etcd_env \<Rightarrow> int option \<Rightarrow> etcd_Client \<times> 'w \<Rightarrow> go_error option \<times> etcd_Client \<times> 'w" where
  "ensureToken env deadline cw =
     (let (c, w) = cw
      in if ec_username c = [] then (None, c, w)
         else if ec_token c \<noteq> [] then (None, c, w)
         else case authenticate env deadline (c, w) of
                (Inl e, c1, w1) \<Rightarrow> (Some e, c1, w1)
              | (Inr token, c1, w1) \<Rightarrow> (None, c1\<lparr>ec_token := token\<rparr>, w1))"

subsection \<open>Requests with one retry\<close>

definition doOnce ::
  "'w etcd_env \<Rightarrow> int option \<Rightarrow> string \<Rightarrow> etcd_body \<Rightarrow> etcd_Client \<times> 'w
   \<Rightarrow> (go_error + http_response) \<times> string \<times> etcd_Client \<times> 'w" where
  "doOnce env deadline path body cw =
     (let (c, w) = cw; (ep, c1) = etcd_endpoint c; url = ep @ path
      in case env_request env url of
           Some e \<Rightarrow> (Inl e, [], c1, w)
         | None \<Rightarrow>
             let (hdr, usedToken) = setAuth c1
             in case env_do env \<lparr>rq_url = url, rq_body = body, rq_auth = hdr, rq_deadline = deadline\<rparr> w of
                  (Inl e, w1) \<Rightarrow> (Inl e, usedToken, c1, w1)
                | (Inr resp, w1) \<Rightarrow> (Inr resp, usedToken, c1, w1))"

text \<open>The loop over the attempts of \<open>do\<close>.\<close>

fun do_attempts ::
  "'w etcd_env \<Rightarrow> int option \<Rightarrow> string \<Rightarrow> etcd_body \<Rightarrow> nat list \<Rightarrow> etcd_Client \<times> 'w \<Rightarrow> bytes go_result \<times> etcd_Client \<times> 'w" where
  "do_attempts env deadline path body [] cw = (Inl (Errorf (''etcd '' @ path @ '' not authenticated'')), cw)"
| "do_attempts env deadline path body (attempt # rest) cw =
     (case ensureToken env deadline cw of
        (Some e, cw1) \<Rightarrow> (Inl e, cw1)
      | (None, cw1) \<Rightarrow>
          (case doOnce env deadline path body cw1 of
             (Inl e, usedToken, cw2) \<Rightarrow> (Inl e, cw2)
           | (Inr resp, usedToken, c2, w2) \<Rightarrow>
               if rs_status resp = 401 \<and> attempt = 0 \<and> ec_username c2 \<noteq> []
               then do_attempts env deadline path body rest (resetToken usedToken c2, w2)
               else if rs_status resp \<ge> 300 then (Inl (status_error (''etcd '' @ path) resp), c2, w2)
               else (Inr (rs_raw resp), c2, w2)))"

definition etcd_do ::
  "'w etcd_env \<Rightarrow> int option \<Rightarrow> string \<Rightarrow> etcd_body \<Rightarrow> etcd_Client \<times> 'w \<Rightarrow> bytes go_result \<times> etcd_Client \<times> 'w" where
  "etcd_do env ctx_deadline path body cw =
     (let (c, w) = cw;
          deadline = (case ctx_deadline of
             None \<Rightarrow> if ec_timeout c > 0 then Some (env_now env w + ec_timeout c) else None
           | Some d \<Rightarrow> Some d)
      in do_attempts env deadline path body [0, 1] cw)"

definition etcd_Get :: "'w etcd_env \<Rightarrow> int option \<Rightarrow> string \<Rightarrow> etcd_Client \<times> 'w \<Rightarrow> string go_result \<times> etcd_Client \<times> 'w" where
  "etcd_Get env ctx key cw =
     (case etcd_do env ctx ''/v3/kv/range'' (RangeBody (b64 key) 1) cw of
        (Inl e, cw1) \<Rightarrow> (Inl e, cw1)
      | (Inr raw, cw1) \<Rightarrow>
          (case env_kvs env raw of
             Inl e \<Rightarrow> (Inl (Wrapf ''etcd Get: bad response'' e), cw1)
           | Inr [] \<Rightarrow> (Inr [], cw1)
           | Inr (v # vs) \<Rightarrow>
               (case base64_DecodeString v of
                  Inl e \<Rightarrow> (Inl (Wrapf ''etcd Get: bad value'' e), cw1)
                | Inr decoded \<Rightarrow> (Inr decoded, cw1))))"

definition etcd_Put :: "'w etcd_env \<Rightarrow> int option \<Rightarrow> string \<Rightarrow> string \<Rightarrow> etcd_Client \<times> 'w \<Rightarrow> go_error option \<times> etcd_Client \<times> 'w" where
  "etcd_Put env ctx key v cw =
     (case etcd_do env ctx ''/v3/kv/put'' (PutBody (b64 key) (b64 v)) cw of
        (Inl e, cw1) \<Rightarrow> (Some e, cw1) | (Inr _, cw1) \<Rightarrow> (None, cw1))"

subsection \<open>Rotation is fair\<close>

fun next_endpoints :: "nat \<Rightarrow> etcd_Client \<Rightarrow> string list" where
  "next_endpoints 0 c = []"
| "next_endpoints (Suc k) c = (case etcd_endpoint c of (ep, c1) \<Rightarrow> ep # next_endpoints k c1)"

lemma endpoint_step:
  assumes "ec_endpoints c \<noteq> []" "unat (ec_robin c) + 1 < 2 ^ 64" "length (ec_endpoints c) < 2 ^ 64"
  shows "etcd_endpoint c = (ec_endpoints c ! ((unat (ec_robin c) + 1) mod length (ec_endpoints c)),
    c\<lparr>ec_robin := ec_robin c + 1\<rparr>)" "unat (ec_robin c + 1) = unat (ec_robin c) + 1"
proof -
  have n: "unat (of_nat (length (ec_endpoints c)) :: 64 word) = length (ec_endpoints c)"
    using assms(3) by (simp add: unat_of_nat)
  show r: "unat (ec_robin c + 1) = unat (ec_robin c) + 1"
    using assms(2) by (simp add: unat_word_ariths)
  show "etcd_endpoint c = (ec_endpoints c ! ((unat (ec_robin c) + 1) mod length (ec_endpoints c)),
      c\<lparr>ec_robin := ec_robin c + 1\<rparr>)"
    using assms(1) n r by (simp add: etcd_endpoint_def Let_def unat_mod_distrib)
qed

lemma next_endpoints_nth:
  assumes "ec_endpoints c \<noteq> []" "unat (ec_robin c) + k < 2 ^ 64" "length (ec_endpoints c) < 2 ^ 64"
  shows "next_endpoints k c = map (\<lambda>i. ec_endpoints c ! ((unat (ec_robin c) + 1 + i) mod length (ec_endpoints c))) [0..<k]"
  using assms(1,2,3)
proof (induction k arbitrary: c)
  case (Suc k)
  have st: "unat (ec_robin c) + 1 < 2 ^ 64" using Suc.prems(2) by simp
  note e = endpoint_step [OF Suc.prems(1) st Suc.prems(3)]
  have "next_endpoints k (c\<lparr>ec_robin := ec_robin c + 1\<rparr>) =
      map (\<lambda>i. ec_endpoints c ! ((unat (ec_robin c) + 1 + Suc i) mod length (ec_endpoints c))) [0..<k]"
    using Suc.IH [of "c\<lparr>ec_robin := ec_robin c + 1\<rparr>"] Suc.prems e(2) by simp
  moreover have "[0..<Suc k] = 0 # map Suc [0..<k]" by (simp add: map_Suc_upt upt_conv_Cons del: upt_Suc)
  ultimately show ?case using e(1) by (simp add: o_def del: upt_Suc)
qed simp

lemma mset_rotate_eq: "mset (rotate k xs) = mset xs"
proof (induction k)
  case (Suc k)
  have "mset (rotate1 ys) = mset ys" for ys :: "'a list" by (cases ys) auto
  with Suc show ?case by simp
qed simp

text \<open>
  Endpoint rotation is fair: as long as the 64-bit counter does not wrap, any run of as many calls
  as there are endpoints uses every endpoint exactly once, as a rotation of the configured list.
\<close>

theorem etcd_rotation_fair:
  assumes "ec_endpoints c \<noteq> []" "unat (ec_robin c) + length (ec_endpoints c) < 2 ^ 64"
  shows "next_endpoints (length (ec_endpoints c)) c = rotate (unat (ec_robin c) + 1) (ec_endpoints c)
    \<and> mset (next_endpoints (length (ec_endpoints c)) c) = mset (ec_endpoints c)"
proof -
  let ?n = "length (ec_endpoints c)" and ?a = "unat (ec_robin c) + 1"
  have "?n < 2 ^ 64" using assms(2) by simp
  from next_endpoints_nth [OF assms this]
  have eq: "next_endpoints ?n c = map (\<lambda>i. ec_endpoints c ! ((?a + i) mod ?n)) [0..<?n]" .
  have "next_endpoints ?n c = rotate ?a (ec_endpoints c)"
  proof (rule nth_equalityI)
    show "length (next_endpoints ?n c) = length (rotate ?a (ec_endpoints c))" by (simp add: eq)
    fix i assume "i < length (next_endpoints ?n c)"
    then have "i < ?n" by (simp add: eq)
    then show "next_endpoints ?n c ! i = rotate ?a (ec_endpoints c) ! i" by (simp only: eq nth_rotate) simp
  qed
  then show ?thesis using mset_rotate_eq [of ?a "ec_endpoints c"] by (simp only: simp_thms)
qed

definition demo_etcd :: etcd_Client where
  "demo_etcd = etcd_New \<lparr>cfg_Endpoints = [''a'', ''b'', ''c''], cfg_Username = [], cfg_Password = [], cfg_DialTimeout = 0\<rparr>"

theorem etcd_rotation_fair_witness: "next_endpoints 3 demo_etcd = [''b'', ''c'', ''a'']"
proof -
  have "ec_endpoints demo_etcd = [''a'', ''b'', ''c'']" "ec_robin demo_etcd = 0"
    by (simp_all add: demo_etcd_def etcd_New_def)
  then show ?thesis using etcd_rotation_fair [of demo_etcd] by (simp add: numeral_3_eq_3)
qed

subsection \<open>The number of requests\<close>

text \<open>An environment that also records the requests it is given, and one that records the answers beside them.\<close>

definition logged :: "'w etcd_env \<Rightarrow> ('w \<times> http_request list) etcd_env" where
  "logged env = \<lparr>env_request = env_request env,
     env_do = (\<lambda>rq (w, lg). case env_do env rq w of (r, w') \<Rightarrow> (r, (w', lg @ [rq]))),
     env_token = env_token env, env_kvs = env_kvs env, env_watch = env_watch env,
     env_done = (\<lambda>(w, lg). case env_done env w of (b, w') \<Rightarrow> (b, (w', lg))),
     env_now = (\<lambda>(w, lg). env_now env w)\<rparr>"

type_synonym http_exchange = "http_request \<times> http_response go_result"

definition exchanges :: "'w etcd_env \<Rightarrow> ('w \<times> http_exchange list) etcd_env" where
  "exchanges env = \<lparr>env_request = env_request env,
     env_do = (\<lambda>rq (w, lg). case env_do env rq w of (a, w') \<Rightarrow> (a, (w', lg @ [(rq, a)]))),
     env_token = env_token env, env_kvs = env_kvs env, env_watch = env_watch env,
     env_done = (\<lambda>(w, lg). case env_done env w of (b, w') \<Rightarrow> (b, (w', lg))),
     env_now = (\<lambda>(w, lg). env_now env w)\<rparr>"

definition is_auth :: "http_request \<Rightarrow> bool" where
  "is_auth rq \<longleftrightarrow> (case rq_body rq of AuthBody u p \<Rightarrow> True | _ \<Rightarrow> False)"

definition logins :: "http_exchange list \<Rightarrow> http_exchange list" where
  "logins lg = filter (\<lambda>(rq, a). is_auth rq) lg"

definition posts :: "etcd_body \<Rightarrow> http_exchange list \<Rightarrow> http_exchange list" where
  "posts body lg = filter (\<lambda>(rq, a). rq_body rq = body) lg"

lemma endpoint_keeps: "etcd_endpoint c = (ep, c1) \<Longrightarrow> ec_username c1 = ec_username c \<and> ec_token c1 = ec_token c
   \<and> ec_password c1 = ec_password c \<and> ec_endpoints c1 = ec_endpoints c \<and> ec_timeout c1 = ec_timeout c"
  by (auto simp: etcd_endpoint_def Let_def split: if_splits)

lemma ensureToken_exchanges:
  assumes "ensureToken (exchanges env) dl (c, w, lg) = (r, c1, w1, lg1)"
  shows "ec_username c1 = ec_username c \<and> (\<exists>as. lg1 = lg @ as \<and> (\<forall>x\<in>set as. is_auth (fst x)) \<and> length as \<le> 1
    \<and> (ec_username c = [] \<longrightarrow> as = []))"
  using assms unfolding ensureToken_def authenticate_def exchanges_def
  by (auto simp: is_auth_def Let_def split: prod.splits sum.splits option.splits if_splits dest!: endpoint_keeps)

lemma doOnce_exchanges:
  assumes "doOnce (exchanges env) dl path body (c, w, lg) = (r, used, c1, w1, lg1)"
  shows "ec_username c1 = ec_username c"
    and "(\<exists>rq. lg1 = lg @ [(rq, r)] \<and> rq_body rq = body) \<or> (\<exists>e. r = Inl e) \<and> lg1 = lg"
  using assms unfolding doOnce_def exchanges_def
  by (auto simp: Let_def split: prod.splits sum.splits option.splits if_splits dest!: endpoint_keeps)

text \<open>One attempt is the last one, or it was answered 401 and the next one follows.\<close>

definition ends_with_answer :: "http_exchange list \<Rightarrow> bytes go_result \<Rightarrow> bool" where
  "ends_with_answer ps r \<longleftrightarrow>
     (\<forall>raw. r = Inr raw \<longrightarrow> (\<exists>rq resp. ps \<noteq> [] \<and> last ps = (rq, Inr resp) \<and> rs_status resp < 300 \<and> rs_raw resp = raw))"

lemma do_attempts_exchanges:
  assumes run: "do_attempts (exchanges env) dl path body (attempt # rest) (c, w, lg) = (r, c', w', lg')"
  obtains (final) as ps where "lg' = lg @ as @ ps" "\<forall>x\<in>set as. is_auth (fst x)" "length as \<le> 1" "ec_username c = [] \<longrightarrow> as = []"
      "\<forall>x\<in>set ps. rq_body (fst x) = body" "length ps \<le> 1" "ends_with_answer ps r"
  | (retried) as rq resp c2 w2 where "\<forall>x\<in>set as. is_auth (fst x)" "length as \<le> 1" "rq_body rq = body" "rs_status resp = 401"
      "ec_username c \<noteq> []" "do_attempts (exchanges env) dl path body rest (c2, w2, lg @ as @ [(rq, Inr resp)]) = (r, c', w', lg')"
      "attempt = 0"
proof -
  obtain r1 c1 w1 lg1 where e: "ensureToken (exchanges env) dl (c, w, lg) = (r1, c1, w1, lg1)" by (metis prod.collapse)
  obtain as where as: "ec_username c1 = ec_username c" "lg1 = lg @ as" "\<forall>x\<in>set as. is_auth (fst x)" "length as \<le> 1"
    "ec_username c = [] \<longrightarrow> as = []" using ensureToken_exchanges [OF e] by blast
  obtain r2 used c2 w2 lg2 where d: "doOnce (exchanges env) dl path body (c1, w1, lg1) = (r2, used, c2, w2, lg2)"
    by (metis prod.collapse)
  note once = doOnce_exchanges [OF d]
  consider (login) err where "r1 = Some err" | (failed) err where "r1 = None" "r2 = Inl err"
    | (again) resp where "r1 = None" "r2 = Inr resp" "rs_status resp = 401 \<and> attempt = 0 \<and> ec_username c2 \<noteq> []"
    | (answered) resp where "r1 = None" "r2 = Inr resp" "\<not> (rs_status resp = 401 \<and> attempt = 0 \<and> ec_username c2 \<noteq> [])"
    by (cases r1; cases r2; blast)
  then show thesis
  proof cases
    case login
    then show thesis using run e as by (intro final [of as "[]"]) (auto simp: ends_with_answer_def)
  next
    case failed
    with once(2) obtain ps where "lg2 = lg1 @ ps" "length ps \<le> 1" "\<forall>x\<in>set ps. rq_body (fst x) = body"
      by (auto intro: that [of "[]"])
    then show thesis using run e as d failed by (intro final [of as ps]) (auto simp: ends_with_answer_def)
  next
    case again
    then show thesis using run e as d once by (auto intro: retried)
  next
    case answered
    then obtain rq where "lg2 = lg1 @ [(rq, Inr resp)]" "rq_body rq = body" using once(2) by auto
    then show thesis using run e as d answered
      by (intro final [of as "[(rq, Inr resp)]"]) (auto simp: ends_with_answer_def split: if_splits)
  qed
qed

lemma log_filters:
  assumes "\<forall>x\<in>set as. is_auth (fst x)" "\<forall>x\<in>set ps. rq_body (fst x) = body" "\<forall>u p. body \<noteq> AuthBody u p"
  shows "posts body (as @ ps @ later) = ps @ posts body later" "logins (as @ ps @ later) = as @ logins later"
proof -
  have "is_auth rq \<longrightarrow> rq_body rq \<noteq> body" for rq using assms(3) by (cases body) (auto simp: is_auth_def)
  with assms(1,2) have "posts body as = []" "posts body ps = ps" "logins as = as" "logins ps = []"
    by (auto simp: posts_def logins_def filter_id_conv filter_empty_conv) (metis fst_conv)+
  then show "posts body (as @ ps @ later) = ps @ posts body later" "logins (as @ ps @ later) = as @ logins later"
    by (simp_all add: posts_def logins_def)
qed

text \<open>Without a user name and with an address that makes a request, the one attempt is sent.\<close>

lemma do_anonymous:
  assumes "ec_username c = []" "env_request env (fst (etcd_endpoint c) @ path) = None"
    "do_attempts (exchanges env) dl path body (attempt # rest) (c, w, lg) = (r, c', w', lg')"
  shows "\<exists>rq a. lg' = lg @ [(rq, a)] \<and> rq_body rq = body"
  using assms
  by (auto simp: ensureToken_def doOnce_def exchanges_def Let_def split: prod.splits sum.splits if_splits dest!: endpoint_keeps)

text \<open>
  C17. A call of \<open>do\<close> retries once, and only a refused token. It posts its body a second time only after the first
  post was answered 401 and when a user name is configured, and never a third time; besides that it sends at most
  two logins and nothing else. What it returns without an error is the body of the answer to its last post, and
  that answer has a status below 300. Without a user name it never logs in and posts exactly once, given that the
  address makes a request at all.
\<close>

theorem etcd_do_bounded:
  assumes "etcd_do (exchanges env) ctx path body (c, w, []) = (r, c', w', lg)" and "\<forall>u p. body \<noteq> AuthBody u p"
  shows "length (posts body lg) \<le> 2 \<and> length (logins lg) \<le> 2 \<and> (\<forall>x\<in>set lg. rq_body (fst x) = body \<or> is_auth (fst x))
    \<and> (length (posts body lg) = 2 \<longrightarrow>
         ec_username c \<noteq> [] \<and> (\<exists>resp. snd (posts body lg ! 0) = Inr resp \<and> rs_status resp = 401))
    \<and> (\<forall>raw. r = Inr raw \<longrightarrow> (\<exists>rq resp. posts body lg \<noteq> [] \<and> last (posts body lg) = (rq, Inr resp)
         \<and> rs_status resp < 300 \<and> rs_raw resp = raw))
    \<and> (ec_username c = [] \<and> env_request env (fst (etcd_endpoint c) @ path) = None \<longrightarrow>
         logins lg = [] \<and> length (posts body lg) = 1)"
proof -
  obtain dl where run: "do_attempts (exchanges env) dl path body [0, 1] (c, w, []) = (r, c', w', lg)"
    using assms(1) by (auto simp: etcd_do_def Let_def)
  have anon: "logins lg = [] \<and> length (posts body lg) = 1"
    if u: "ec_username c = []" "env_request env (fst (etcd_endpoint c) @ path) = None"
  proof -
    obtain rq a where "lg = [] @ [(rq, a)] @ []" "rq_body rq = body" using do_anonymous [OF u run] by auto
    then show ?thesis using log_filters [of "[]" "[(rq, a)]" body "[]"] assms(2) by (simp add: logins_def posts_def)
  qed
  from run show ?thesis
  proof (cases rule: do_attempts_exchanges)
    case (final as ps)
    then show ?thesis using anon log_filters [OF final(2,5) assms(2), of "[]"]
      by (auto simp: ends_with_answer_def posts_def logins_def)
  next
    case (retried as rq resp c2 w2)
    note one = log_filters [OF retried(1) _ assms(2), of "[(rq, Inr resp)]"]
    from retried(6) show ?thesis
    proof (cases rule: do_attempts_exchanges)
      case (final as2 ps)
      have lg: "lg = as @ [(rq, Inr resp)] @ (as2 @ ps)" using final(1) by simp
      have "posts body lg = (rq, Inr resp) # ps" "logins lg = as @ as2"
        using one [of "as2 @ ps"] log_filters [OF final(2,5) assms(2), of "[]"] retried(3)
        unfolding lg by (simp_all add: posts_def logins_def)
      then show ?thesis using anon retried(1-5) final lg by (cases ps) (auto simp: ends_with_answer_def)
    qed simp
  qed
qed

text \<open>A server that refuses every token.\<close>

definition refusing_env :: "unit etcd_env" where
  "refusing_env = \<lparr>env_request = (\<lambda>u. None),
     env_do = (\<lambda>rq w. (case rq_body rq of
        AuthBody u p \<Rightarrow> Inr \<lparr>rs_status = 200, rs_raw = ''t'', rs_read_err = None\<rparr>
      | _ \<Rightarrow> Inr \<lparr>rs_status = 401, rs_raw = [], rs_read_err = None\<rparr>, w)),
     env_token = (\<lambda>b. Inr b), env_kvs = (\<lambda>b. Inr []), env_watch = (\<lambda>b. Inl EOF), env_done = (\<lambda>w. (False, w)), env_now = (\<lambda>w. 0)\<rparr>"

theorem etcd_do_bounded_witness:
  "\<exists>r c' w' lg. etcd_do (exchanges refusing_env) None ''/v3/kv/range'' (RangeBody ''k'' 1) (demo_etcd\<lparr>ec_username := ''u''\<rparr>, (), []) = (r, c', w', lg)
     \<and> length (posts (RangeBody ''k'' 1) lg) \<le> 2 \<and> length (logins lg) \<le> 2"
proof -
  obtain r c' w' lg where run: "etcd_do (exchanges refusing_env) None ''/v3/kv/range'' (RangeBody ''k'' 1) (demo_etcd\<lparr>ec_username := ''u''\<rparr>, (), []) = (r, c', w', lg)"
    by (metis prod.collapse)
  from etcd_do_bounded [OF run] run show ?thesis by blast
qed

subsection \<open>An expired token costs one login\<close>

text \<open>Callers that saw the token \<open>t\<close> refused (\<open>Some t\<close>) and callers about to send a request (\<open>None\<close>).\<close>

fun token_ops :: "'w etcd_env \<Rightarrow> int option \<Rightarrow> string option list \<Rightarrow> etcd_Client \<times> 'w \<Rightarrow> etcd_Client \<times> 'w" where
  "token_ops env dl [] cw = cw"
| "token_ops env dl (Some t # ops) cw = token_ops env dl ops (resetToken t (fst cw), snd cw)"
| "token_ops env dl (None # ops) cw = token_ops env dl ops (snd (ensureToken env dl cw))"

definition issues :: "'w etcd_env \<Rightarrow> string \<Rightarrow> bool" where
  "issues env t \<longleftrightarrow> t \<noteq> [] \<and> (\<forall>url. env_request env url = None) \<and> (\<forall>rq w. is_auth rq \<longrightarrow>
     (\<exists>resp w'. env_do env rq w = (Inr resp, w') \<and> rs_status resp < 300 \<and> env_token env (rs_raw resp) = Inr t))"

lemma ensureToken_issues:
  assumes "issues env t" "ec_username c \<noteq> []" "ensureToken (logged env) dl (c, w, lg) = (r, c1, w1, lg1)"
  shows "ec_username c1 = ec_username c \<and> ec_token c1 = (if ec_token c = [] then t else ec_token c)
    \<and> length lg1 = length lg + (if ec_token c = [] then 1 else 0)"
proof (cases "ec_token c = []")
  case True
  obtain ep c0 where ep: "etcd_endpoint c = (ep, c0)" by fastforce
  let ?rq = "\<lparr>rq_url = ep @ ''/v3/auth/authenticate'', rq_body = AuthBody (ec_username c) (ec_password c),
    rq_auth = None, rq_deadline = dl\<rparr>"
  have "is_auth ?rq" by (simp add: is_auth_def)
  then obtain resp w' where "env_do env ?rq w = (Inr resp, w')" "rs_status resp < 300" "env_token env (rs_raw resp) = Inr t"
    and "\<forall>url. env_request env url = None" using assms(1) unfolding issues_def by metis
  then show ?thesis using True assms(2,3) ep endpoint_keeps [OF ep]
    by (auto simp: ensureToken_def authenticate_def logged_def Let_def)
next
  case False
  with assms(2,3) show ?thesis by (auto simp: ensureToken_def)
qed

lemma token_ops_once:
  assumes "issues env t2" "t2 \<noteq> t1" "ec_username c \<noteq> []" "set ops \<subseteq> {Some t1, None}"
    and "ec_token c = t2 \<or> ec_token c \<in> {t1, []}" "t1 \<noteq> []"
    and "token_ops (logged env) dl ops (c, w, lg) = (c', w', lg')"
  shows "length lg' \<le> length lg + (if ec_token c = t2 then 0 else 1)
    \<and> (ec_token c = t2 \<longrightarrow> ec_token c' = t2)"
  using assms(3-5,7)
proof (induction ops arbitrary: c w lg)
  case (Cons op ops)
  show ?case
  proof (cases op)
    case (Some t)
    let ?c = "resetToken t1 c"
    have "token_ops (logged env) dl ops (?c, w, lg) = (c', w', lg')" and t: "ec_username ?c \<noteq> []"
      using Cons.prems Some by (auto simp: resetToken_def)
    moreover have "ec_token ?c = (if ec_token c = t1 then [] else ec_token c)" by (simp add: resetToken_def)
    ultimately show ?thesis using Cons.IH [of ?c w lg] Cons.prems(2,3) assms(1,2) Some
      by (auto simp: issues_def split: if_splits)
  next
    case None
    obtain r c1 w1 lg1 where e: "ensureToken (logged env) dl (c, w, lg) = (r, c1, w1, lg1)" by (metis prod.collapse)
    note en = ensureToken_issues [OF assms(1) Cons.prems(1) e]
    have "token_ops (logged env) dl ops (c1, w1, lg1) = (c', w', lg')" using Cons.prems(4) None e by simp
    moreover have "t2 \<noteq> []" using assms(1) by (simp add: issues_def)
    moreover have "ec_token c1 = t2 \<or> ec_token c1 \<in> {t1, []}" "ec_username c1 \<noteq> []" "set ops \<subseteq> {Some t1, None}"
      using en Cons.prems(1-3) by auto
    ultimately show ?thesis using Cons.IH [of c1 w1 lg1] en by (auto split: if_splits)
  qed
qed simp



subsection \<open>Put and Get against a server\<close>

text \<open>What the client relies on: a key-value store behind a login with expiring tokens.\<close>

definition etcd_server ::
  "'w etcd_env \<Rightarrow> string \<Rightarrow> string \<Rightarrow> ('w \<Rightarrow> string) \<Rightarrow> ('w \<Rightarrow> string \<Rightarrow> string option) \<Rightarrow> bool" where
  "etcd_server env user pw tok kv \<longleftrightarrow> (\<forall>url. env_request env url = None) \<and> (\<forall>w. tok w \<noteq> []) \<and>
     (\<forall>rq w. \<exists>resp w'. env_do env rq w = (Inr resp, w') \<and> tok w' = tok w \<and> (case rq_body rq of
        AuthBody u p \<Rightarrow> u = user \<and> p = pw \<longrightarrow> rs_status resp = 200 \<and> env_token env (rs_raw resp) = Inr (tok w) \<and> kv w' = kv w
      | PutBody k v \<Rightarrow> if rq_auth rq = Some (tok w) then rs_status resp = 200 \<and> kv w' = (kv w)(k \<mapsto> v)
                       else rs_status resp = 401 \<and> kv w' = kv w
      | RangeBody k lim \<Rightarrow> if rq_auth rq = Some (tok w) then rs_status resp = 200 \<and> kv w' = kv w
                         \<and> env_kvs env (rs_raw resp) = Inr (case kv w k of None \<Rightarrow> [] | Some v \<Rightarrow> [v])
                       else rs_status resp = 401 \<and> kv w' = kv w
      | WatchBody k \<Rightarrow> True))"

definition client_of :: "etcd_Client \<Rightarrow> string \<Rightarrow> string \<Rightarrow> bool" where
  "client_of c user pw \<longleftrightarrow> ec_username c = user \<and> ec_password c = pw \<and> user \<noteq> []"

lemma client_endpoint: "etcd_endpoint c = (ep, c1) \<Longrightarrow> client_of c u p \<Longrightarrow> client_of c1 u p \<and> ec_token c1 = ec_token c"
  using endpoint_keeps [of c ep c1] by (simp add: client_of_def)

lemma ensure_server:
  assumes "etcd_server env u p tok kv" "client_of c u p"
  shows "\<exists>c1 w1. ensureToken env dl (c, w) = (None, c1, w1) \<and> client_of c1 u p \<and> tok w1 = tok w \<and> kv w1 = kv w
    \<and> ec_token c1 = (if ec_token c = [] then tok w else ec_token c)"
proof (cases "ec_token c = []")
  case True
  obtain ep c0 where ep: "etcd_endpoint c = (ep, c0)" by fastforce
  let ?rq = "\<lparr>rq_url = ep @ ''/v3/auth/authenticate'', rq_body = AuthBody (ec_username c) (ec_password c),
    rq_auth = None, rq_deadline = dl\<rparr>"
  obtain resp w' where "env_do env ?rq w = (Inr resp, w')" "tok w' = tok w" "rs_status resp = 200"
    "env_token env (rs_raw resp) = Inr (tok w)" "kv w' = kv w" "\<forall>url. env_request env url = None"
    using assms unfolding etcd_server_def client_of_def by (elim conjE allE [of _ ?rq] allE [of _ w]) auto
  then show ?thesis using True assms(2) ep client_endpoint [OF ep assms(2)]
    by (auto simp: ensureToken_def authenticate_def Let_def client_of_def)
next
  case False
  then show ?thesis using assms(2) by (auto simp: ensureToken_def client_of_def)
qed

definition served ::
  "'w etcd_env \<Rightarrow> etcd_body \<Rightarrow> (string \<Rightarrow> string option) \<Rightarrow> http_response \<Rightarrow> (string \<Rightarrow> string option) \<Rightarrow> bool" where
  "served env body m resp m' \<longleftrightarrow> (case body of
       PutBody k v \<Rightarrow> m' = m(k \<mapsto> v)
     | RangeBody k lim \<Rightarrow> m' = m \<and> env_kvs env (rs_raw resp) = Inr (case m k of None \<Rightarrow> [] | Some v \<Rightarrow> [v])
     | _ \<Rightarrow> True)"

lemma once_server:
  assumes "etcd_server env u p tok kv" "client_of c u p" and "body = PutBody k v \<or> body = RangeBody k lim"
  shows "\<exists>(resp :: http_response) c1 w1. doOnce env dl path body (c, w) = (Inr resp, ec_token c, c1, w1) \<and> client_of c1 u p \<and> tok w1 = tok w
    \<and> ec_token c1 = ec_token c
    \<and> (if ec_token c = tok w then rs_status resp = 200 \<and> served env body (kv w) resp (kv w1)
       else rs_status resp = 401 \<and> kv w1 = kv w)"
proof -
  obtain ep c0 where ep: "etcd_endpoint c = (ep, c0)" by fastforce
  note c0 = client_endpoint [OF ep assms(2)]
  let ?rq = "\<lparr>rq_url = ep @ path, rq_body = body, rq_auth = fst (setAuth c0), rq_deadline = dl\<rparr>"
  have auth: "fst (setAuth c0) = Some (tok w) \<longleftrightarrow> ec_token c = tok w" "snd (setAuth c0) = ec_token c"
  proof -
    have "tok w \<noteq> []" using assms(1) by (simp add: etcd_server_def)
    then show "fst (setAuth c0) = Some (tok w) \<longleftrightarrow> ec_token c = tok w" "snd (setAuth c0) = ec_token c"
      using c0 by (auto simp: setAuth_def)
  qed
  obtain resp w1 where run: "env_do env ?rq w = (Inr resp, w1)" and url: "\<forall>url. env_request env url = None"
    and "tok w1 = tok w" "case body of
        PutBody k v \<Rightarrow> if ec_token c = tok w then rs_status resp = 200 \<and> kv w1 = (kv w)(k \<mapsto> v)
                       else rs_status resp = 401 \<and> kv w1 = kv w
      | RangeBody k lim \<Rightarrow> if ec_token c = tok w then rs_status resp = 200 \<and> kv w1 = kv w
                         \<and> env_kvs env (rs_raw resp) = Inr (case kv w k of None \<Rightarrow> [] | Some v \<Rightarrow> [v])
                       else rs_status resp = 401 \<and> kv w1 = kv w
      | _ \<Rightarrow> True"
    using assms(1,3) auth(1) unfolding etcd_server_def
    by (elim conjE allE [of _ ?rq] allE [of _ w]) (auto split: if_splits)
  moreover have "doOnce env dl path body (c, w) = (Inr resp, ec_token c, c0, w1)"
    using run url ep auth(2) by (simp add: doOnce_def Let_def case_prod_beta)
  ultimately show ?thesis using c0 assms(3) by (intro exI [of _ resp] exI [of _ c0] exI [of _ w1]) (auto simp: served_def)
qed

text \<open>Even with a token that has expired, one call reaches the server with a valid one.\<close>

lemma do_server:
  assumes srv: "etcd_server env u p tok kv" and c: "client_of c u p" and body: "body = PutBody k v \<or> body = RangeBody k lim"
  shows "\<exists>(resp :: http_response) c1 w1. etcd_do env ctx path body (c, w) = (Inr (rs_raw resp), c1, w1) \<and> client_of c1 u p
    \<and> served env body (kv w) resp (kv w1)"
proof -
  have "\<exists>dl. etcd_do env ctx path body (c, w) = do_attempts env dl path body [0, 1] (c, w)"
    unfolding etcd_do_def Let_def prod.case by (rule exI, rule refl)
  then obtain dl where dl: "etcd_do env ctx path body (c, w) = do_attempts env dl path body [0, 1] (c, w)" ..
  obtain c1 w1 where e1: "ensureToken env dl (c, w) = (None, c1, w1)" "client_of c1 u p" "tok w1 = tok w" "kv w1 = kv w"
    using ensure_server [OF srv c] by blast
  obtain r2 c2 w2 where d1: "doOnce env dl path body (c1, w1) = (Inr r2, ec_token c1, c2, w2)" "client_of c2 u p"
    "tok w2 = tok w1" "ec_token c2 = ec_token c1"
    and out1: "if ec_token c1 = tok w1 then rs_status r2 = 200 \<and> served env body (kv w1) r2 (kv w2)
       else rs_status r2 = 401 \<and> kv w2 = kv w1"
    using once_server [OF srv e1(2) body] by blast
  show ?thesis
  proof (cases "ec_token c1 = tok w1")
    case True
    then have "etcd_do env ctx path body (c, w) = (Inr (rs_raw r2), c2, w2)"
      using dl e1(1) d1(1) out1 by simp
    then show ?thesis using True out1 d1(2) e1(4) by (intro exI [of _ r2] exI [of _ c2] exI [of _ w2]) simp
  next
    case False
    let ?c = "resetToken (ec_token c1) c2"
    have c': "client_of ?c u p" "ec_token ?c = []" using d1(2,4) by (auto simp: resetToken_def client_of_def)
    obtain c3 w3 where e2: "ensureToken env dl (?c, w2) = (None, c3, w3)" "client_of c3 u p" "tok w3 = tok w2" "kv w3 = kv w2"
      "ec_token c3 = tok w2"
      using ensure_server [OF srv c'(1)] c'(2) by (metis (full_types))
    obtain r4 c4 w4 where d2: "doOnce env dl path body (c3, w3) = (Inr r4, ec_token c3, c4, w4)" "client_of c4 u p"
      and out2: "rs_status r4 = 200" "served env body (kv w3) r4 (kv w4)"
      using once_server [OF srv e2(2) body] e2(3,5) by (metis (no_types, lifting))
    have "ec_username c2 \<noteq> []" using d1(2) by (simp add: client_of_def)
    then have "etcd_do env ctx path body (c, w) = (Inr (rs_raw r4), c4, w4)"
      using dl e1(1) d1(1) out1 False e2(1) d2(1) out2(1) by simp
    moreover have "kv w3 = kv w" using e1(4) out1 False e2(4) by simp
    ultimately show ?thesis using out2(2) d2(2) by (intro exI [of _ r4] exI [of _ c4] exI [of _ w4]) simp
  qed
qed

text \<open>
  C15. What is put is got: against a key-value server behind a login, \<open>Put\<close> followed by \<open>Get\<close> of the same
  key returns the value, byte for byte, whatever token the client had cached, an expired one included;
  and after the \<open>Put\<close> the server holds the old store with that one key changed.
\<close>

theorem etcd_put_get:
  assumes "etcd_server env u p tok kv" "client_of c u p"
  shows "\<exists>c1 w1 cw2. etcd_Put env ctx k v (c, w) = (None, c1, w1) \<and> kv w1 = (kv w)(b64 k \<mapsto> b64 v)
    \<and> etcd_Get env ctx k (c1, w1) = (Inr v, cw2)"
proof -
  have "\<exists>(resp :: http_response) c1 w1. etcd_do env ctx ''/v3/kv/put'' (PutBody (b64 k) (b64 v)) (c, w) = (Inr (rs_raw resp), c1, w1)
      \<and> client_of c1 u p \<and> kv w1 = (kv w)(b64 k \<mapsto> b64 v)"
    using do_server [OF assms disjI1 [OF refl], where k = "b64 k" and v = "b64 v" and w = w] by (simp add: served_def)
  then obtain raw c1 w1 where put: "etcd_do env ctx ''/v3/kv/put'' (PutBody (b64 k) (b64 v)) (c, w) = (Inr raw, c1, w1)"
    "client_of c1 u p" "kv w1 = (kv w)(b64 k \<mapsto> b64 v)" by blast
  have "\<exists>(resp :: http_response) c2 w2. etcd_do env ctx ''/v3/kv/range'' (RangeBody (b64 k) 1) (c1, w1) = (Inr (rs_raw resp), c2, w2)
      \<and> env_kvs env (rs_raw resp) = Inr [b64 v]"
    using do_server [OF assms(1) put(2) disjI2 [OF refl], where k = "b64 k" and lim = 1 and w = w1
        and path = "''/v3/kv/range''" and ctx = ctx] put(3) by (auto simp: served_def)
  then obtain raw2 c2 w2 where get: "etcd_do env ctx ''/v3/kv/range'' (RangeBody (b64 k) 1) (c1, w1) = (Inr raw2, c2, w2)"
    "env_kvs env raw2 = Inr [b64 v]" by blast
  have "etcd_Put env ctx k v (c, w) = (None, c1, w1)" using put(1) by (simp add: etcd_Put_def)
  moreover have "etcd_Get env ctx k (c1, w1) = (Inr v, c2, w2)" using get by (simp add: etcd_Get_def b64_def)
  ultimately show ?thesis using put(3) by blast
qed

text \<open>A server with one token and a store.\<close>

definition demo_server :: "(string \<Rightarrow> string option) etcd_env" where
  "demo_server = \<lparr>env_request = (\<lambda>u. None),
     env_do = (\<lambda>rq w. case rq_body rq of
        AuthBody u p \<Rightarrow> (Inr \<lparr>rs_status = 200, rs_raw = ''tok'', rs_read_err = None\<rparr>, w)
      | b \<Rightarrow> if rq_auth rq \<noteq> Some ''tok'' then (Inr \<lparr>rs_status = 401, rs_raw = [], rs_read_err = None\<rparr>, w)
             else (case b of
                 PutBody k v \<Rightarrow> (Inr \<lparr>rs_status = 200, rs_raw = [], rs_read_err = None\<rparr>, w(k \<mapsto> v))
               | RangeBody k lim \<Rightarrow> (Inr \<lparr>rs_status = 200,
                    rs_raw = (case w k of None \<Rightarrow> [] | Some v \<Rightarrow> CHR ''+'' # v), rs_read_err = None\<rparr>, w)
               | _ \<Rightarrow> (Inr \<lparr>rs_status = 200, rs_raw = [], rs_read_err = None\<rparr>, w))),
     env_token = (\<lambda>b. Inr b), env_kvs = (\<lambda>b. Inr (if b = [] then [] else [tl b])), env_watch = (\<lambda>b. Inl EOF),
     env_done = (\<lambda>w. (False, w)), env_now = (\<lambda>w. 0)\<rparr>"

theorem etcd_put_get_witness:
  "\<exists>c1 w1 cw2. etcd_Put demo_server None ''key'' ''value'' (demo_etcd\<lparr>ec_username := ''u'', ec_token := ''expired''\<rparr>, Map.empty) = (None, c1, w1)
     \<and> etcd_Get demo_server None ''key'' (c1, w1) = (Inr ''value'', cw2)"
proof -
  have "etcd_server demo_server ''u'' [] (\<lambda>w. ''tok'') (\<lambda>w. w)"
    unfolding etcd_server_def by (auto simp: demo_server_def split: etcd_body.splits option.splits)
  moreover have "client_of (demo_etcd\<lparr>ec_username := ''u'', ec_token := ''expired''\<rparr>) ''u'' []"
    by (simp add: client_of_def demo_etcd_def etcd_New_def)
  ultimately show ?thesis
    using etcd_put_get [of demo_server "''u''" "[]" "\<lambda>w. ''tok''" "\<lambda>w. w" "demo_etcd\<lparr>ec_username := ''u'', ec_token := ''expired''\<rparr>"
        None "''key''" "''value''" Map.empty] by blast
qed

end
