(* ===== verification/Etcd_Watch.thy ===== *)
theory Etcd_Watch
  imports Etcd
begin

text \<open>
  Watching a key (src/etcd/watch.go): one connection and its stream of events, and the loop that
  reconnects with a growing delay. The two channels of the caller are operations on the world: a send
  that waits either delivers or finds the context done, a send that does not wait may drop the error.
\<close>

subsection \<open>One connection\<close>

datatype WatchEvent = WatchEvent (we_Type: string) (we_Value: string)

definition errWatchAuthExpired :: go_error where
  "errWatchAuthExpired = ErrIO ''etcd watch: token expired and reset''"

record 'w watch_chans =
  wc_event :: "WatchEvent \<Rightarrow> 'w \<Rightarrow> bool \<times> 'w"
  wc_err :: "go_error \<Rightarrow> 'w \<Rightarrow> 'w"
  wc_sleep :: "int \<Rightarrow> 'w \<Rightarrow> bool \<times> 'w"

text \<open>
  The events of one message. The result says whether the context was found done, whether an event
  was received so far, and the world.
\<close>

fun watch_events :: "'w watch_chans \<Rightarrow> watch_event_json list \<Rightarrow> bool \<Rightarrow> 'w \<Rightarrow> bool \<times> bool \<times> 'w" where
  "watch_events ch [] connected w = (False, connected, w)"
| "watch_events ch (ev # evs) connected w =
     (case (if wj_type ev = ''PUT'' then base64_DecodeString (wj_value ev) else Inr []) of
        Inl decErr \<Rightarrow> watch_events ch evs connected (wc_err ch (Wrapf ''etcd watch: bad value'' decErr) w)
      | Inr val \<Rightarrow>
          (case wc_event ch (WatchEvent (wj_type ev) val) w of
             (False, w1) \<Rightarrow> (True, True, w1)
           | (True, w1) \<Rightarrow> watch_events ch evs True w1))"

definition watch_max_token :: nat where
  "watch_max_token = 10 * 1024 * 1024"

datatype watch_end = CtxDone | ScanEnd "go_error option"

fun watch_lines :: "'w etcd_env \<Rightarrow> 'w watch_chans \<Rightarrow> bytes list \<Rightarrow> go_error option \<Rightarrow> bool \<Rightarrow> 'w \<Rightarrow> watch_end \<times> bool \<times> 'w" where
  "watch_lines env ch [] read_err connected w = (ScanEnd read_err, connected, w)"
| "watch_lines env ch (raw # rest) read_err connected w =
     (if watch_max_token \<le> length raw
      then (ScanEnd (Some (Errorf ''bufio.Scanner: token too long'')), connected, w)
      else case env_done env w of
             (True, w1) \<Rightarrow> (CtxDone, connected, w1)
           | (False, w1) \<Rightarrow>
               let line = drop_cr raw
               in if line = [] then watch_lines env ch rest read_err connected w1
                  else case env_watch env line of
                         Inl _ \<Rightarrow> watch_lines env ch rest read_err connected w1
                       | Inr msg \<Rightarrow>
                           if wr_error msg \<noteq> []
                           then watch_lines env ch rest read_err connected
                                  (wc_err ch (Errorf (''etcd watch: server error: '' @ wr_error msg)) w1)
                           else (case watch_events ch (wr_events msg) connected w1 of
                                   (True, conn, w2) \<Rightarrow> (CtxDone, conn, w2)
                                 | (False, conn, w2) \<Rightarrow> watch_lines env ch rest read_err conn w2))"

text \<open>\<open>watchOnce\<close> returns an error, or none when the context ended, and whether an event was received.\<close>

definition watchOnce ::
  "'w etcd_env \<Rightarrow> 'w watch_chans \<Rightarrow> int option \<Rightarrow> string \<Rightarrow> etcd_Client \<times> 'w
   \<Rightarrow> (go_error option \<times> bool) \<times> etcd_Client \<times> 'w" where
  "watchOnce env ch deadline key cw =
     (case ensureToken env deadline cw of
        (Some e, cw1) \<Rightarrow> ((Some e, False), cw1)
      | (None, c1, w1) \<Rightarrow>
          let (ep, c2) = etcd_endpoint c1; url = ep @ ''/v3/watch''
          in case env_request env url of
               Some e \<Rightarrow> ((Some e, False), c2, w1)
             | None \<Rightarrow>
                 let (hdr, usedToken) = setAuth c2
                 in case env_do env \<lparr>rq_url = url, rq_body = WatchBody (b64 key), rq_auth = hdr, rq_deadline = deadline\<rparr> w1 of
                      (Inl e, w2) \<Rightarrow>
                        (case env_done env w2 of
                           (True, w3) \<Rightarrow> ((None, False), c2, w3) | (False, w3) \<Rightarrow> ((Some e, False), c2, w3))
                    | (Inr resp, w2) \<Rightarrow>
                        if rs_status resp = 401 \<and> ec_username c2 \<noteq> []
                        then ((Some errWatchAuthExpired, False), resetToken usedToken c2, w2)
                        else if rs_status resp \<ge> 300
                        then ((Some (status_error ''etcd watch'' resp), False), c2, w2)
                        else (case watch_lines env ch (raw_lines (rs_raw resp)) (rs_read_err resp) False w2 of
                                (CtxDone, conn, w3) \<Rightarrow> ((None, conn), c2, w3)
                              | (ScanEnd (Some e), conn, w3) \<Rightarrow>
                                  (case env_done env w3 of
                                     (True, w4) \<Rightarrow> ((None, conn), c2, w4) | (False, w4) \<Rightarrow> ((Some e, conn), c2, w4))
                              | (ScanEnd None, conn, w3) \<Rightarrow>
                                  ((Some (Errorf ''watch connection closed''), conn), c2, w3)))"

subsection \<open>Reconnecting\<close>

record watch_loop =
  wl_backoff :: int
  wl_authRetryUsed :: bool

abbreviation initBackoff :: int where "initBackoff \<equiv> 1000000000"
abbreviation maxBackoff :: int where "maxBackoff \<equiv> 30000000000"

definition watch_init :: watch_loop where
  "watch_init = \<lparr>wl_backoff = initBackoff, wl_authRetryUsed = False\<rparr>"

text \<open>What the loop does after a connection ended with an error: how long it waits (\<open>None\<close>: not at all).\<close>

definition watch_after :: "go_error \<Rightarrow> bool \<Rightarrow> watch_loop \<Rightarrow> int option \<times> watch_loop" where
  "watch_after err connected st =
     (let authExpired = errors_Is err errWatchAuthExpired;
          backoff = (if connected then initBackoff else wl_backoff st);
          used = (if connected \<or> \<not> authExpired then False else wl_authRetryUsed st)
      in if authExpired \<and> \<not> used then (None, \<lparr>wl_backoff = backoff, wl_authRetryUsed = True\<rparr>)
         else (Some backoff,
               \<lparr>wl_backoff = (if backoff < maxBackoff then min (backoff * 2) maxBackoff else backoff),
                wl_authRetryUsed = used\<rparr>))"

text \<open>One turn of the loop of \<open>Watch\<close>; \<open>None\<close> is the end of the goroutine.\<close>

definition watch_round ::
  "'w etcd_env \<Rightarrow> 'w watch_chans \<Rightarrow> int option \<Rightarrow> string \<Rightarrow> watch_loop \<times> etcd_Client \<times> 'w
   \<Rightarrow> (watch_loop \<times> etcd_Client) option \<times> 'w" where
  "watch_round env ch deadline key s =
     (let (st, c, w) = s
      in case env_done env w of
           (True, w1) \<Rightarrow> (None, w1)
         | (False, w1) \<Rightarrow>
             (case watchOnce env ch deadline key (c, w1) of
                ((None, _), c2, w2) \<Rightarrow> (None, w2)
              | ((Some err, connected), c2, w2) \<Rightarrow>
                  let w3 = wc_err ch (Wrapf ''etcd watch: reconnecting'' err) w2
                  in case watch_after err connected st of
                       (None, st') \<Rightarrow> (Some (st', c2), w3)
                     | (Some d, st') \<Rightarrow>
                         (case wc_sleep ch d w3 of
                            (True, w4) \<Rightarrow> (None, w4) | (False, w4) \<Rightarrow> (Some (st', c2), w4))))"

subsection \<open>The delays\<close>

fun waits :: "(go_error \<times> bool) list \<Rightarrow> watch_loop \<Rightarrow> int option list" where
  "waits [] st = []"
| "waits (o' # os) st = (case watch_after (fst o') (snd o') st of (d, st') \<Rightarrow> d # waits os st')"

definition loop_ok :: "watch_loop \<Rightarrow> bool" where
  "loop_ok st \<longleftrightarrow> initBackoff \<le> wl_backoff st \<and> wl_backoff st \<le> maxBackoff"

lemma watch_after_ok:
  "loop_ok st \<Longrightarrow> watch_after err conn st = (d, st') \<Longrightarrow>
     loop_ok st' \<and> (\<forall>x. d = Some x \<longrightarrow> initBackoff \<le> x \<and> x \<le> maxBackoff)
     \<and> (d = None \<longrightarrow> wl_authRetryUsed st' \<and> errors_Is err errWatchAuthExpired)
     \<and> (wl_authRetryUsed st \<longrightarrow> d = None \<longrightarrow> conn)"
  by (auto simp: watch_after_def loop_ok_def Let_def split: if_splits)

lemma waits_bounded: "loop_ok st \<Longrightarrow> Some d \<in> set (waits os st) \<Longrightarrow> initBackoff \<le> d \<and> d \<le> maxBackoff"
proof (induction os arbitrary: st)
  case (Cons o' os)
  obtain d' st' where a: "watch_after (fst o') (snd o') st = (d', st')" by fastforce
  from watch_after_ok [OF Cons.prems(1) a] Cons.IH [of st'] Cons.prems(2) a show ?case by auto
qed simp

lemma waits_no_spin:
  assumes "loop_ok st" "\<forall>(e, conn)\<in>set os. errors_Is e errWatchAuthExpired \<longrightarrow> \<not> conn" "Suc i < length os"
  shows "waits os st ! i \<noteq> None \<or> waits os st ! Suc i \<noteq> None"
  using assms
proof (induction os arbitrary: st i)
  case (Cons o' os)
  obtain d' st' where a: "watch_after (fst o') (snd o') st = (d', st')" by fastforce
  note ok = watch_after_ok [OF Cons.prems(1) a]
  show ?case
  proof (cases i)
    case (Suc j)
    then show ?thesis using Cons.IH [of st' j] Cons.prems ok a by auto
  next
    case 0
    then obtain o2 os2 where os: "os = o2 # os2" using Cons.prems(3) by (cases os) auto
    obtain d2 st2 where a2: "watch_after (fst o2) (snd o2) st' = (d2, st2)" by fastforce
    have "\<not> (d' = None \<and> d2 = None)"
      using ok watch_after_ok [OF _ a2] Cons.prems(2) os by (cases o2) auto
    then show ?thesis using 0 a a2 os by auto
  qed
qed simp

lemma waits_double:
  assumes "\<forall>(e, conn)\<in>set os. \<not> conn \<and> \<not> errors_Is e errWatchAuthExpired" "wl_backoff st = min (2 ^ k * initBackoff) maxBackoff"
  shows "waits os st = map (\<lambda>i. Some (min (2 ^ (k + i) * initBackoff) maxBackoff)) [0..<length os]"
  using assms
proof (induction os arbitrary: st k)
  case (Cons o' os)
  obtain e conn where o': "o' = (e, conn)" by fastforce
  then have e: "\<not> conn" "\<not> errors_Is e errWatchAuthExpired" using Cons.prems(1) by auto
  let ?b = "wl_backoff st"
  let ?st = "\<lparr>wl_backoff = (if ?b < maxBackoff then min (?b * 2) maxBackoff else ?b), wl_authRetryUsed = False\<rparr>"
  have after: "watch_after e conn st = (Some ?b, ?st)" using e by (simp add: watch_after_def Let_def)
  have "wl_backoff ?st = min (2 ^ Suc k * initBackoff) maxBackoff" using Cons.prems(2) by (auto simp: min_def)
  from Cons.IH [OF _ this] Cons.prems(1) have
    "waits os ?st = map (\<lambda>i. Some (min (2 ^ (k + Suc i) * initBackoff) maxBackoff)) [0..<length os]" by simp
  moreover have "[0..<Suc (length os)] = 0 # map Suc [0..<length os]" by (simp add: map_Suc_upt upt_conv_Cons del: upt_Suc)
  ultimately show ?case using after Cons.prems(2) o' by (simp add: o_def del: upt_Suc)
qed simp

text \<open>
  The reconnect loop neither spins nor gives up: every wait is between one and thirty seconds; it
  never reconnects twice in a row without waiting, whatever the errors (an expired token never ends a
  connection that had received events); and plain failures wait 1, 2, 4, 8, 16, 30, 30, ... seconds.
\<close>

theorem watch_backoff:
  shows "(\<forall>d. Some d \<in> set (waits os watch_init) \<longrightarrow> 1000000000 \<le> d \<and> d \<le> 30000000000)
    \<and> ((\<forall>(e, conn)\<in>set os. errors_Is e errWatchAuthExpired \<longrightarrow> \<not> conn) \<longrightarrow>
        (\<forall>i. Suc i < length os \<longrightarrow> \<not> (waits os watch_init ! i = None \<and> waits os watch_init ! Suc i = None)))
    \<and> ((\<forall>(e, conn)\<in>set os. \<not> conn \<and> \<not> errors_Is e errWatchAuthExpired) \<longrightarrow>
        waits os watch_init = map (\<lambda>i. Some (min (2 ^ i * 1000000000) 30000000000)) [0..<length os])"
proof -
  have ok: "loop_ok watch_init" by (simp add: loop_ok_def watch_init_def)
  have b0: "wl_backoff watch_init = min (2 ^ 0 * initBackoff) maxBackoff" by (simp add: watch_init_def)
  have double: "(\<forall>(e, conn)\<in>set os. \<not> conn \<and> \<not> errors_Is e errWatchAuthExpired) \<longrightarrow>
      waits os watch_init = map (\<lambda>i. Some (min (2 ^ i * 1000000000) 30000000000)) [0..<length os]"
  proof
    assume "\<forall>(e, conn)\<in>set os. \<not> conn \<and> \<not> errors_Is e errWatchAuthExpired"
    from waits_double [OF this b0] show
      "waits os watch_init = map (\<lambda>i. Some (min (2 ^ i * 1000000000) 30000000000)) [0..<length os]" by simp
  qed
  show ?thesis using waits_bounded [OF ok, of _ os] waits_no_spin [OF ok, of os] double
    by (intro conjI impI allI) blast+
qed

theorem watch_backoff_witness:
  "waits (replicate 7 (EOF, False)) watch_init =
     map Some [1000000000, 2000000000, 4000000000, 8000000000, 16000000000, 30000000000, 30000000000]"
proof -
  have "\<not> errors_Is EOF errWatchAuthExpired" by (simp add: errors_Is_def errWatchAuthExpired_def)
  then have "waits (replicate 7 (EOF, False)) watch_init = map (\<lambda>i. Some (min (2 ^ i * 1000000000) 30000000000)) [0..<7]"
    using watch_backoff [of "replicate 7 (EOF, False)", THEN conjunct2, THEN conjunct2] by simp
  also have "[0..<7] = [0, 1, 2, 3, 4, 5, 6 :: nat]" by (simp add: upt_rec)
  finally show ?thesis by simp
qed

subsection \<open>What a connection delivers\<close>

definition event_of :: "watch_event_json \<Rightarrow> WatchEvent option" where
  "event_of ev =
     (if wj_type ev = ''PUT''
      then (case base64_DecodeString (wj_value ev) of Inl _ \<Rightarrow> None | Inr v \<Rightarrow> Some (WatchEvent ''PUT'' v))
      else Some (WatchEvent (wj_type ev) []))"

definition line_events :: "'w etcd_env \<Rightarrow> bytes \<Rightarrow> WatchEvent list" where
  "line_events env raw =
     (if drop_cr raw = [] then []
      else case env_watch env (drop_cr raw) of
             Inl _ \<Rightarrow> []
           | Inr msg \<Rightarrow> if wr_error msg \<noteq> [] then [] else List.map_filter event_of (wr_events msg))"

text \<open>A caller that receives every event: \<open>seen\<close> reads from the world what it has received.\<close>

definition receiving :: "'w etcd_env \<Rightarrow> 'w watch_chans \<Rightarrow> ('w \<Rightarrow> WatchEvent list) \<Rightarrow> bool" where
  "receiving env ch seen \<longleftrightarrow>
     (\<forall>e w. fst (wc_event ch e w) \<and> seen (snd (wc_event ch e w)) = seen w @ [e])
     \<and> (\<forall>e w. seen (wc_err ch e w) = seen w)
     \<and> (\<forall>w. \<not> fst (env_done env w) \<and> seen (snd (env_done env w)) = seen w)"

lemma receiving_event: "receiving env ch seen \<Longrightarrow> \<exists>w'. wc_event ch e w = (True, w') \<and> seen w' = seen w @ [e]"
  unfolding receiving_def by (metis prod.collapse)

lemma receiving_err: "receiving env ch seen \<Longrightarrow> seen (wc_err ch e w) = seen w"
  unfolding receiving_def by blast

lemma receiving_done: "receiving env ch seen \<Longrightarrow> \<exists>w'. env_done env w = (False, w') \<and> seen w' = seen w"
  unfolding receiving_def by (metis prod.collapse)

lemma watch_events_delivers:
  assumes "receiving env ch seen"
  shows "\<exists>w'. watch_events ch evs conn w = (False, conn \<or> List.map_filter event_of evs \<noteq> [], w')
           \<and> seen w' = seen w @ List.map_filter event_of evs"
proof (induction evs arbitrary: conn w)
  case (Cons ev evs)
  show ?case
  proof (cases "event_of ev")
    case None
    then obtain e where "wj_type ev = ''PUT''" "base64_DecodeString (wj_value ev) = Inl e"
      by (auto simp: event_of_def split: if_splits sum.splits)
    with Cons.IH [of conn "wc_err ch (Wrapf ''etcd watch: bad value'' e) w"] None receiving_err [OF assms]
    show ?thesis by (simp add: map_filter_simps)
  next
    case (Some e)
    then obtain val where val: "(if wj_type ev = ''PUT'' then base64_DecodeString (wj_value ev) else Inr []) = Inr val"
        "e = WatchEvent (wj_type ev) val"
      by (auto simp: event_of_def split: if_splits sum.splits)
    from receiving_event [OF assms] obtain w1 where w1: "wc_event ch e w = (True, w1)" "seen w1 = seen w @ [e]" by blast
    with Cons.IH [of True w1] Some val show ?thesis by (simp add: map_filter_simps)
  qed
qed (simp add: map_filter_simps)

lemma watch_lines_delivers:
  assumes rc: "receiving env ch seen" and "\<forall>l\<in>set ls. length l < watch_max_token"
  shows "\<exists>w'. watch_lines env ch ls err conn w = (ScanEnd err, conn \<or> concat (map (line_events env) ls) \<noteq> [], w')
           \<and> seen w' = seen w @ concat (map (line_events env) ls)"
  using assms(2)
proof (induction ls arbitrary: conn w)
  case (Cons raw ls)
  then have len: "\<not> watch_max_token \<le> length raw" by simp
  obtain w1 where w1: "env_done env w = (False, w1)" "seen w1 = seen w" using receiving_done [OF rc] by blast
  have step: "line_events env raw = [] \<Longrightarrow> seen w2 = seen w1 \<Longrightarrow>
      watch_lines env ch (raw # ls) err conn w = watch_lines env ch ls err conn w2 \<Longrightarrow> ?case" for w2
    using Cons.IH [of conn w2] Cons.prems w1 by simp
  show ?case
  proof (cases "drop_cr raw = []")
    case True
    then show ?thesis using step [of w1] len w1 by (simp add: line_events_def)
  next
    case line: False
    show ?thesis
    proof (cases "env_watch env (drop_cr raw)")
      case (Inl e)
      then show ?thesis using step [of w1] line len w1 by (simp add: line_events_def Let_def)
    next
      case (Inr msg)
      show ?thesis
      proof (cases "wr_error msg = []")
        case False
        then show ?thesis using step [of "wc_err ch (Errorf (''etcd watch: server error: '' @ wr_error msg)) w1"]
            Inr line len w1 receiving_err [OF rc] by (simp add: line_events_def Let_def)
      next
        case True
        obtain w2 where w2: "watch_events ch (wr_events msg) conn w1 =
            (False, conn \<or> List.map_filter event_of (wr_events msg) \<noteq> [], w2)"
            "seen w2 = seen w1 @ List.map_filter event_of (wr_events msg)"
          using watch_events_delivers [OF rc] by blast
        with True Inr line have le: "line_events env raw = List.map_filter event_of (wr_events msg)"
          by (simp add: line_events_def)
        have "watch_lines env ch (raw # ls) err conn w =
            watch_lines env ch ls err (conn \<or> line_events env raw \<noteq> []) w2"
          using True Inr line len w1 w2 le by (simp add: Let_def)
        then show ?thesis using Cons.IH [of "conn \<or> line_events env raw \<noteq> []" w2] Cons.prems w1 w2 le by auto
      qed
    qed
  qed
qed simp

text \<open>
  C18. While the caller receives and its context is not done, and the stream has only lines of less than 10 MiB (the
  limit that the scanner is given), a watch connection delivers exactly the events of the lines of the stream, in
  their order, each once: an empty line, a line that is not JSON, a server error and a value that is not base64
  deliver nothing and do not end the connection. The connection ends with the end of the stream, and it counts as
  connected exactly when it delivered something.
\<close>

theorem watch_delivers_in_order:
  assumes "receiving env ch seen" and "\<forall>l\<in>set (raw_lines stream). length l < watch_max_token"
  shows "\<exists>w'. watch_lines env ch (raw_lines stream) err False w =
             (ScanEnd err, concat (map (line_events env) (raw_lines stream)) \<noteq> [], w')
           \<and> seen w' = seen w @ concat (map (line_events env) (raw_lines stream))"
  using watch_lines_delivers [OF assms, of err False w] by simp

definition demo_watch_env :: "WatchEvent list etcd_env" where
  "demo_watch_env =
     \<lparr>env_request = (\<lambda>_. None), env_do = (\<lambda>_ w. (Inl EOF, w)), env_token = Inr, env_kvs = (\<lambda>_. Inr []),
      env_watch = (\<lambda>l. if l = ''p'' then Inr \<lparr>wr_events = [\<lparr>wj_type = ''PUT'', wj_value = b64 ''hi''\<rparr>], wr_error = []\<rparr>
                       else if l = ''d'' then Inr \<lparr>wr_events = [\<lparr>wj_type = ''DELETE'', wj_value = []\<rparr>], wr_error = []\<rparr>
                       else Inl EOF),
      env_done = (\<lambda>w. (False, w)), env_now = (\<lambda>_. 0)\<rparr>"

definition demo_chans :: "WatchEvent list watch_chans" where
  "demo_chans = \<lparr>wc_event = (\<lambda>e w. (True, w @ [e])), wc_err = (\<lambda>e w. w), wc_sleep = (\<lambda>_ w. (False, w))\<rparr>"

theorem watch_delivers_in_order_witness:
  "\<exists>w'. watch_lines demo_watch_env demo_chans (raw_lines (''p'' @ [cr, nl, nl] @ ''x'' @ [nl] @ ''d'')) None False [] = (ScanEnd None, True, w')
     \<and> w' = [WatchEvent ''PUT'' ''hi'', WatchEvent ''DELETE'' []]"
proof -
  have rc: "receiving demo_watch_env demo_chans (\<lambda>w. w)"
    by (simp add: receiving_def demo_watch_env_def demo_chans_def)
  have ls: "raw_lines (''p'' @ [cr, nl, nl] @ ''x'' @ [nl] @ ''d'') = [''p'' @ [cr], [], ''x'', ''d'']"
    by (simp add: raw_lines_def)
  have evs: "concat (map (line_events demo_watch_env) [''p'' @ [cr], [], ''x'', ''d'']) =
      [WatchEvent ''PUT'' ''hi'', WatchEvent ''DELETE'' []]"
    by (simp add: line_events_def demo_watch_env_def drop_cr_def event_of_def b64_def map_filter_simps)
  have "\<forall>l\<in>set (raw_lines (''p'' @ [cr, nl, nl] @ ''x'' @ [nl] @ ''d'')). length l < watch_max_token"
    unfolding ls by (simp add: watch_max_token_def)
  from watch_delivers_in_order [OF rc this, of None "[]"] show ?thesis
    unfolding ls evs by (simp del: watch_lines.simps)
qed

end
