(* ===== verification/Websocket.thy ===== *)
theory Websocket
  imports Go_Prelude
begin

text \<open>
  The websocket package (src/websocket): the byte stream over messages with its write deadline
  (conn.go), the server's origin check, CORS headers and connection options (server.go), and the
  periodic ping (keepalive.go). The connection of gorilla/websocket is a record of operations on the
  world \<open>'w\<close>; \<open>'r\<close> is its message reader.
\<close>

subsection \<open>The connection library\<close>

record ('r, 'w) ws_lib =
  lib_NextReader :: "'w \<Rightarrow> 'r go_result \<times> 'w"
  lib_Read :: "'r \<Rightarrow> nat \<Rightarrow> 'w \<Rightarrow> (bytes \<times> go_error option) \<times> 'w"
  lib_WriteMessage :: "int \<Rightarrow> bytes \<Rightarrow> 'w \<Rightarrow> go_error option \<times> 'w"
  lib_WritePing :: "bytes \<Rightarrow> int \<Rightarrow> 'w \<Rightarrow> go_error option \<times> 'w"
  lib_SetWriteDeadline :: "int \<Rightarrow> 'w \<Rightarrow> 'w"
  lib_SetReadDeadline :: "int \<Rightarrow> 'w \<Rightarrow> 'w"
  lib_SetReadLimit :: "int \<Rightarrow> 'w \<Rightarrow> 'w"
  lib_SetPongHandler :: "('w \<Rightarrow> 'w) \<Rightarrow> 'w \<Rightarrow> 'w"
  lib_Close :: "'w \<Rightarrow> go_error option \<times> 'w"
  lib_Now :: "'w \<Rightarrow> int"

subsection \<open>The stream wrapper\<close>

abbreviation TextMessage :: int where "TextMessage \<equiv> 1"
abbreviation BinaryMessage :: int where "BinaryMessage \<equiv> 2"

record 'r ws_Conn =
  cn_rdBuf :: "'r option"
  cn_msgType :: int
  cn_writeTimeout :: int

definition newConn :: "'r ws_Conn" where
  "newConn = \<lparr>cn_rdBuf = None, cn_msgType = TextMessage, cn_writeTimeout = 0\<rparr>"

definition newConnWithWriteTimeout :: "int \<Rightarrow> 'r ws_Conn" where
  "newConnWithWriteTimeout timeout = newConn\<lparr>cn_writeTimeout := timeout\<rparr>"

definition SetMessageType :: "int \<Rightarrow> 'r ws_Conn \<Rightarrow> 'r ws_Conn" where
  "SetMessageType t c = c\<lparr>cn_msgType := t\<rparr>"

text \<open>
  \<open>Read\<close> into a buffer of \<open>n\<close> bytes: the bytes copied, the error, the connection and the world. The
  loop passes over messages without bytes, so it need not end; then there is no result.
\<close>

partial_function (option) Conn_Read ::
  "('r, 'w) ws_lib \<Rightarrow> nat \<Rightarrow> 'r ws_Conn \<Rightarrow> 'w \<Rightarrow> ((bytes \<times> go_error option) \<times> 'r ws_Conn \<times> 'w) option" where
  "Conn_Read lib n c w =
     (case cn_rdBuf c of
        Some r \<Rightarrow>
          (case lib_Read lib r n w of
             ((bs, err), w1) \<Rightarrow>
               if bs \<noteq> []
               then Some ((bs, None), (if err = Some EOF then c\<lparr>cn_rdBuf := None\<rparr> else c), w1)
               else if err = Some EOF then Conn_Read lib n (c\<lparr>cn_rdBuf := None\<rparr>) w1
               else Some (([], err), c, w1))
      | None \<Rightarrow>
          (case lib_NextReader lib w of
             (Inl e, w1) \<Rightarrow> Some (([], Some e), c, w1)
           | (Inr r, w1) \<Rightarrow> Conn_Read lib n (c\<lparr>cn_rdBuf := Some r\<rparr>) w1))"

definition Conn_Write :: "('r, 'w) ws_lib \<Rightarrow> bytes \<Rightarrow> 'r ws_Conn \<Rightarrow> 'w \<Rightarrow> (nat \<times> go_error option) \<times> 'w" where
  "Conn_Write lib p c w =
     (let w1 = (if cn_writeTimeout c > 0 then lib_SetWriteDeadline lib (lib_Now lib w + cn_writeTimeout c) w else w)
      in case lib_WriteMessage lib (cn_msgType c) p w1 of
           (Some e, w2) \<Rightarrow> ((0, Some e), w2)
         | (None, w2) \<Rightarrow> ((length p, None), w2))"

definition Conn_Ping :: "('r, 'w) ws_lib \<Rightarrow> bytes \<Rightarrow> 'r ws_Conn \<Rightarrow> 'w \<Rightarrow> go_error option \<times> 'w" where
  "Conn_Ping lib data c w =
     (let timeout = (if cn_writeTimeout c \<le> 0 then 10000000000 else cn_writeTimeout c)
      in lib_WritePing lib data (lib_Now lib w + timeout) w)"

definition Conn_Close :: "('r, 'w) ws_lib \<Rightarrow> 'r ws_Conn \<Rightarrow> 'w \<Rightarrow> go_error option \<times> 'w" where
  "Conn_Close lib c w = lib_Close lib w"

definition Conn_Die :: "('r, 'w) ws_lib \<Rightarrow> string \<Rightarrow> 'r ws_Conn \<Rightarrow> 'w \<Rightarrow> 'w" where
  "Conn_Die lib msg c w = snd (Conn_Close lib c (snd (Conn_Write lib msg c w)))"

text \<open>\<open>read_json\<close> and \<open>write_json\<close> are the library's calls, which take a whole message and send a text message.\<close>

definition Conn_ReadJSON :: "('w \<Rightarrow> 'v go_result \<times> 'w) \<Rightarrow> 'r ws_Conn \<Rightarrow> 'w \<Rightarrow> 'v go_result \<times> 'w" where
  "Conn_ReadJSON read_json c w = read_json w"

definition Conn_WriteJSON :: "('r, 'w) ws_lib \<Rightarrow> ('v \<Rightarrow> 'w \<Rightarrow> go_error option \<times> 'w) \<Rightarrow> 'v \<Rightarrow> 'r ws_Conn \<Rightarrow> 'w \<Rightarrow> go_error option \<times> 'w" where
  "Conn_WriteJSON lib write_json v c w =
     (let w1 = (if cn_writeTimeout c > 0 then lib_SetWriteDeadline lib (lib_Now lib w + cn_writeTimeout c) w else w)
      in write_json v w1)"

subsection \<open>The client and the message envelope\<close>

text \<open>\<open>dial\<close> gets the address, the header and the subprotocols. What is logged is left out.\<close>

definition NewClient :: "(string \<Rightarrow> (string \<times> string) list \<Rightarrow> string list \<Rightarrow> 'w \<Rightarrow> go_error option \<times> 'w) \<Rightarrow> string \<Rightarrow> string \<Rightarrow> string
    \<Rightarrow> 'w \<Rightarrow> 'r ws_Conn go_result \<times> 'w" where
  "NewClient dial url protocol origin w =
     (case dial url (if origin \<noteq> [] then [(''Origin'', origin)] else []) (if protocol \<noteq> [] then [protocol] else []) w of
        (Some err, w1) \<Rightarrow> (Inl err, w1)
      | (None, w1) \<Rightarrow> (Inr newConn, w1))"

record 'p ws_Message =
  wm_Method :: string
  wm_TaskID :: "nat"
  wm_Success :: bool
  wm_Message :: string
  wm_Payload :: 'p

definition GetPayload :: "('p \<Rightarrow> bytes go_result) \<Rightarrow> (bytes \<Rightarrow> 'v go_result) \<Rightarrow> 'p ws_Message \<Rightarrow> 'v go_result" where
  "GetPayload json_Marshal json_Unmarshal m =
     (case json_Marshal (wm_Payload m) of Inl err \<Rightarrow> Inl err | Inr payload \<Rightarrow> json_Unmarshal payload)"

subsection \<open>The server\<close>

record ServerConfig =
  sc_AllowedOrigins :: "string list"
  sc_AllowEmptyOrigin :: bool
  sc_ReadLimit :: int
  sc_ReadTimeout :: int
  sc_WriteTimeout :: int
  sc_PongTimeout :: int

definition matchOrigin :: "string \<Rightarrow> string \<Rightarrow> bool" where
  "matchOrigin origin pattern =
     (if origin = pattern then True
      else if strings_Contains pattern ''*''
      then (let parts = strings_SplitN2 CHR ''*'' pattern
            in if length parts = 2
               then strings_HasPrefix origin (parts ! 0) \<and> strings_HasSuffix origin (parts ! 1)
               else False)
      else False)"

definition CheckOrigin :: "ServerConfig \<Rightarrow> string \<Rightarrow> bool" where
  "CheckOrigin cfg origin =
     (if sc_AllowedOrigins cfg = [] then True
      else if origin = [] then sc_AllowEmptyOrigin cfg
      else list_ex (\<lambda>allowed. matchOrigin origin allowed) (sc_AllowedOrigins cfg))"

text \<open>The pong handler reads the clock when it is called.\<close>

definition applyConnOptions :: "('r, 'w) ws_lib \<Rightarrow> ServerConfig \<Rightarrow> 'w \<Rightarrow> 'w" where
  "applyConnOptions lib cfg w =
     (let w1 = (if sc_ReadLimit cfg > 0 then lib_SetReadLimit lib (sc_ReadLimit cfg) w else w);
          w2 = (if sc_ReadTimeout cfg > 0 then lib_SetReadDeadline lib (lib_Now lib w1 + sc_ReadTimeout cfg) w1 else w1)
      in if sc_PongTimeout cfg > 0
         then let extend = (\<lambda>v. lib_SetReadDeadline lib (lib_Now lib v + sc_PongTimeout cfg) v)
              in lib_SetPongHandler lib extend (extend w2)
         else w2)"

text \<open>How a request ends: refused, failed in the upgrade (which has answered it), or handled.\<close>

datatype handled = Refused int | NotUpgraded | Served

definition ServerConfig_Handler ::
  "('r, 'w) ws_lib \<Rightarrow> ('w \<Rightarrow> go_error option \<times> 'w) \<Rightarrow> ('r ws_Conn \<Rightarrow> 'w \<Rightarrow> 'w) \<Rightarrow> ServerConfig \<Rightarrow> string \<Rightarrow> 'w
   \<Rightarrow> handled \<times> 'w" where
  "ServerConfig_Handler lib upgrade handler cfg origin w =
     (if \<not> CheckOrigin cfg origin then (Refused 403, w)
      else case upgrade w of
             (Some _, w1) \<Rightarrow> (NotUpgraded, w1)
           | (None, w1) \<Rightarrow>
               (Served, handler (newConnWithWriteTimeout (sc_WriteTimeout cfg)) (applyConnOptions lib cfg w1)))"

text \<open>The CORS middleware: the headers it sets and whether it answers the request itself.\<close>

definition CorsMiddleware :: "ServerConfig \<Rightarrow> string \<Rightarrow> string \<Rightarrow> (string \<times> string) list \<times> int option" where
  "CorsMiddleware cfg origin meth =
     ((if CheckOrigin cfg origin
       then (if origin \<noteq> [] then [(''Access-Control-Allow-Origin'', origin)] else []) @
            [(''Access-Control-Allow-Methods'', ''GET, POST, PUT, DELETE, OPTIONS''),
             (''Access-Control-Allow-Headers'', ''Content-Type, Authorization''),
             (''Access-Control-Allow-Credentials'', ''true'')]
       else []),
      if meth = ''OPTIONS'' then Some 204 else None)"

subsection \<open>Keep-alive\<close>

text \<open>
  What the goroutine of \<open>KeepAlive\<close> receives, in order: a tick of its timer or the closing of
  \<open>done\<close>. The result says whether it is still running.
\<close>

datatype ka_event = KATick | KADone

fun keepalive_loop :: "('w \<Rightarrow> go_error option \<times> 'w) \<Rightarrow> ka_event list \<Rightarrow> 'w \<Rightarrow> bool \<times> 'w" where
  "keepalive_loop ping [] w = (True, w)"
| "keepalive_loop ping (KADone # evs) w = (False, w)"
| "keepalive_loop ping (KATick # evs) w =
     (case ping w of (Some _, w1) \<Rightarrow> (False, w1) | (None, w1) \<Rightarrow> keepalive_loop ping evs w1)"

definition KeepAlive :: "('w \<Rightarrow> go_error option \<times> 'w) \<Rightarrow> int \<Rightarrow> ka_event list \<Rightarrow> 'w \<Rightarrow> bool \<times> 'w" where
  "KeepAlive ping interval evs w = (if interval \<le> 0 then (False, w) else keepalive_loop ping evs w)"

text \<open>
  The returned \<open>stop\<close>: \<open>once\<close> has run, and \<open>done\<close> is closed. Closing a closed channel panics; with no
  goroutine \<open>stop\<close> does nothing.
\<close>

record ka_state =
  ka_once :: bool
  ka_closed :: bool

definition ka_stop :: "int \<Rightarrow> ka_state \<Rightarrow> ka_state go_result" where
  "ka_stop interval s =
     (if interval \<le> 0 then Inr s
      else if ka_once s then Inr s
      else if ka_closed s then Inl (Panic ''close of closed channel'')
      else Inr \<lparr>ka_once = True, ka_closed = True\<rparr>)"

subsection \<open>The stream of bytes\<close>

text \<open>
  What the documentation of gorilla/websocket and \<open>io.Reader\<close> says of an open connection, for a buffer
  with room: \<open>rest r w\<close> are the bytes of the current message not yet read and \<open>queue w\<close> the messages to
  come. A read returns bytes of the current message, and \<open>EOF\<close> only at its end; it returns nothing only
  with \<open>EOF\<close>. \<open>NextReader\<close> starts the next message and fails when there is none.
\<close>

definition ws_delivers :: "('r, 'w) ws_lib \<Rightarrow> ('r \<Rightarrow> 'w \<Rightarrow> bytes) \<Rightarrow> ('w \<Rightarrow> bytes list) \<Rightarrow> bool" where
  "ws_delivers lib rest queue \<longleftrightarrow>
     (\<forall>r n w bs e w1. 0 < n \<longrightarrow> lib_Read lib r n w = ((bs, e), w1) \<longrightarrow>
        length bs \<le> n \<and> rest r w = bs @ rest r w1 \<and> queue w1 = queue w
        \<and> (e = Some EOF \<longrightarrow> rest r w1 = []) \<and> (e = None \<or> e = Some EOF) \<and> (bs = [] \<longrightarrow> e = Some EOF))
     \<and> (\<forall>w r w1. lib_NextReader lib w = (Inr r, w1) \<longrightarrow> queue w = rest r w1 # queue w1)
     \<and> (\<forall>w e w1. lib_NextReader lib w = (Inl e, w1) \<longrightarrow> queue w = [] \<and> queue w1 = [])"

definition unread :: "('r \<Rightarrow> 'w \<Rightarrow> bytes) \<Rightarrow> ('w \<Rightarrow> bytes list) \<Rightarrow> 'r ws_Conn \<Rightarrow> 'w \<Rightarrow> bytes" where
  "unread rest queue c w = (case cn_rdBuf c of None \<Rightarrow> [] | Some r \<Rightarrow> rest r w) @ concat (queue w)"

definition reads_ok ::
  "nat \<Rightarrow> ('r \<Rightarrow> 'w \<Rightarrow> bytes) \<Rightarrow> ('w \<Rightarrow> bytes list) \<Rightarrow> 'r ws_Conn \<Rightarrow> 'w \<Rightarrow> (bytes \<times> go_error option) \<times> 'r ws_Conn \<times> 'w \<Rightarrow> bool" where
  "reads_ok n rest queue c w res \<longleftrightarrow>
     (case res of ((bs, e), c1, w1) \<Rightarrow>
        unread rest queue c w = bs @ unread rest queue c1 w1 \<and> length bs \<le> n
        \<and> (bs = [] \<longleftrightarrow> unread rest queue c w = []) \<and> (e = None \<longleftrightarrow> bs \<noteq> []))"

lemma reads_okD:
  assumes "reads_ok n rest queue c w ((bs, e), c1, w1)"
  shows "unread rest queue c w = bs @ unread rest queue c1 w1" "length bs \<le> n"
    "bs = [] \<longleftrightarrow> unread rest queue c w = []" "e = None \<longleftrightarrow> bs \<noteq> []"
  using assms unfolding reads_ok_def prod.case by blast+

lemma ws_readD:
  "ws_delivers lib rest queue \<Longrightarrow> 0 < n \<Longrightarrow> lib_Read lib r n w = ((bs, e), w1) \<Longrightarrow>
     length bs \<le> n \<and> rest r w = bs @ rest r w1 \<and> queue w1 = queue w
        \<and> (e = Some EOF \<longrightarrow> rest r w1 = []) \<and> (e = None \<or> e = Some EOF) \<and> (bs = [] \<longrightarrow> e = Some EOF)"
  unfolding ws_delivers_def by blast

lemma ws_nextD:
  "ws_delivers lib rest queue \<Longrightarrow> lib_NextReader lib w = (Inr r, w1) \<Longrightarrow> queue w = rest r w1 # queue w1"
  "ws_delivers lib rest queue \<Longrightarrow> lib_NextReader lib w = (Inl e, w1) \<Longrightarrow> queue w = [] \<and> queue w1 = []"
  unfolding ws_delivers_def by blast+

text \<open>One round with an open message, given the rounds that start with none.\<close>

lemma Conn_Read_open:
  assumes lib: "ws_delivers lib rest queue" and n: "0 < n" and r: "cn_rdBuf c = Some r"
    and none: "\<And>c1 w1. cn_rdBuf c1 = None \<Longrightarrow> queue w1 = queue w \<Longrightarrow>
      \<exists>res. Conn_Read lib n c1 w1 = Some res \<and> reads_ok n rest queue c1 w1 res"
  shows "\<exists>res. Conn_Read lib n c w = Some res \<and> reads_ok n rest queue c w res"
proof -
  obtain bs e w1 where rd: "lib_Read lib r n w = ((bs, e), w1)" by (metis prod.exhaust)
  note ok = ws_readD [OF lib n rd]
  show ?thesis
  proof (cases "bs = []")
    case False
    then show ?thesis using ok r rd
      by (subst Conn_Read.simps) (auto simp: reads_ok_def unread_def)
  next
    case True
    then have e: "e = Some EOF" "rest r w1 = []" using ok by auto
    obtain res where res: "Conn_Read lib n (c\<lparr>cn_rdBuf := None\<rparr>) w1 = Some res"
        "reads_ok n rest queue (c\<lparr>cn_rdBuf := None\<rparr>) w1 res"
      using none [of "c\<lparr>cn_rdBuf := None\<rparr>" w1] ok by auto
    moreover have "unread rest queue (c\<lparr>cn_rdBuf := None\<rparr>) w1 = unread rest queue c w"
      using True e ok r by (simp add: unread_def)
    ultimately show ?thesis using True e r rd
      by (subst Conn_Read.simps) (auto simp: reads_ok_def)
  qed
qed

lemma Conn_Read_none:
  assumes lib: "ws_delivers lib rest queue" and n: "0 < n"
  shows "cn_rdBuf c = None \<Longrightarrow> queue w = ms \<Longrightarrow>
    \<exists>res. Conn_Read lib n c w = Some res \<and> reads_ok n rest queue c w res"
proof (induction ms arbitrary: c w)
  case (Nil c w)
  obtain x w1 where nx: "lib_NextReader lib w = (x, w1)" by fastforce
  with ws_nextD [OF lib] Nil obtain e where e: "x = Inl e" by (cases x) auto
  with ws_nextD(2) [OF lib] nx have "queue w1 = []" by blast
  then show ?case using Nil nx e by (subst Conn_Read.simps) (auto simp: reads_ok_def unread_def)
next
  case (Cons m ms c w)
  obtain x w1 where nx: "lib_NextReader lib w = (x, w1)" by fastforce
  with ws_nextD [OF lib] Cons.prems obtain r where r: "x = Inr r" by (cases x) auto
  let ?c = "c\<lparr>cn_rdBuf := Some r\<rparr>"
  have q: "rest r w1 = m" "queue w1 = ms" using ws_nextD(1) [OF lib] nx r Cons.prems by auto
  have "\<exists>res. Conn_Read lib n ?c w1 = Some res \<and> reads_ok n rest queue ?c w1 res"
    by (rule Conn_Read_open [OF lib n _ Cons.IH]) (simp_all add: q)
  moreover have "Conn_Read lib n c w = Conn_Read lib n ?c w1"
    using Cons.prems nx r by (subst Conn_Read.simps) simp
  moreover have "unread rest queue ?c w1 = unread rest queue c w"
    using q Cons.prems by (simp add: unread_def)
  ultimately show ?case by (auto simp: reads_ok_def)
qed

lemma Conn_Read_ok:
  assumes "ws_delivers lib rest queue" "0 < n"
  shows "\<exists>res. Conn_Read lib n c w = Some res \<and> reads_ok n rest queue c w res"
proof (cases "cn_rdBuf c")
  case None
  then show ?thesis using Conn_Read_none [OF assms] by blast
next
  case (Some r)
  show ?thesis by (rule Conn_Read_open [OF assms Some Conn_Read_none [OF assms]]) simp_all
qed

text \<open>A caller that reads into buffers of the sizes \<open>ns\<close>, up to the first error.\<close>

fun read_seq :: "('r, 'w) ws_lib \<Rightarrow> nat list \<Rightarrow> 'r ws_Conn \<Rightarrow> 'w \<Rightarrow> (bytes \<times> go_error option \<times> 'r ws_Conn \<times> 'w) option" where
  "read_seq lib [] c w = Some ([], None, c, w)"
| "read_seq lib (n # ns) c w =
     (case Conn_Read lib n c w of
        None \<Rightarrow> None
      | Some ((bs, Some e), c1, w1) \<Rightarrow> Some (bs, Some e, c1, w1)
      | Some ((bs, None), c1, w1) \<Rightarrow>
          map_option (\<lambda>(rest, e, s). (bs @ rest, e, s)) (read_seq lib ns c1 w1))"

lemma read_seq_ok:
  assumes lib: "ws_delivers lib rest queue" and "\<forall>n\<in>set ns. 0 < n"
  shows "\<exists>bs e c1 w1. read_seq lib ns c w = Some (bs, e, c1, w1) \<and> unread rest queue c w = bs @ unread rest queue c1 w1
    \<and> (e \<noteq> None \<longrightarrow> unread rest queue c1 w1 = []) \<and> (e = None \<longrightarrow> length ns \<le> length bs)"
  using assms(2)
proof (induction ns arbitrary: c w)
  case (Cons n ns)
  obtain bs e c1 w1 where rd: "Conn_Read lib n c w = Some ((bs, e), c1, w1)" "reads_ok n rest queue c w ((bs, e), c1, w1)"
    using Conn_Read_ok [OF lib, of n c w] Cons.prems by auto
  show ?case
  proof (cases e)
    case (Some x)
    with reads_okD [OF rd(2)] have "bs = []" "unread rest queue c w = []" by blast+
    moreover have "read_seq lib (n # ns) c w = Some (bs, e, c1, w1)" using rd(1) Some by simp
    moreover note reads_okD(1) [OF rd(2)]
    ultimately show ?thesis using Some by fastforce
  next
    case None
    then have "bs \<noteq> []" using reads_okD(4) [OF rd(2)] by blast
    then have "1 \<le> length bs" by (cases bs) auto
    moreover obtain bs' e' c' w' where rest: "read_seq lib ns c1 w1 = Some (bs', e', c', w')"
        "unread rest queue c1 w1 = bs' @ unread rest queue c' w'"
        "e' \<noteq> None \<longrightarrow> unread rest queue c' w' = []" "e' = None \<longrightarrow> length ns \<le> length bs'"
      using Cons.IH [of c1 w1] Cons.prems by auto
    moreover have "read_seq lib (n # ns) c w = Some (bs @ bs', e', c', w')" using rd rest None by simp
    moreover have "unread rest queue c w = (bs @ bs') @ unread rest queue c' w'"
      using reads_okD(1) [OF rd(2)] rest(2) by simp
    moreover have "e' = None \<longrightarrow> length (n # ns) \<le> length (bs @ bs')"
      using rest(4) \<open>1 \<le> length bs\<close> by auto
    ultimately show ?thesis using rest(3) by blast
  qed
qed simp

text \<open>
  C25. Reading a websocket connection is reading one byte stream. For a connection as its library documents
  it, calls of \<open>Read\<close> with any positive buffer sizes always return; they deliver the bytes of the messages
  in order, across the message boundaries and past empty messages, none lost and none twice; every call
  without an error delivers at least one byte; and an error comes only after the last byte of the last
  message.
\<close>

theorem Conn_Read_stream:
  assumes "ws_delivers lib rest queue" and "\<forall>n\<in>set ns. 0 < n"
  shows "\<exists>bs e c1 w1. read_seq lib ns c w = Some (bs, e, c1, w1) \<and> unread rest queue c w = bs @ unread rest queue c1 w1
    \<and> (e \<noteq> None \<longrightarrow> unread rest queue c1 w1 = []) \<and> (e = None \<longrightarrow> length ns \<le> length bs)"
  by (rule read_seq_ok [OF assms])

text \<open>A connection whose world is the rest of the current message and the messages to come.\<close>

definition demo_ws :: "(unit, bytes \<times> bytes list) ws_lib" where
  "demo_ws =
     \<lparr>lib_NextReader = (\<lambda>(cur, q). case q of [] \<Rightarrow> (Inl (Errorf ''closed''), cur, q) | m # ms \<Rightarrow> (Inr (), m, ms)),
      lib_Read = (\<lambda>_ n (cur, q). ((take n cur, if take n cur = [] then Some EOF else None), drop n cur, q)),
      lib_WriteMessage = (\<lambda>_ _ w. (None, w)), lib_WritePing = (\<lambda>_ _ w. (None, w)),
      lib_SetWriteDeadline = (\<lambda>_ w. w), lib_SetReadDeadline = (\<lambda>_ w. w), lib_SetReadLimit = (\<lambda>_ w. w),
      lib_SetPongHandler = (\<lambda>_ w. w), lib_Close = (\<lambda>w. (None, w)), lib_Now = (\<lambda>_. 0)\<rparr>"

lemma demo_ws_delivers: "ws_delivers demo_ws (\<lambda>_ w. fst w) snd"
  by (auto simp: ws_delivers_def demo_ws_def split: list.splits if_splits)

theorem Conn_Read_stream_witness:
  "\<exists>bs e c1 w1. read_seq demo_ws [2, 5, 1] newConn ([], [''abc'', [], ''de'']) = Some (bs, e, c1, w1)
    \<and> ''abcde'' = bs @ unread (\<lambda>_ w. fst w) snd c1 w1 \<and> (e = None \<longrightarrow> 3 \<le> length bs)"
  using Conn_Read_stream [OF demo_ws_delivers, of "[2, 5, 1]" newConn "([], [''abc'', [], ''de''])"]
  by (auto simp: unread_def newConn_def)

subsection \<open>Origins\<close>

text \<open>The reference: a pattern stands for itself, or for its text with anything in place of its first star.\<close>

definition origin_glob :: "string \<Rightarrow> string \<Rightarrow> bool" where
  "origin_glob origin pattern \<longleftrightarrow>
     origin = pattern \<or>
     (CHR ''*'' \<in> set pattern \<and>
       (\<exists>mid. origin = takeWhile (\<lambda>c. c \<noteq> CHR ''*'') pattern @ mid @ tl (dropWhile (\<lambda>c. c \<noteq> CHR ''*'') pattern)))"

lemma prefix_suffix_split:
  assumes "prefix a s" "suffix b s" "length a + length b \<le> length s"
  shows "\<exists>mid. s = a @ mid @ b"
proof -
  obtain t where t: "s = a @ t" using assms(1) by (auto simp: prefix_def)
  obtain u where u: "s = u @ b" using assms(2) by (auto simp: suffix_def)
  have "length a \<le> length u" using u assms(3) by simp
  moreover have "a @ t = u @ b" using t u by simp
  ultimately obtain mid where "u = a @ mid" by (auto simp: append_eq_append_conv2)
  then show ?thesis using u by auto
qed

lemma matchOrigin_cases:
  "matchOrigin origin p \<longleftrightarrow> origin = p \<or>
     (CHR ''*'' \<in> set p \<and> prefix (takeWhile (\<lambda>c. c \<noteq> CHR ''*'') p) origin
        \<and> suffix (tl (dropWhile (\<lambda>c. c \<noteq> CHR ''*'') p)) origin)"
  by (simp add: matchOrigin_def strings_SplitN2_def Let_def)

lemma star_split_length:
  "CHR ''*'' \<in> set p \<Longrightarrow>
     length (takeWhile (\<lambda>c. c \<noteq> CHR ''*'') p) + length (tl (dropWhile (\<lambda>c. c \<noteq> CHR ''*'') p)) = length p - 1"
proof -
  assume "CHR ''*'' \<in> set p"
  then have "dropWhile (\<lambda>c. c \<noteq> CHR ''*'') p \<noteq> []" by (simp add: dropWhile_eq_Nil_conv)
  moreover have "length (takeWhile (\<lambda>c. c \<noteq> CHR ''*'') p) + length (dropWhile (\<lambda>c. c \<noteq> CHR ''*'') p) = length p"
    by (metis length_append takeWhile_dropWhile_id)
  ultimately show ?thesis by (cases "dropWhile (\<lambda>c. c \<noteq> CHR ''*'') p") auto
qed

lemma glob_matchOrigin: "origin_glob origin p \<Longrightarrow> matchOrigin origin p"
  unfolding origin_glob_def matchOrigin_cases by (auto simp: prefix_def suffix_def)

lemma matchOrigin_glob: "length p \<le> Suc (length origin) \<Longrightarrow> matchOrigin origin p = origin_glob origin p"
proof
  assume len: "length p \<le> Suc (length origin)" and m: "matchOrigin origin p"
  show "origin_glob origin p"
  proof (cases "origin = p")
    case False
    with m have star: "CHR ''*'' \<in> set p" and pre: "prefix (takeWhile (\<lambda>c. c \<noteq> CHR ''*'') p) origin"
      and suf: "suffix (tl (dropWhile (\<lambda>c. c \<noteq> CHR ''*'') p)) origin"
      unfolding matchOrigin_cases by auto
    from prefix_suffix_split [OF pre suf] star_split_length [OF star] len star show ?thesis
      unfolding origin_glob_def by auto
  qed (simp add: origin_glob_def)
qed (rule glob_matchOrigin)

text \<open>
  C26. The origin check admits exactly the configured origins. Without a list every origin passes; an
  empty origin passes only when that is allowed; any other passes exactly when an entry is the origin
  itself or matches it with anything in place of its first star - for entries at most one byte longer
  than the origin. A refused request is answered 403 before the upgrade and changes nothing.
\<close>

theorem CheckOrigin_exact:
  assumes "\<forall>p\<in>set (sc_AllowedOrigins cfg). length p \<le> Suc (length origin)"
  shows "(CheckOrigin cfg origin \<longleftrightarrow>
      sc_AllowedOrigins cfg = [] \<or> (origin = [] \<and> sc_AllowEmptyOrigin cfg)
      \<or> (origin \<noteq> [] \<and> (\<exists>p\<in>set (sc_AllowedOrigins cfg). origin_glob origin p)))
    \<and> (\<forall>lib upgrade handler w. CheckOrigin cfg origin \<or>
         ServerConfig_Handler lib upgrade handler cfg origin w = (Refused 403, w))"
  using assms matchOrigin_glob by (auto simp: CheckOrigin_def ServerConfig_Handler_def list_ex_iff)

definition demo_origins :: ServerConfig where
  "demo_origins = \<lparr>sc_AllowedOrigins = [''https://*.a.io''], sc_AllowEmptyOrigin = False, sc_ReadLimit = 0,
     sc_ReadTimeout = 0, sc_WriteTimeout = 0, sc_PongTimeout = 0\<rparr>"

theorem CheckOrigin_exact_witness:
  "CheckOrigin demo_origins ''https://w.a.io'' \<and> \<not> CheckOrigin demo_origins ''https://w.b.io''"
proof -
  have yes: "origin_glob ''https://w.a.io'' ''https://*.a.io''"
    by (auto simp: origin_glob_def intro: exI [of _ "''w''"])
  have no: "\<not> origin_glob ''https://w.b.io'' ''https://*.a.io''"
    by (subst matchOrigin_glob [symmetric]) (simp_all add: matchOrigin_cases suffix_def Cons_eq_append_conv)
  show ?thesis
    using CheckOrigin_exact [of demo_origins "''https://w.a.io''", THEN conjunct1]
      CheckOrigin_exact [of demo_origins "''https://w.b.io''", THEN conjunct1] yes no
    by (simp add: demo_origins_def)
qed

text \<open>
  The part of a pattern before its star and the part after it may overlap in the origin: a pattern
  \<open>a x * x b\<close> admits the shorter origin \<open>a x b\<close>, which it does not match with anything in place of the star.
\<close>

theorem matchOrigin_overlap:
  assumes "x \<noteq> []" and "CHR ''*'' \<notin> set (a @ x)"
  shows "matchOrigin (a @ x @ b) (a @ x @ ''*'' @ x @ b) \<and> \<not> origin_glob (a @ x @ b) (a @ x @ ''*'' @ x @ b)"
proof -
  have p: "takeWhile (\<lambda>c. c \<noteq> CHR ''*'') (a @ x @ ''*'' @ x @ b) = a @ x"
      "tl (dropWhile (\<lambda>c. c \<noteq> CHR ''*'') (a @ x @ ''*'' @ x @ b)) = x @ b"
    using assms(2) by (auto simp: takeWhile_append dropWhile_append)
  then show ?thesis using assms(1) by (auto simp: matchOrigin_cases origin_glob_def suffix_def)
qed

theorem matchOrigin_overlap_witness:
  "matchOrigin ''https://a.b'' ''https://a.*.b'' \<and> \<not> origin_glob ''https://a.b'' ''https://a.*.b''"
  using matchOrigin_overlap [of "''.''" "''https://a''" "''b''"] by simp

end
