(* ===== verification/Webssh_Client.thy ===== *)
theory Webssh_Client
  imports Go_Prelude
begin

text \<open>
  Opening an SSH connection (src/webssh/ssh_client.go). The caller's options are passed by pointer and
  \<open>NewSSHClient\<close> completes the address in place, so every function here returns the options too. Dialling
  and parsing a private key belong to golang.org/x/crypto/ssh and are parameters.
\<close>

record SSHClientOption =
  opt_Addr :: string
  opt_User :: string
  opt_Password :: string
  opt_PrivateKey :: string

datatype 'k ssh_auth = PasswordAuth string | PublicKeyAuth 'k

record 'k ssh_config =
  sshc_User :: string
  sshc_Auth :: "'k ssh_auth list"
  sshc_Timeout :: int
  sshc_InsecureHostKey :: bool

record ('k, 'cl, 'w) ssh_lib =
  ssh_Dial :: "string \<Rightarrow> 'k ssh_config \<Rightarrow> 'w \<Rightarrow> 'cl go_result \<times> 'w"
  ssh_ParsePrivateKey :: "string \<Rightarrow> 'k go_result"

definition NewSSHClientWithPassword ::
  "('k, 'cl, 'w) ssh_lib \<Rightarrow> SSHClientOption \<Rightarrow> 'w \<Rightarrow> 'cl go_result \<times> 'w" where
  "NewSSHClientWithPassword lib option w =
     ssh_Dial lib (opt_Addr option)
       \<lparr>sshc_User = opt_User option, sshc_Auth = [PasswordAuth (opt_Password option)],
        sshc_Timeout = 5 * 1000000000, sshc_InsecureHostKey = True\<rparr> w"

definition NewSSHClientWithPrivateKey ::
  "('k, 'cl, 'w) ssh_lib \<Rightarrow> SSHClientOption \<Rightarrow> 'w \<Rightarrow> 'cl go_result \<times> 'w" where
  "NewSSHClientWithPrivateKey lib option w =
     (case ssh_ParsePrivateKey lib (opt_PrivateKey option) of
        Inl err \<Rightarrow> (Inl err, w)
      | Inr signer \<Rightarrow>
          ssh_Dial lib (opt_Addr option)
            \<lparr>sshc_User = opt_User option, sshc_Auth = [PublicKeyAuth signer],
             sshc_Timeout = 5 * 1000000000, sshc_InsecureHostKey = True\<rparr> w)"

definition with_port :: "SSHClientOption \<Rightarrow> SSHClientOption" where
  "with_port option =
     (if \<not> strings_Contains (opt_Addr option) '':'' then option\<lparr>opt_Addr := opt_Addr option @ '':22''\<rparr> else option)"

definition NewSSHClient ::
  "('k, 'cl, 'w) ssh_lib \<Rightarrow> SSHClientOption \<Rightarrow> 'w \<Rightarrow> 'cl go_result \<times> SSHClientOption \<times> 'w" where
  "NewSSHClient lib option w =
     (let opt1 = with_port option
      in if opt_Password opt1 \<noteq> []
         then (case NewSSHClientWithPassword lib opt1 w of (r, w1) \<Rightarrow> (r, opt1, w1))
         else if opt_PrivateKey opt1 \<noteq> []
         then (case NewSSHClientWithPrivateKey lib opt1 w of (r, w1) \<Rightarrow> (r, opt1, w1))
         else (Inl (Errorf ''SSHClient: no Password or PrivateKey''), opt1, w))"

lemma NewSSHClient_option: "fst (snd (NewSSHClient lib option w)) = with_port option"
  by (simp add: NewSSHClient_def Let_def split: prod.split)

lemma with_port_idem [simp]: "with_port (with_port option) = with_port option"
  by (simp add: with_port_def)

lemma with_port_fields [simp]:
  "opt_User (with_port option) = opt_User option"
  "opt_Password (with_port option) = opt_Password option"
  "opt_PrivateKey (with_port option) = opt_PrivateKey option"
  by (simp_all add: with_port_def)

end
