(* ===== verification/Webssh_Session.thy ===== *)
theory Webssh_Session
  imports Websocket Webssh_Client
begin

text \<open>
  A terminal over a websocket (src/webssh/session.go): the control messages that resize the terminal, the
  reader that takes them out of the input stream, and the set-up and tear-down of a session. The SSH
  session's own state is a world \<open>'s\<close> of its own, changed by \<open>WindowChange\<close>.
\<close>

definition DefaultResizeControlPrefix :: string where
  "DefaultResizeControlPrefix = CHR 0x00 # ''webssh:resize:''"

subsection \<open>Resize messages\<close>

definition parseTerminalResize :: "bytes \<Rightarrow> string \<Rightarrow> int \<times> int \<times> bool" where
  "parseTerminalResize data pre =
     (if pre = [] \<or> \<not> strings_HasPrefix data pre then (0, 0, False)
      else let size = strings_TrimPrefix data pre;
               parts = strings_Split CHR '':'' size
           in if length parts \<noteq> 2 then (0, 0, True)
              else case strconv_Atoi (parts ! 0) of
                     None \<Rightarrow> (0, 0, True)
                   | Some cols \<Rightarrow>
                       (case strconv_Atoi (parts ! 1) of
                          None \<Rightarrow> (0, 0, True)
                        | Some rows \<Rightarrow>
                            if cols < 10 \<or> rows < 3 \<or> cols > 1000 \<or> rows > 1000 then (0, 0, True)
                            else (cols, rows, True)))"

subsection \<open>The reader\<close>

record 'r resize_reader =
  rr_reader :: "'r ws_Conn"
  rr_prefix :: string
  rr_pending :: bytes
  rr_cols :: int
  rr_rows :: int
  rr_ready :: bool

definition newTerminalResizeReader :: "'r ws_Conn \<Rightarrow> string \<Rightarrow> 'r resize_reader" where
  "newTerminalResizeReader conn pre =
     \<lparr>rr_reader = conn, rr_prefix = pre, rr_pending = [], rr_cols = 0, rr_rows = 0, rr_ready = False\<rparr>"

text \<open>\<open>window rows cols\<close> is \<open>session.WindowChange\<close>; its error is ignored.\<close>

definition rr_Enable :: "(int \<Rightarrow> int \<Rightarrow> 's \<Rightarrow> 's) \<Rightarrow> 'r resize_reader \<Rightarrow> 's \<Rightarrow> 'r resize_reader \<times> 's" where
  "rr_Enable window rr s =
     (rr\<lparr>rr_ready := True\<rparr>,
      if rr_cols rr > 0 \<and> rr_rows rr > 0 then window (rr_rows rr) (rr_cols rr) s else s)"

definition rr_Resize :: "(int \<Rightarrow> int \<Rightarrow> 's \<Rightarrow> 's) \<Rightarrow> int \<Rightarrow> int \<Rightarrow> 'r resize_reader \<Rightarrow> 's \<Rightarrow> 'r resize_reader \<times> 's" where
  "rr_Resize window cols rows rr s =
     (let rr1 = rr\<lparr>rr_cols := cols, rr_rows := rows\<rparr>
      in if \<not> rr_ready rr1 then (rr1, s) else (rr1, window rows cols s))"

partial_function (option) rr_Read ::
  "('r, 'w) ws_lib \<Rightarrow> (int \<Rightarrow> int \<Rightarrow> 's \<Rightarrow> 's) \<Rightarrow> nat \<Rightarrow> 'r resize_reader \<Rightarrow> 'w \<Rightarrow> 's
   \<Rightarrow> ((bytes \<times> go_error option) \<times> 'r resize_reader \<times> 'w \<times> 's) option" where
  "rr_Read lib window n rr w s =
     (if rr_pending rr \<noteq> []
      then Some ((take n (rr_pending rr), None), rr\<lparr>rr_pending := drop n (rr_pending rr)\<rparr>, w, s)
      else case Conn_Read lib 65536 (rr_reader rr) w of
             None \<Rightarrow> None
           | Some ((data, err), c1, w1) \<Rightarrow>
               let rr1 = rr\<lparr>rr_reader := c1\<rparr>
               in if data \<noteq> []
                  then (case parseTerminalResize data (rr_prefix rr) of
                          (cols, rows, ok) \<Rightarrow>
                            if ok
                            then (case rr_Resize window cols rows rr1 s of
                                    (rr2, s1) \<Rightarrow> rr_Read lib window n rr2 w1 s1)
                            else Some ((take n data, None),
                                       (if n < length data then rr1\<lparr>rr_pending := drop n data\<rparr> else rr1), w1, s))
                  else Some (([], err), rr1, w1, s))"

subsection \<open>A session from set-up to tear-down\<close>

record ConnectOptions =
  co_ResizeControlPrefix :: string
  co_InitialWidth :: int
  co_InitialHeight :: int

text \<open>The size of the terminal; \<open>term\<close> is what \<open>term.GetSize\<close> says of the server's own terminal.\<close>

definition pty_size :: "int \<times> int \<Rightarrow> ConnectOptions \<Rightarrow> int \<times> int" where
  "pty_size tty opts =
     (let (width, height) = tty;
          width1 = (if co_InitialWidth opts > 0 then co_InitialWidth opts else width);
          height1 = (if co_InitialHeight opts > 0 then co_InitialHeight opts else height);
          width2 = (if width1 \<le> 0 \<and> co_ResizeControlPrefix opts \<noteq> [] then 120 else width1);
          height2 = (if height1 \<le> 0 \<and> co_ResizeControlPrefix opts \<noteq> [] then 40 else height1)
      in (width2, height2))"

text \<open>The calls of a session on its collaborators, in the order the code makes them.\<close>

datatype ssh_call =
    CallNewSSHClient SSHClientOption
  | CallNewSession
  | CallRequestPty string int int
  | CallEnable
  | CallShell
  | CallWait
  | CallWrite bytes
  | CloseSession
  | CloseClient
  | CloseWS

record 'w session_env =
  se_call :: "ssh_call \<Rightarrow> 'w \<Rightarrow> go_error option \<times> 'w"
  se_term :: "int \<times> int"
  se_text :: "go_error \<Rightarrow> string"

abbreviation crlf :: string where "crlf \<equiv> [cr, nl]"

definition do_call :: "'w session_env \<Rightarrow> ssh_call \<Rightarrow> 'w \<Rightarrow> 'w" where
  "do_call env call w = snd (se_call env call w)"

text \<open>The calls that may fail after the session is open; a failure is written to the websocket.\<close>

fun session_stages :: "'w session_env \<Rightarrow> ssh_call list \<Rightarrow> 'w \<Rightarrow> go_error option \<times> 'w" where
  "session_stages env [] w = (None, w)"
| "session_stages env (call # calls) w =
     (case se_call env call w of
        (Some err, w1) \<Rightarrow> (Some err, do_call env (CallWrite (se_text env err @ crlf)) w1)
      | (None, w1) \<Rightarrow> session_stages env calls w1)"

definition ConnectWithOptions :: "'w session_env \<Rightarrow> SSHClientOption \<Rightarrow> ConnectOptions \<Rightarrow> 'w \<Rightarrow> go_error option \<times> 'w" where
  "ConnectWithOptions env opt opts w =
     (case se_call env (CallNewSSHClient opt) w of
        (Some err, w1) \<Rightarrow>
          (Some err, do_call env CloseWS (do_call env (CallWrite (''> '' @ se_text env err @ crlf)) w1))
      | (None, w1) \<Rightarrow>
          (case se_call env CallNewSession w1 of
             (Some err, w2) \<Rightarrow>
               (Some err, do_call env CloseWS (do_call env CloseClient
                            (do_call env (CallWrite (se_text env err @ crlf)) w2)))
           | (None, w2) \<Rightarrow>
               let (width, height) = pty_size (se_term env) opts;
                   pty = CallRequestPty ''xterm'' height width;
                   (r, w3) =
                     (case se_call env pty w2 of
                        (Some err, v) \<Rightarrow> (Some err, do_call env (CallWrite (se_text env err @ crlf)) v)
                      | (None, v) \<Rightarrow>
                          let v1 = (if co_ResizeControlPrefix opts \<noteq> [] then do_call env CallEnable v else v)
                          in session_stages env [CallShell, CallWait] v1)
               in (r, do_call env CloseWS (do_call env CloseClient (do_call env CloseSession w3)))))"

definition Connect :: "'w session_env \<Rightarrow> SSHClientOption \<Rightarrow> 'w \<Rightarrow> go_error option \<times> 'w" where
  "Connect env opt w =
     ConnectWithOptions env opt \<lparr>co_ResizeControlPrefix = [], co_InitialWidth = 0, co_InitialHeight = 0\<rparr> w"

definition ConnectWithResize :: "'w session_env \<Rightarrow> SSHClientOption \<Rightarrow> 'w \<Rightarrow> go_error option \<times> 'w" where
  "ConnectWithResize env opt w =
     ConnectWithOptions env opt
       \<lparr>co_ResizeControlPrefix = DefaultResizeControlPrefix, co_InitialWidth = 0, co_InitialHeight = 0\<rparr> w"

subsection \<open>Lemmas: resize messages\<close>

definition resize_message :: "string \<Rightarrow> int \<Rightarrow> int \<Rightarrow> bytes" where
  "resize_message pre cols rows = pre @ strconv_Itoa cols @ '':'' @ strconv_Itoa rows"

lemma parseTerminalResize_ok:
  "snd (snd (parseTerminalResize data pre)) \<longleftrightarrow> pre \<noteq> [] \<and> prefix pre data"
  by (simp add: parseTerminalResize_def Let_def split: option.split)

lemma parseTerminalResize_range:
  assumes "parseTerminalResize data pre = (cols, rows, ok)"
  shows "(cols = 0 \<and> rows = 0) \<or> (10 \<le> cols \<and> cols \<le> 1000 \<and> 3 \<le> rows \<and> rows \<le> 1000)"
  using assms by (auto simp: parseTerminalResize_def Let_def split: option.splits if_splits)

lemma Itoa_no_colon: "CHR '':'' \<notin> set (strconv_Itoa n)"
  using digit_notin_nat_digits [of "CHR '':''"] by (simp add: strconv_Itoa_def is_digit_def)

lemma parse_resize_message:
  assumes "pre \<noteq> []" "10 \<le> cols" "cols \<le> 1000" "3 \<le> rows" "rows \<le> 1000"
  shows "parseTerminalResize (resize_message pre cols rows) pre = (cols, rows, True)"
proof -
  have "strings_Split CHR '':'' (strconv_Itoa cols @ '':'' @ strconv_Itoa rows) = [strconv_Itoa cols, strconv_Itoa rows]"
    using Split_append [of "CHR '':''" "strconv_Itoa cols" "strconv_Itoa rows"] by (simp add: Split_no_sep Itoa_no_colon)
  moreover have "strconv_Atoi (strconv_Itoa cols) = Some cols" "strconv_Atoi (strconv_Itoa rows) = Some rows"
    using assms by (auto intro!: Atoi_Itoa simp: in_int64_def min_int64_def max_int64_def)
  ultimately show ?thesis
    using assms by (simp add: parseTerminalResize_def resize_message_def strings_TrimPrefix_def Let_def)
qed

text \<open>
  C24. A resize message is read back: for every size from 10 by 3 to 1000 by 1000, the message made of the
  prefix and the two numbers with a colon between them parses to exactly that size. Every message parses to
  a size in that range or to 0 by 0, and it is taken for a resize message exactly when it starts with the
  prefix.
\<close>

theorem parseTerminalResize_roundtrip:
  assumes "pre \<noteq> []"
  shows "(\<forall>cols rows. cols \<in> {10..1000} \<and> rows \<in> {3..1000} \<longrightarrow>
            parseTerminalResize (resize_message pre cols rows) pre = (cols, rows, True))
    \<and> (\<forall>data. \<exists>cols rows ok. parseTerminalResize data pre = (cols, rows, ok) \<and> (ok \<longleftrightarrow> prefix pre data)
          \<and> ((cols, rows) = (0, 0) \<or> (cols \<in> {10..1000} \<and> rows \<in> {3..1000})))"
proof (intro conjI allI impI)
  fix cols rows :: int
  assume "cols \<in> {10..1000} \<and> rows \<in> {3..1000}"
  with assms show "parseTerminalResize (resize_message pre cols rows) pre = (cols, rows, True)"
    by (intro parse_resize_message) auto
next
  fix data
  obtain cols rows ok where p: "parseTerminalResize data pre = (cols, rows, ok)" by (metis prod.exhaust)
  with parseTerminalResize_ok [of data pre] parseTerminalResize_range [OF p] assms
  show "\<exists>cols rows ok. parseTerminalResize data pre = (cols, rows, ok) \<and> (ok \<longleftrightarrow> prefix pre data)
          \<and> ((cols, rows) = (0, 0) \<or> (cols \<in> {10..1000} \<and> rows \<in> {3..1000}))"
    by auto
qed

theorem parseTerminalResize_roundtrip_witness:
  "parseTerminalResize (resize_message ''R:'' 80 24) ''R:'' = (80, 24, True)"
  using parseTerminalResize_roundtrip [of "''R:''"] by simp

subsection \<open>Lemmas: what the shell receives\<close>

text \<open>The pieces that successive reads of the websocket return, up to its error.\<close>

inductive pieces :: "('r, 'w) ws_lib \<Rightarrow> 'r ws_Conn \<Rightarrow> 'w \<Rightarrow> bytes list \<Rightarrow> go_error option \<Rightarrow> bool" for lib where
  pieces_end: "Conn_Read lib 65536 c w = Some (([], e), c1, w1) \<Longrightarrow> pieces lib c w [] e"
| pieces_more: "Conn_Read lib 65536 c w = Some ((d, None), c1, w1) \<Longrightarrow> d \<noteq> [] \<Longrightarrow> pieces lib c1 w1 ds e
    \<Longrightarrow> pieces lib c w (d # ds) e"

inductive_cases pieces_NilE: "pieces lib c w [] e"
inductive_cases pieces_ConsE: "pieces lib c w (d # ds) e"

text \<open>A reader of the terminal input with buffers of the sizes \<open>ns\<close>.\<close>

fun shell_input ::
  "('r, 'w) ws_lib \<Rightarrow> (int \<Rightarrow> int \<Rightarrow> 's \<Rightarrow> 's) \<Rightarrow> nat list \<Rightarrow> 'r resize_reader \<Rightarrow> 'w \<Rightarrow> 's \<Rightarrow> (bytes \<times> go_error option \<times> 's) option" where
  "shell_input lib window [] rr w s = None"
| "shell_input lib window (n # ns) rr w s =
     (case rr_Read lib window n rr w s of
        None \<Rightarrow> None
      | Some (([], e), rr1, w1, s1) \<Rightarrow> Some ([], e, s1)
      | Some ((b # bs, _), rr1, w1, s1) \<Rightarrow>
          map_option (\<lambda>(rest, e, s2). ((b # bs) @ rest, e, s2)) (shell_input lib window ns rr1 w1 s1))"

text \<open>What the pieces mean: input for the shell, and the sizes it is told, in order.\<close>

definition shell_bytes :: "string \<Rightarrow> bytes list \<Rightarrow> bytes" where
  "shell_bytes pre ds = concat (filter (\<lambda>d. \<not> prefix pre d) ds)"

definition shell_sizes :: "string \<Rightarrow> bytes list \<Rightarrow> (int \<times> int) list" where
  "shell_sizes pre ds = map (\<lambda>d. case parseTerminalResize d pre of (cols, rows, _) \<Rightarrow> (rows, cols)) (filter (prefix pre) ds)"

definition told :: "(int \<Rightarrow> int \<Rightarrow> 's \<Rightarrow> 's) \<Rightarrow> (int \<times> int) list \<Rightarrow> 's \<Rightarrow> 's" where
  "told window sizes s = fold (\<lambda>(rows, cols). window rows cols) sizes s"

lemma told_append [simp]: "told window (xs @ ys) s = told window ys (told window xs s)"
  by (simp add: told_def)

lemma shell_bytes_control: "\<forall>d\<in>set cs. prefix pre d \<Longrightarrow> shell_bytes pre (cs @ ds) = shell_bytes pre ds"
  by (induction cs) (simp_all add: shell_bytes_def)

lemma shell_sizes_append: "shell_sizes pre (xs @ ys) = shell_sizes pre xs @ shell_sizes pre ys"
  by (simp add: shell_sizes_def)

text \<open>Where a read gets to: the end, after control messages only, or the first piece of input.\<close>

definition read_end ::
  "('r, 'w) ws_lib \<Rightarrow> (int \<Rightarrow> int \<Rightarrow> 's \<Rightarrow> 's) \<Rightarrow> nat \<Rightarrow> 'r resize_reader \<Rightarrow> 'w \<Rightarrow> 's \<Rightarrow> bytes list \<Rightarrow> go_error option \<Rightarrow> bool" where
  "read_end lib window n rr w s ds e \<longleftrightarrow>
     (\<forall>d\<in>set ds. prefix (rr_prefix rr) d) \<and>
     (\<exists>rr1 w1. rr_Read lib window n rr w s = Some (([], e), rr1, w1, told window (shell_sizes (rr_prefix rr) ds) s))"

definition read_piece ::
  "('r, 'w) ws_lib \<Rightarrow> (int \<Rightarrow> int \<Rightarrow> 's \<Rightarrow> 's) \<Rightarrow> nat \<Rightarrow> 'r resize_reader \<Rightarrow> 'w \<Rightarrow> 's \<Rightarrow> bytes list \<Rightarrow> go_error option \<Rightarrow> bool" where
  "read_piece lib window n rr w s ds e \<longleftrightarrow>
     (\<exists>cs d ds1 rr1 w1. ds = cs @ d # ds1 \<and> (\<forall>d\<in>set cs. prefix (rr_prefix rr) d) \<and> \<not> prefix (rr_prefix rr) d \<and> d \<noteq> []
        \<and> rr_Read lib window n rr w s = Some ((take n d, None), rr1, w1, told window (shell_sizes (rr_prefix rr) cs) s)
        \<and> rr_pending rr1 = drop n d \<and> rr_prefix rr1 = rr_prefix rr \<and> rr_ready rr1 \<and> pieces lib (rr_reader rr1) w1 ds1 e)"

lemma read_after_control:
  assumes step: "rr_Read lib window n rr w s = rr_Read lib window n rr1 w1 (window rows cols s)" and pre: "rr_prefix rr1 = rr_prefix rr"
    and d: "prefix (rr_prefix rr) d" "parseTerminalResize d (rr_prefix rr) = (cols, rows, True)"
    and later: "read_end lib window n rr1 w1 (window rows cols s) ds e \<or> read_piece lib window n rr1 w1 (window rows cols s) ds e"
  shows "read_end lib window n rr w s (d # ds) e \<or> read_piece lib window n rr w s (d # ds) e"
proof -
  let ?pre = "rr_prefix rr"
  have sizes: "told window (shell_sizes ?pre (d # xs)) s = told window (shell_sizes ?pre xs) (window rows cols s)" for xs
    using d by (simp add: shell_sizes_def told_def)
  from later show ?thesis
  proof
    assume "read_end lib window n rr1 w1 (window rows cols s) ds e"
    then show ?thesis using d(1) sizes [of ds] step pre unfolding read_end_def by simp
  next
    assume "read_piece lib window n rr1 w1 (window rows cols s) ds e"
    then obtain cs d' ds1 rr2 w2 where "ds = cs @ d' # ds1" "\<forall>d\<in>set cs. prefix ?pre d" "\<not> prefix ?pre d'" "d' \<noteq> []"
        "rr_Read lib window n rr1 w1 (window rows cols s) =
           Some ((take n d', None), rr2, w2, told window (shell_sizes ?pre cs) (window rows cols s))"
        "rr_pending rr2 = drop n d'" "rr_prefix rr2 = ?pre" "rr_ready rr2" "pieces lib (rr_reader rr2) w2 ds1 e"
      unfolding read_piece_def pre by blast
    then have "read_piece lib window n rr w s (d # ds) e"
      unfolding read_piece_def using d(1) sizes [of cs] step
      by (intro exI [of _ "d # cs"] exI [of _ d'] exI [of _ ds1]) simp
    then show ?thesis ..
  qed
qed

lemma rr_Read_cases:
  assumes "pieces lib (rr_reader rr) w ds e" "rr_pending rr = []" "rr_ready rr" "rr_prefix rr \<noteq> []"
  shows "read_end lib window n rr w s ds e \<or> read_piece lib window n rr w s ds e"
  using assms
proof (induction ds arbitrary: rr w s)
  case Nil
  from Nil(1) obtain c1 w1 where "Conn_Read lib 65536 (rr_reader rr) w = Some (([], e), c1, w1)"
    by (rule pieces_NilE) blast
  then have "rr_Read lib window n rr w s = Some (([], e), rr\<lparr>rr_reader := c1\<rparr>, w1, s)"
    using Nil(2) by (subst rr_Read.simps) simp
  then show ?case by (simp add: read_end_def shell_sizes_def told_def)
next
  case (Cons d ds)
  from Cons.prems(1) obtain c1 w1 where rd: "Conn_Read lib 65536 (rr_reader rr) w = Some ((d, None), c1, w1)"
      "d \<noteq> []" "pieces lib c1 w1 ds e"
    by (rule pieces_ConsE) blast
  let ?pre = "rr_prefix rr"
  obtain cols rows ok where p: "parseTerminalResize d ?pre = (cols, rows, ok)" by (metis prod.exhaust)
  then have ok: "ok \<longleftrightarrow> prefix ?pre d" using parseTerminalResize_ok [of d ?pre] Cons.prems(4) by simp
  show ?case
  proof (cases ok)
    case False
    let ?rr1 = "rr\<lparr>rr_reader := c1, rr_pending := drop n d\<rparr>"
    have "rr_Read lib window n rr w s = Some ((take n d, None), ?rr1, w1, s)"
      using rd p False Cons.prems(2) by (subst rr_Read.simps) (cases rr, simp add: Let_def)
    then show ?thesis using rd ok False Cons.prems
      unfolding read_piece_def by (intro disjI2 exI [of _ "[]"] exI [of _ d] exI [of _ ds]) (simp add: shell_sizes_def told_def)
  next
    case True
    let ?rr1 = "rr\<lparr>rr_reader := c1, rr_cols := cols, rr_rows := rows\<rparr>"
    have step: "rr_Read lib window n rr w s = rr_Read lib window n ?rr1 w1 (window rows cols s)"
      using rd p True Cons.prems by (subst rr_Read.simps) (simp add: rr_Resize_def Let_def)
    have "read_end lib window n ?rr1 w1 (window rows cols s) ds e \<or> read_piece lib window n ?rr1 w1 (window rows cols s) ds e"
      using Cons.IH [of ?rr1 w1 "window rows cols s"] rd Cons.prems by simp
    from read_after_control [OF step _ _ _ this] ok p True show ?thesis by simp
  qed
qed

text \<open>A read with bytes is the next part of what the shell gets.\<close>

lemma shell_input_part:
  assumes "rr_Read lib window n rr w s = Some ((take n d, None), rr1, w1, s1)" "d \<noteq> []" "0 < n"
    and "shell_input lib window ns rr1 w1 s1 = Some (drop n d @ out, e, s2)"
  shows "shell_input lib window (n # ns) rr w s = Some (d @ out, e, s2)"
proof -
  obtain b bs where b: "take n d = b # bs" using assms(2,3) by (cases d; cases n) auto
  then have "(b # bs) @ drop n d @ out = d @ out" by (metis append.assoc append_take_drop_id)
  then show ?thesis using assms(1,4) b by simp
qed

lemma shell_input_ok:
  assumes "pieces lib (rr_reader rr) w ds e" "rr_ready rr" "rr_prefix rr \<noteq> []" "\<forall>n\<in>set ns. 0 < n"
    "length (rr_pending rr @ shell_bytes (rr_prefix rr) ds) < length ns"
  shows "shell_input lib window ns rr w s =
    Some (rr_pending rr @ shell_bytes (rr_prefix rr) ds, e, told window (shell_sizes (rr_prefix rr) ds) s)"
  using assms
proof (induction ns arbitrary: rr w s ds)
  case (Cons n ns)
  note prems = Cons.prems
  have n: "0 < n" using prems(4) by simp
  have shorter: "length (drop n d) < length d" if "d \<noteq> []" for d :: bytes using that n by (cases d) auto
  show ?case
  proof (cases "rr_pending rr = []")
    case False
    let ?rr1 = "rr\<lparr>rr_pending := drop n (rr_pending rr)\<rparr>"
    have "rr_Read lib window n rr w s = Some ((take n (rr_pending rr), None), ?rr1, w, s)"
      using False by (subst rr_Read.simps) simp
    moreover have "shell_input lib window ns ?rr1 w s =
        Some (drop n (rr_pending rr) @ shell_bytes (rr_prefix rr) ds, e, told window (shell_sizes (rr_prefix rr) ds) s)"
      using Cons.IH [of ?rr1 w ds s] prems shorter [OF False] by simp
    ultimately show ?thesis by (rule shell_input_part [OF _ False n])
  next
    case True
    from rr_Read_cases [OF prems(1) True prems(2,3), of window n s] show ?thesis
    proof
      assume "read_end lib window n rr w s ds e"
      then show ?thesis using True shell_bytes_control [of ds "rr_prefix rr" "[]"]
        unfolding read_end_def by (auto simp: shell_bytes_def)
    next
      assume "read_piece lib window n rr w s ds e"
      then obtain cs d ds1 rr1 w1 where *: "ds = cs @ d # ds1" "\<forall>d\<in>set cs. prefix (rr_prefix rr) d"
          "\<not> prefix (rr_prefix rr) d" "d \<noteq> []"
          "rr_Read lib window n rr w s = Some ((take n d, None), rr1, w1, told window (shell_sizes (rr_prefix rr) cs) s)"
          "rr_pending rr1 = drop n d" "rr_prefix rr1 = rr_prefix rr" "rr_ready rr1" "pieces lib (rr_reader rr1) w1 ds1 e"
        unfolding read_piece_def by blast
      have bytes: "shell_bytes (rr_prefix rr) ds = d @ shell_bytes (rr_prefix rr) ds1"
        "shell_sizes (rr_prefix rr) ds = shell_sizes (rr_prefix rr) cs @ shell_sizes (rr_prefix rr) ds1"
        using * shell_bytes_control [OF *(2), of "d # ds1"] by (simp_all add: shell_bytes_def shell_sizes_def)
      have "length (drop n d) + length (shell_bytes (rr_prefix rr) ds1) < length ns"
        using prems(5) bytes(1) shorter [OF *(4)] unfolding length_append length_Cons bytes(1) by linarith
      then have "shell_input lib window ns rr1 w1 (told window (shell_sizes (rr_prefix rr) cs) s) =
          Some (drop n d @ shell_bytes (rr_prefix rr) ds1, e, told window (shell_sizes (rr_prefix rr) ds) s)"
        using Cons.IH [of rr1 w1 ds1 "told window (shell_sizes (rr_prefix rr) cs) s"] * prems bytes
        by (simp add: told_def)
      from shell_input_part [OF *(5,4) n this] show ?thesis using True bytes by simp
    qed
  qed
qed simp

text \<open>
  C21. The terminal receives its input and its sizes. Once the reader is enabled, and whatever positive
  buffer sizes it is called with (one buffer more than there are bytes is enough), the shell reads exactly
  the pieces of the websocket that are not resize messages, joined in order and with nothing lost, then the
  error of the websocket; and the session is told the size of every resize message, in order.
\<close>

theorem resize_reader_splits:
  assumes "pieces lib (rr_reader rr) w ds e" and "rr_ready rr" and "rr_prefix rr \<noteq> []" and "\<forall>n\<in>set ns. 0 < n"
    and "length (rr_pending rr @ shell_bytes (rr_prefix rr) ds) < length ns"
  shows "shell_input lib window ns rr w s =
    Some (rr_pending rr @ shell_bytes (rr_prefix rr) ds, e, told window (shell_sizes (rr_prefix rr) ds) s)"
  by (rule shell_input_ok [OF assms])

definition demo_reader :: "unit resize_reader" where
  "demo_reader = fst (rr_Enable (\<lambda>_ _ s. s) (newTerminalResizeReader newConn ''R:'') ())"

lemma demo_ws_simps:
  "lib_Read demo_ws u n (cur, q) = ((take n cur, if take n cur = [] then Some EOF else None), drop n cur, q)"
  "lib_NextReader demo_ws (cur, []) = (Inl (Errorf ''closed''), cur, [])"
  "lib_NextReader demo_ws (cur, m # ms) = (Inr (), m, ms)"
  by (simp_all add: demo_ws_def)

lemma demo_Read_none:
  "Conn_Read demo_ws 65536 (c\<lparr>cn_rdBuf := None\<rparr>) ([], []) =
     Some (([], Some (Errorf ''closed'')), c\<lparr>cn_rdBuf := None\<rparr>, [], [])"
  by (subst Conn_Read.simps) (simp add: demo_ws_simps)

lemma demo_Read_message:
  "m \<noteq> [] \<Longrightarrow> length m \<le> 65536 \<Longrightarrow>
     Conn_Read demo_ws 65536 (c\<lparr>cn_rdBuf := Some ()\<rparr>) (m, q) = Some ((m, None), c\<lparr>cn_rdBuf := Some ()\<rparr>, [], q)"
  by (subst Conn_Read.simps) (simp add: demo_ws_simps)

lemma demo_Read_next:
  "m \<noteq> [] \<Longrightarrow> length m \<le> 65536 \<Longrightarrow>
     Conn_Read demo_ws 65536 (c\<lparr>cn_rdBuf := None\<rparr>) ([], m # q) = Some ((m, None), c\<lparr>cn_rdBuf := Some ()\<rparr>, [], q)"
  by (subst Conn_Read.simps) (simp add: demo_ws_simps demo_Read_message)

lemma demo_Read_empty:
  "Conn_Read demo_ws 65536 (c\<lparr>cn_rdBuf := Some ()\<rparr>) ([], q) = Conn_Read demo_ws 65536 (c\<lparr>cn_rdBuf := None\<rparr>) ([], q)"
  by (subst Conn_Read.simps) (simp add: demo_ws_simps)

lemma demo_pieces:
  "pieces demo_ws newConn ([], [''ls'', ''R:80:24'', [nl]]) [''ls'', ''R:80:24'', [nl]] (Some (Errorf ''closed''))"
proof -
  let ?c = "newConn\<lparr>cn_rdBuf := Some ()\<rparr>"
  have start: "newConn = newConn\<lparr>cn_rdBuf := None\<rparr>" by (simp add: newConn_def)
  have "pieces demo_ws ?c ([], []) [] (Some (Errorf ''closed''))"
    by (rule pieces_end) (simp only: demo_Read_empty demo_Read_none)
  then have "pieces demo_ws ?c ([], [[nl]]) [[nl]] (Some (Errorf ''closed''))"
    by (rule pieces_more [rotated -1]) (simp_all add: demo_Read_empty demo_Read_next)
  then have "pieces demo_ws ?c ([], [''R:80:24'', [nl]]) [''R:80:24'', [nl]] (Some (Errorf ''closed''))"
    by (rule pieces_more [rotated -1]) (simp_all add: demo_Read_empty demo_Read_next)
  then have "pieces demo_ws (newConn\<lparr>cn_rdBuf := None\<rparr>) ([], [''ls'', ''R:80:24'', [nl]]) [''ls'', ''R:80:24'', [nl]]
      (Some (Errorf ''closed''))"
    by (rule pieces_more [rotated -1]) (simp_all add: demo_Read_next)
  then show ?thesis by (simp only: start [symmetric])
qed

theorem resize_reader_splits_witness:
  "shell_input demo_ws (\<lambda>rows cols log. log @ [(rows, cols)]) [2, 1, 4, 4] demo_reader ([], [''ls'', ''R:80:24'', [nl]]) []
     = Some (''ls'' @ [nl], Some (Errorf ''closed''), [(24, 80)])"
proof -
  have ready: "rr_ready demo_reader" "rr_prefix demo_reader = ''R:''" "rr_pending demo_reader = []" "rr_reader demo_reader = newConn"
    by (simp_all add: demo_reader_def rr_Enable_def newTerminalResizeReader_def)
  have bytes: "shell_bytes ''R:'' [''ls'', ''R:80:24'', [nl]] = ''ls'' @ [nl]"
    by (simp add: shell_bytes_def)
  have "parseTerminalResize ''R:80:24'' ''R:'' = (80, 24, True)" by code_simp
  then have sizes: "shell_sizes ''R:'' [''ls'', ''R:80:24'', [nl]] = [(24, 80)]"
    by (simp add: shell_sizes_def)
  show ?thesis
    using resize_reader_splits [of demo_ws demo_reader "([], [''ls'', ''R:80:24'', [nl]])" "[''ls'', ''R:80:24'', [nl]]"
        "Some (Errorf ''closed'')" "[2, 1, 4, 4]" "\<lambda>rows cols log. log @ [(rows, cols)]" "[]"] demo_pieces
    by (simp add: ready bytes sizes told_def)
qed

subsection \<open>Lemmas: a session is torn down\<close>

text \<open>An environment that also records the calls.\<close>

definition recording :: "'w session_env \<Rightarrow> ('w \<times> ssh_call list) session_env" where
  "recording env =
     \<lparr>se_call = (\<lambda>call (w, log). case se_call env call w of (r, w1) \<Rightarrow> (r, w1, log @ [call])),
      se_term = se_term env, se_text = se_text env\<rparr>"

lemma recording_simps [simp]:
  "se_term (recording env) = se_term env" "se_text (recording env) = se_text env"
  by (simp_all add: recording_def)

lemma se_call_recording:
  "se_call (recording env) call (w, log) = (case se_call env call w of (r, w1) \<Rightarrow> (r, w1, log @ [call]))"
  by (simp add: recording_def)

lemma do_call_recording: "snd (do_call (recording env) call wl) = snd wl @ [call]"
  by (cases wl) (simp add: do_call_def se_call_recording split: prod.split)

definition connect_calls :: "(int \<times> int) \<Rightarrow> SSHClientOption \<Rightarrow> ConnectOptions \<Rightarrow> ssh_call list" where
  "connect_calls tty opt opts =
     [CallNewSSHClient opt, CallNewSession, CallRequestPty ''xterm'' (snd (pty_size tty opts)) (fst (pty_size tty opts))]
     @ (if co_ResizeControlPrefix opts \<noteq> [] then [CallEnable] else []) @ [CallShell, CallWait]"

definition torn_down :: "'w session_env \<Rightarrow> ssh_call list \<Rightarrow> ssh_call list \<Rightarrow> go_error option \<Rightarrow> bool" where
  "torn_down env calls log r \<longleftrightarrow>
     (\<exists>done report. prefix done calls \<and> done \<noteq> [] \<and> (r = None \<longrightarrow> done = calls)
        \<and> report = (case r of None \<Rightarrow> []
                    | Some err \<Rightarrow> [CallWrite ((if length done = 1 then ''> '' else []) @ se_text env err @ crlf)])
        \<and> log = done @ report @ (if 2 < length done then [CloseSession] else [])
                  @ (if 1 < length done then [CloseClient] else []) @ [CloseWS])"

text \<open>Once the terminal is requested, what is left are the two last calls, and then everything is closed.\<close>

lemma Connect_opened:
  assumes "se_call env (CallNewSSHClient opt) w = (None, v1)" "se_call env CallNewSession v1 = (None, v2)"
    "se_call env (CallRequestPty ''xterm'' ht wd) v2 = (None, v3)" "pty_size (se_term env) opts = (wd, ht)"
    "opened = [CallNewSSHClient opt, CallNewSession, CallRequestPty ''xterm'' ht wd]
       @ (if co_ResizeControlPrefix opts \<noteq> [] then [CallEnable] else [])"
  shows "\<exists>v4. ConnectWithOptions (recording env) opt opts (w, []) =
    (case session_stages (recording env) [CallShell, CallWait] (v4, opened) of
       (r, wl) \<Rightarrow> (r, do_call (recording env) CloseWS (do_call (recording env) CloseClient (do_call (recording env) CloseSession wl))))"
  using assms
  by (intro exI [of _ "if co_ResizeControlPrefix opts \<noteq> [] then do_call env CallEnable v3 else v3"])
     (auto simp: ConnectWithOptions_def se_call_recording do_call_def split: prod.splits)

lemma torn_downI:
  assumes "prefix d calls" "d \<noteq> []" "r = None \<longrightarrow> d = calls"
    "log = d @ (case r of None \<Rightarrow> []
                  | Some err \<Rightarrow> [CallWrite ((if length d = 1 then ''> '' else []) @ se_text env err @ crlf)])
             @ (if 2 < length d then [CloseSession] else []) @ (if 1 < length d then [CloseClient] else []) @ [CloseWS]"
  shows "torn_down env calls log r"
  using assms unfolding torn_down_def by blast

lemma Connect_torn_down:
  assumes "ConnectWithOptions (recording env) opt opts (w, []) = (r, w1, log)"
  shows "torn_down env (connect_calls (se_term env) opt opts) log r"
proof -
  obtain wd ht where size: "pty_size (se_term env) opts = (wd, ht)" by fastforce
  let ?first = "[CallNewSSHClient opt, CallNewSession, CallRequestPty ''xterm'' ht wd]"
  let ?open = "?first @ (if co_ResizeControlPrefix opts \<noteq> [] then [CallEnable] else [])"
  note run = ConnectWithOptions_def se_call_recording connect_calls_def do_call_def
  obtain r1 v1 where c1: "se_call env (CallNewSSHClient opt) w = (r1, v1)" by fastforce
  obtain r2 v2 where c2: "se_call env CallNewSession v1 = (r2, v2)" by fastforce
  obtain r3 v3 where c3: "se_call env (CallRequestPty ''xterm'' ht wd) v2 = (r3, v3)" by fastforce
  consider (client) err where "r1 = Some err" | (session) err where "r1 = None" "r2 = Some err"
    | (pty) err where "r1 = None" "r2 = None" "r3 = Some err" | (opened) "r1 = None" "r2 = None" "r3 = None"
    by (cases r1; cases r2; cases r3) auto
  then show ?thesis
  proof cases
    case client
    then show ?thesis using assms c1 by (intro torn_downI [of "take 1 ?first"]) (auto simp: run split: prod.splits)
  next
    case session
    then show ?thesis using assms c1 c2 by (intro torn_downI [of "take 2 ?first"]) (auto simp: run split: prod.splits)
  next
    case pty
    then show ?thesis using assms c1 c2 c3 size by (intro torn_downI [of ?first]) (auto simp: run split: prod.splits)
  next
    case opened
    then obtain v4 where run4: "ConnectWithOptions (recording env) opt opts (w, []) =
        (case session_stages (recording env) [CallShell, CallWait] (v4, ?open) of
           (r, wl) \<Rightarrow> (r, do_call (recording env) CloseWS (do_call (recording env) CloseClient (do_call (recording env) CloseSession wl))))"
      using Connect_opened [OF _ _ _ size refl, of opt w v1 v2 v3] c1 c2 c3 by auto
    note last = se_call_recording connect_calls_def do_call_def
    obtain r5 v5 where c5: "se_call env CallShell v4 = (r5, v5)" by fastforce
    show ?thesis
    proof (cases r5)
      case (Some err)
      then show ?thesis using assms run4 c5 size
        by (intro torn_downI [of "?open @ [CallShell]"]) (auto simp: last split: prod.splits)
    next
      case None
      obtain r6 v6 where c6: "se_call env CallWait v5 = (r6, v6)" by fastforce
      then show ?thesis using assms run4 c5 None size
        by (intro torn_downI [of "?open @ [CallShell, CallWait]"]) (auto simp: last split: prod.splits option.splits)
    qed
  qed
qed

text \<open>
  C23. A session is always torn down. Whatever fails, the calls made are a first part of: connect, open a
  session, request the terminal, enable the reader, start the shell, wait; then, when something failed, its
  error is written to the websocket and is the result; then exactly what had been opened is closed, the
  session before the client, and the websocket last. With no error all the calls were made. With a resize
  prefix the terminal's width and height are positive.
\<close>

theorem Connect_always_torn_down:
  assumes "ConnectWithOptions (recording env) opt opts (w, []) = (r, w1, log)"
  shows "torn_down env (connect_calls (se_term env) opt opts) log r
    \<and> (co_ResizeControlPrefix opts \<noteq> [] \<longrightarrow> 0 < fst (pty_size (se_term env) opts) \<and> 0 < snd (pty_size (se_term env) opts))"
  using Connect_torn_down [OF assms] by (auto simp: pty_size_def Let_def split: prod.split)

definition demo_session_env :: "unit session_env" where
  "demo_session_env = \<lparr>se_call = (\<lambda>call w. (if call = CallNewSession then Some EOF else None, w)), se_term = (0, 0),
     se_text = (\<lambda>_. ''EOF'')\<rparr>"

definition demo_option :: SSHClientOption where
  "demo_option = \<lparr>opt_Addr = ''h'', opt_User = ''u'', opt_Password = ''p'', opt_PrivateKey = []\<rparr>"

theorem Connect_always_torn_down_witness:
  "\<exists>log. torn_down demo_session_env
     (connect_calls (0, 0) demo_option \<lparr>co_ResizeControlPrefix = ''R'', co_InitialWidth = 0, co_InitialHeight = 0\<rparr>) log (Some EOF)
     \<and> log = [CallNewSSHClient demo_option, CallNewSession, CallWrite (''EOF'' @ crlf), CloseClient, CloseWS]"
proof -
  let ?opts = "\<lparr>co_ResizeControlPrefix = ''R'', co_InitialWidth = 0, co_InitialHeight = 0\<rparr>"
  have "ConnectWithOptions (recording demo_session_env) demo_option ?opts ((), []) =
      (Some EOF, (), [CallNewSSHClient demo_option, CallNewSession, CallWrite (''EOF'' @ crlf), CloseClient, CloseWS])"
    by (simp add: ConnectWithOptions_def se_call_recording do_call_def demo_session_env_def)
  from Connect_always_torn_down [OF this] show ?thesis by (simp add: demo_session_env_def)
qed

text \<open>
  A malformed resize message resizes the terminal to nothing: a message with the prefix whose rest is
  not two numbers in range parses as a resize to 0 by 0, and an enabled reader tells the session exactly
  that, instead of leaving its size alone.
\<close>

theorem malformed_resize_tells_zero:
  assumes "parseTerminalResize data pre = (0, 0, True)" and "rr_ready rr"
  shows "snd (rr_Resize window (fst (parseTerminalResize data pre)) (fst (snd (parseTerminalResize data pre))) rr s) = window 0 0 s
    \<and> parseTerminalResize (pre @ ''80'') pre = (0, 0, True)"
proof -
  have "pre \<noteq> []" using assms(1) by (auto simp: parseTerminalResize_def split: if_splits)
  then show ?thesis using assms by (simp add: rr_Resize_def parseTerminalResize_def strings_TrimPrefix_def)
qed

theorem malformed_resize_tells_zero_witness:
  "snd (rr_Resize (\<lambda>rows cols log. log @ [(rows, cols)]) 0 0 demo_reader []) = [(0, 0)]"
proof -
  have "parseTerminalResize ''R:80'' ''R:'' = (0, 0, True)"
    by (simp add: parseTerminalResize_def strings_TrimPrefix_def)
  moreover have "rr_ready demo_reader" by (simp add: demo_reader_def rr_Enable_def)
  ultimately show ?thesis
    using malformed_resize_tells_zero [of "''R:80''" "''R:''" demo_reader "\<lambda>rows cols log. log @ [(rows, cols)]" "[]"] by simp
qed

end
