(* ===== verification/Webssh_Terminal.thy ===== *)
theory Webssh_Terminal
  imports Webssh_Session
begin

text \<open>
  The terminal session of src/webssh/session.go over the connection of src/websocket/conn.go: what the shell
  reads in terms of the messages that the other side sent. The reader takes one read of the connection for one
  message. The library promises only a stream, so how messages are cut into reads is left open: input without the
  first byte of the resize prefix reaches the shell whatever the cuts, a resize message that is cut does not work.
\<close>

subsection \<open>Input without resize messages\<close>

text \<open>The reads of a connection are pieces of the stream of its messages, up to the error at its end.\<close>

lemma delivered_pieces:
  assumes lib: "ws_delivers lib rest queue"
  shows "\<exists>ds e. pieces lib c w ds (Some e) \<and> concat ds = unread rest queue c w"
proof (induction "length (unread rest queue c w)" arbitrary: c w rule: less_induct)
  case less
  obtain bs e c1 w1 where rd: "Conn_Read lib 65536 c w = Some ((bs, e), c1, w1)" "reads_ok 65536 rest queue c w ((bs, e), c1, w1)"
    using Conn_Read_ok [OF lib, of 65536 c w] by auto
  note ok = reads_okD [OF rd(2)]
  show ?case
  proof (cases "bs = []")
    case True
    with ok(4) obtain x where "e = Some x" by (cases e) simp_all
    with rd(1) True have "pieces lib c w [] (Some x)" by (intro pieces_end) simp
    moreover have "unread rest queue c w = []" using ok(3) True by blast
    ultimately show ?thesis by (intro exI [of _ "[]"]) auto
  next
    case False
    then have "e = None" using ok(4) by blast
    have "length (unread rest queue c1 w1) < length (unread rest queue c w)" using ok(1) False by simp
    from less [OF this] obtain ds x where "pieces lib c1 w1 ds (Some x)" "concat ds = unread rest queue c1 w1" by blast
    then show ?thesis using rd(1) ok(1) False \<open>e = None\<close> by (intro exI [of _ "bs # ds"]) (auto intro: pieces_more)
  qed
qed

lemma no_control_bytes:
  assumes "pre \<noteq> []" "\<forall>d\<in>set ds. hd pre \<notin> set d"
  shows "shell_bytes pre ds = concat ds" "shell_sizes pre ds = []"
proof -
  have "\<not> prefix pre d" if "d \<in> set ds" for d using that assms by (cases pre) (auto simp: prefix_def)
  then show "shell_bytes pre ds = concat ds" "shell_sizes pre ds = []"
    by (simp_all add: shell_bytes_def shell_sizes_def filter_id_conv filter_empty_conv)
qed

text \<open>
  C22. What is typed reaches the shell. Over a connection that delivers its messages as documented, when no message
  has the first byte of the resize prefix in it, the shell reads exactly the messages, joined in order, and then the
  error of the connection, however the library cuts messages into reads and whatever the sizes of the shell's
  buffers (one buffer more than there are bytes is enough); and its window is left as it is.
\<close>

theorem terminal_input_unchanged:
  assumes "ws_delivers lib rest queue" and "pre \<noteq> []" and "\<forall>m\<in>set (queue w). hd pre \<notin> set m"
    and "\<forall>n\<in>set ns. 0 < n" and "length (concat (queue w)) < length ns"
  shows "\<exists>e. shell_input lib window ns (fst (rr_Enable window (newTerminalResizeReader newConn pre) s)) w s =
    Some (concat (queue w), Some e, s)"
proof -
  let ?rr = "fst (rr_Enable window (newTerminalResizeReader newConn pre) s)"
  have rr: "rr_ready ?rr" "rr_prefix ?rr = pre" "rr_pending ?rr = []" "rr_reader ?rr = newConn"
    by (simp_all add: rr_Enable_def newTerminalResizeReader_def)
  obtain ds e where ds: "pieces lib newConn w ds (Some e)" "concat ds = concat (queue w)"
    using delivered_pieces [OF assms(1), of newConn w] by (auto simp: unread_def newConn_def)
  have "hd pre \<notin> set d" if "d \<in> set ds" for d
  proof -
    have "set d \<subseteq> set (concat ds)" using that by auto
    also have "\<dots> = set (concat (queue w))" by (simp only: ds(2))
    finally show ?thesis using assms(3) by auto
  qed
  then show ?thesis
    using shell_input_ok [of lib ?rr w ds "Some e" ns window s] ds assms(2,4,5) no_control_bytes [OF assms(2), of ds]
    by (simp add: rr told_def del: shell_input.simps)
qed

text \<open>A connection whose reads return at most four bytes: the eight bytes of a message come in two reads.\<close>

definition demo_parts_ws :: "(unit, bytes \<times> bytes list) ws_lib" where
  "demo_parts_ws = demo_ws\<lparr>lib_Read := (\<lambda>_ n (cur, q).
     ((take (min 4 n) cur, if take (min 4 n) cur = [] then Some EOF else None), drop (min 4 n) cur, q))\<rparr>"

lemma demo_parts_delivers: "ws_delivers demo_parts_ws (\<lambda>_ w. fst w) snd"
  by (auto simp: ws_delivers_def demo_parts_ws_def demo_ws_def split: list.splits if_splits)

theorem terminal_input_unchanged_witness:
  "\<exists>e. shell_input demo_parts_ws (\<lambda>rows cols log. log @ [(rows, cols)]) (replicate 10 3)
      (fst (rr_Enable (\<lambda>rows cols log. log @ [(rows, cols)]) (newTerminalResizeReader newConn ''R:'') []))
      ([], [''cd /home'', [], [nl]]) [] = Some (''cd /home'' @ [nl], Some e, [])"
proof -
  let ?w = "([] :: bytes, [''cd /home'', [], [nl]])"
  have "\<exists>e. shell_input demo_parts_ws (\<lambda>rows cols log. log @ [(rows, cols)]) (replicate 10 3)
      (fst (rr_Enable (\<lambda>rows cols log. log @ [(rows, cols)]) (newTerminalResizeReader newConn ''R:'') [])) ?w [] =
      Some (concat (snd ?w), Some e, [])"
    by (rule terminal_input_unchanged [OF demo_parts_delivers]) simp_all
  moreover have "concat (snd ?w) = ''cd /home'' @ [nl]" by simp
  ultimately show ?thesis by (simp only:)
qed

subsection \<open>Messages that are read in parts\<close>

text \<open>
  The documentation of the library promises no more than a stream: a read may return a part of a message. The
  reader then takes the part for a message. Here a read returns at most four bytes, and the message that would
  make the terminal 80 by 24 tells it to have no size, and puts its rest into the shell's input.
\<close>

lemma demo_parts_simps:
  "lib_Read demo_parts_ws u n (cur, q) = ((take (min 4 n) cur, if take (min 4 n) cur = [] then Some EOF else None), drop (min 4 n) cur, q)"
  "lib_NextReader demo_parts_ws (cur, []) = (Inl (Errorf ''closed''), cur, [])"
  "lib_NextReader demo_parts_ws (cur, m # ms) = (Inr (), m, ms)"
  by (simp_all add: demo_parts_ws_def demo_ws_def)

lemma resize_message_in_parts:
  "shell_input demo_parts_ws (\<lambda>rows cols log. log @ [(rows, cols)]) [8, 8, 8, 8]
     (fst (rr_Enable (\<lambda>rows cols log. log @ [(rows, cols)]) (newTerminalResizeReader newConn ''R:'') [])) ([], [''R:80:24'']) []
   = Some ('':24'', Some (Errorf ''closed''), [(0, 0)])"
proof -
  let ?rr = "fst (rr_Enable (\<lambda>rows cols log. log @ [(rows, cols)]) (newTerminalResizeReader newConn ''R:'') [])"
  let ?win = "\<lambda>rows cols log. log @ [(rows, cols)]"
  have rr: "rr_ready ?rr" "rr_prefix ?rr = ''R:''" "rr_pending ?rr = []" "rr_reader ?rr = newConn"
    by (simp_all add: rr_Enable_def newTerminalResizeReader_def)
  let ?c = "newConn\<lparr>cn_rdBuf := Some ()\<rparr>"
  have first: "Conn_Read demo_parts_ws 65536 newConn ([], [''R:80:24'']) = Some ((''R:80'', None), ?c, '':24'', [])"
    by (subst Conn_Read.simps, simp add: demo_parts_simps newConn_def, subst Conn_Read.simps, simp add: demo_parts_simps)
  have second: "Conn_Read demo_parts_ws 65536 ?c ('':24'', []) = Some (('':24'', None), ?c, [], [])"
    by (subst Conn_Read.simps) (simp add: demo_parts_simps)
  have third: "\<exists>c1 w1. Conn_Read demo_parts_ws 65536 ?c ([], []) = Some (([], Some (Errorf ''closed'')), c1, w1)"
    by (subst Conn_Read.simps, simp add: demo_parts_simps, subst Conn_Read.simps, simp add: demo_parts_simps)
  then obtain c1 w1 where "Conn_Read demo_parts_ws 65536 ?c ([], []) = Some (([], Some (Errorf ''closed'')), c1, w1)" by blast
  then have "pieces demo_parts_ws ?c ([], []) [] (Some (Errorf ''closed''))" by (rule pieces_end)
  with second have "pieces demo_parts_ws ?c ('':24'', []) ['':24''] (Some (Errorf ''closed''))"
    by (intro pieces_more [OF second]) simp_all
  then have "pieces demo_parts_ws newConn ([], [''R:80:24'']) [''R:80'', '':24''] (Some (Errorf ''closed''))"
    by (intro pieces_more [OF first]) simp_all
  moreover have "parseTerminalResize ''R:80'' ''R:'' = (0, 0, True)" by code_simp
  then have "shell_bytes ''R:'' [''R:80'', '':24''] = '':24''" "shell_sizes ''R:'' [''R:80'', '':24''] = [(0, 0)]"
    by (simp_all add: shell_bytes_def shell_sizes_def)
  ultimately show ?thesis
    using shell_input_ok [of demo_parts_ws ?rr "([], [''R:80:24''])" "[''R:80'', '':24'']" "Some (Errorf ''closed'')" "[8, 8, 8, 8]" ?win "[]"]
    by (simp add: rr told_def del: shell_input.simps)
qed

end
