(* ===== verification/Webssh_Sftp.thy ===== *)
theory Webssh_Sftp
  imports Webssh_Client Go_Path "HOL-Library.Word" "HOL-Library.Multiset"
begin

text \<open>
  The SFTP client with its pool of connections (src/webssh/sftp_client.go). A connection, an SSH client and
  an open file are handles of github.com/pkg/sftp, numbered here; the protocol's requests are operations on
  the world \<open>'w\<close>. The pool's critical sections are functions on its state, used by the sequential
  operations and by the steps of the concurrent machine. The pool is a list in the order in which a loop
  over the Go map visits it; no result depends on that order.
\<close>

unbundle bit_operations_syntax

subsection \<open>File information\<close>

record sftp_stat =
  st_Name :: string
  st_Size :: int
  st_Mode :: "32 word"
  st_ModTime :: int

definition mode_bit :: "nat \<Rightarrow> 32 word \<Rightarrow> bool" where
  "mode_bit n m \<longleftrightarrow> m AND push_bit n 1 \<noteq> 0"

abbreviation ModeDir :: nat where "ModeDir \<equiv> 31"
abbreviation ModeSymlink :: nat where "ModeSymlink \<equiv> 27"

definition st_IsDir :: "sftp_stat \<Rightarrow> bool" where
  "st_IsDir st \<longleftrightarrow> mode_bit ModeDir (st_Mode st)"

text \<open>\<open>FileMode.String\<close>: a letter for each type bit, or a dash, then the nine permissions.\<close>

definition mode_string :: "32 word \<Rightarrow> string" where
  "mode_string m =
     (let kinds = map snd (filter (\<lambda>(i, c). mode_bit (31 - i) m) (enumerate 0 ''dalTLDpSugct?''))
      in (if kinds = [] then ''-'' else kinds) @
         map (\<lambda>(i, c). if mode_bit (8 - i) m then c else CHR ''-'') (enumerate 0 ''rwxrwxrwx''))"

record sftp_FileInfo =
  fi_Name :: string
  fi_Size :: int
  fi_Mode :: string
  fi_ModTime :: int
  fi_IsDir :: bool
  fi_IsLink :: bool
  fi_LinkTarget :: string

record ListResult =
  lr_Path :: string
  lr_Files :: "sftp_FileInfo list"

subsection \<open>The protocol library\<close>

type_synonym 'w request = "'w \<Rightarrow> go_error option \<times> 'w"

record ('v, 'w) sftp_env =
  sf_ssh :: "(nat, nat, 'w) ssh_lib"
  sf_CloseSSH :: "nat \<Rightarrow> 'w \<Rightarrow> 'w"
  sf_NewClient :: "nat \<Rightarrow> 'w \<Rightarrow> nat go_result \<times> 'w"
  sf_Close :: "nat \<Rightarrow> 'w \<Rightarrow> 'w"
  sf_Getwd :: "nat \<Rightarrow> 'w \<Rightarrow> string go_result \<times> 'w"
  sf_ReadDir :: "nat \<Rightarrow> string \<Rightarrow> 'w \<Rightarrow> sftp_stat list go_result \<times> 'w"
  sf_Stat :: "nat \<Rightarrow> string \<Rightarrow> 'w \<Rightarrow> sftp_stat go_result \<times> 'w"
  sf_Lstat :: "nat \<Rightarrow> string \<Rightarrow> 'w \<Rightarrow> sftp_stat go_result \<times> 'w"
  sf_ReadLink :: "nat \<Rightarrow> string \<Rightarrow> 'w \<Rightarrow> string go_result \<times> 'w"
  sf_RealPath :: "nat \<Rightarrow> string \<Rightarrow> 'w \<Rightarrow> string go_result \<times> 'w"
  sf_Glob :: "nat \<Rightarrow> string \<Rightarrow> 'w \<Rightarrow> string list go_result \<times> 'w"
  sf_StatVFS :: "nat \<Rightarrow> string \<Rightarrow> 'w \<Rightarrow> 'v go_result \<times> 'w"
  sf_Walk :: "nat \<Rightarrow> string \<Rightarrow> 'w \<Rightarrow> (go_error option \<times> sftp_stat option) list \<times> 'w"
  sf_Remove :: "nat \<Rightarrow> string \<Rightarrow> 'w request"
  sf_RemoveAll :: "nat \<Rightarrow> string \<Rightarrow> 'w request"
  sf_MkdirAll :: "nat \<Rightarrow> string \<Rightarrow> 'w request"
  sf_Rename :: "nat \<Rightarrow> string \<Rightarrow> string \<Rightarrow> 'w request"
  sf_PosixRename :: "nat \<Rightarrow> string \<Rightarrow> string \<Rightarrow> 'w request"
  sf_Symlink :: "nat \<Rightarrow> string \<Rightarrow> string \<Rightarrow> 'w request"
  sf_Link :: "nat \<Rightarrow> string \<Rightarrow> string \<Rightarrow> 'w request"
  sf_Chmod :: "nat \<Rightarrow> string \<Rightarrow> 32 word \<Rightarrow> 'w request"
  sf_Chown :: "nat \<Rightarrow> string \<Rightarrow> int \<Rightarrow> int \<Rightarrow> 'w request"
  sf_Chtimes :: "nat \<Rightarrow> string \<Rightarrow> int \<Rightarrow> int \<Rightarrow> 'w request"
  sf_Truncate :: "nat \<Rightarrow> string \<Rightarrow> int \<Rightarrow> 'w request"
  sf_Open :: "nat \<Rightarrow> string \<Rightarrow> 'w \<Rightarrow> nat go_result \<times> 'w"
  sf_Create :: "nat \<Rightarrow> string \<Rightarrow> 'w \<Rightarrow> nat go_result \<times> 'w"
  sf_FileClose :: "nat \<Rightarrow> 'w \<Rightarrow> 'w"
  sf_WriteTo :: "nat \<Rightarrow> 'w request"
  sf_ReadFrom :: "nat \<Rightarrow> 'w request"
  sf_FileRead :: "nat \<Rightarrow> nat \<Rightarrow> 'w \<Rightarrow> (bytes \<times> go_error option) \<times> 'w"
  sf_Now :: "'w \<Rightarrow> int"

subsection \<open>The pool and its critical sections\<close>

text \<open>\<open>en_id\<close> is the identity of the entry: the code compares pointers.\<close>

record sftpEntry =
  en_id :: nat
  en_conn :: nat
  en_lastUsed :: int

record SFTPClient =
  sp_entries :: "(string \<times> sftpEntry) list"
  sp_idleTimeout :: int
  sp_stopped :: bool
  sp_next :: nat

definition NewSFTPClient :: "int \<Rightarrow> SFTPClient" where
  "NewSFTPClient idleTimeout =
     \<lparr>sp_entries = [], sp_idleTimeout = (if idleTimeout \<le> 0 then 30 * 1000000000 else idleTimeout),
      sp_stopped = False, sp_next = 0\<rparr>"

definition connKey :: "SSHClientOption \<Rightarrow> string" where
  "connKey opt = opt_User opt @ ''@'' @ opt_Addr opt"

definition pool_lookup :: "string \<Rightarrow> SFTPClient \<Rightarrow> sftpEntry option" where
  "pool_lookup key p = map_of (sp_entries p) key"

definition pool_delete :: "string \<Rightarrow> SFTPClient \<Rightarrow> SFTPClient" where
  "pool_delete key p = p\<lparr>sp_entries := filter (\<lambda>(k, _). k \<noteq> key) (sp_entries p)\<rparr>"

text \<open>After a successful probe: note the use, if the entry is still the one in the pool.\<close>

definition pool_touch :: "string \<Rightarrow> sftpEntry \<Rightarrow> int \<Rightarrow> SFTPClient \<Rightarrow> SFTPClient" where
  "pool_touch key e now p =
     (case pool_lookup key p of
        Some cur \<Rightarrow>
          if en_id cur = en_id e
          then p\<lparr>sp_entries := map (\<lambda>(k, x). (k, if k = key then x\<lparr>en_lastUsed := now\<rparr> else x)) (sp_entries p)\<rparr>
          else p
      | None \<Rightarrow> p)"

text \<open>After a failed probe: drop the entry if it is still there; only then is its connection closed.\<close>

definition pool_drop :: "string \<Rightarrow> sftpEntry \<Rightarrow> SFTPClient \<Rightarrow> bool \<times> SFTPClient" where
  "pool_drop key e p =
     (case pool_lookup key p of
        Some cur \<Rightarrow> if en_id cur = en_id e then (True, pool_delete key p) else (False, p)
      | None \<Rightarrow> (False, p))"

text \<open>Put a new connection in, unless another caller has been faster: then its connection is the result.\<close>

definition pool_insert :: "string \<Rightarrow> nat \<Rightarrow> int \<Rightarrow> SFTPClient \<Rightarrow> nat option \<times> SFTPClient" where
  "pool_insert key conn now p =
     (case pool_lookup key p of
        Some existing \<Rightarrow> (Some (en_conn existing), p)
      | None \<Rightarrow>
          (None, p\<lparr>sp_entries := (key, \<lparr>en_id = sp_next p, en_conn = conn, en_lastUsed = now\<rparr>) # sp_entries p,
                   sp_next := Suc (sp_next p)\<rparr>))"

text \<open>\<open>invalidate\<close> closes inside its critical section; eviction and \<open>Close\<close> close the connections afterwards.\<close>

definition pool_invalidate :: "string \<Rightarrow> SFTPClient \<Rightarrow> nat option \<times> SFTPClient" where
  "pool_invalidate key p =
     (case pool_lookup key p of
        Some e \<Rightarrow> (Some (en_conn e), pool_delete key p)
      | None \<Rightarrow> (None, p))"

definition pool_evict :: "int \<Rightarrow> SFTPClient \<Rightarrow> nat list \<times> SFTPClient" where
  "pool_evict now p =
     (let idle = (\<lambda>(k, e). now - en_lastUsed e > sp_idleTimeout p)
      in (map (\<lambda>(k, e). en_conn e) (filter idle (sp_entries p)),
          p\<lparr>sp_entries := filter (\<lambda>x. \<not> idle x) (sp_entries p)\<rparr>))"

definition pool_take :: "SFTPClient \<Rightarrow> nat list \<times> SFTPClient" where
  "pool_take p = (map (\<lambda>(k, e). en_conn e) (sp_entries p), p\<lparr>sp_entries := []\<rparr>)"

subsection \<open>Connections, as one goroutine runs\<close>

definition sftp_dial ::
  "('v, 'w) sftp_env \<Rightarrow> SSHClientOption \<Rightarrow> 'w \<Rightarrow> nat go_result \<times> SSHClientOption \<times> 'w" where
  "sftp_dial env opt w =
     (case NewSSHClient (sf_ssh env) opt w of
        (Inl err, opt1, w1) \<Rightarrow> (Inl (Wrapf ''SSH connection failed'' err), opt1, w1)
      | (Inr sshClient, opt1, w1) \<Rightarrow>
          (case sf_NewClient env sshClient w1 of
             (Inl err, w2) \<Rightarrow> (Inl (Wrapf ''SFTP setup failed'' err), opt1, sf_CloseSSH env sshClient w2)
           | (Inr conn, w2) \<Rightarrow> (Inr conn, opt1, w2)))"

definition getConn_dial ::
  "('v, 'w) sftp_env \<Rightarrow> string \<Rightarrow> SSHClientOption \<Rightarrow> SFTPClient \<Rightarrow> 'w
   \<Rightarrow> nat go_result \<times> SSHClientOption \<times> SFTPClient \<times> 'w" where
  "getConn_dial env key opt p w =
     (case sftp_dial env opt w of
        (Inl err, opt1, w1) \<Rightarrow> (Inl err, opt1, p, w1)
      | (Inr conn, opt1, w1) \<Rightarrow>
          (case pool_insert key conn (sf_Now env w1) p of
             (Some existing, p1) \<Rightarrow> (Inr existing, opt1, p1, sf_Close env conn w1)
           | (None, p1) \<Rightarrow> (Inr conn, opt1, p1, w1)))"

definition getConn ::
  "('v, 'w) sftp_env \<Rightarrow> SSHClientOption \<Rightarrow> SFTPClient \<Rightarrow> 'w
   \<Rightarrow> nat go_result \<times> SSHClientOption \<times> SFTPClient \<times> 'w" where
  "getConn env opt p w =
     (let key = connKey opt
      in case pool_lookup key p of
           Some e \<Rightarrow>
             (case sf_Getwd env (en_conn e) w of
                (Inr _, w1) \<Rightarrow> (Inr (en_conn e), opt, pool_touch key e (sf_Now env w1) p, w1)
              | (Inl _, w1) \<Rightarrow>
                  (case pool_drop key e p of
                     (dropped, p1) \<Rightarrow>
                       getConn_dial env key opt p1 (if dropped then sf_Close env (en_conn e) w1 else w1)))
         | None \<Rightarrow> getConn_dial env key opt p w)"

definition invalidate :: "('v, 'w) sftp_env \<Rightarrow> SSHClientOption \<Rightarrow> SFTPClient \<Rightarrow> 'w \<Rightarrow> SFTPClient \<times> 'w" where
  "invalidate env opt p w =
     (case pool_invalidate (connKey opt) p of
        (Some conn, p1) \<Rightarrow> (p1, sf_Close env conn w)
      | (None, p1) \<Rightarrow> (p1, w))"

definition close_all :: "('v, 'w) sftp_env \<Rightarrow> nat list \<Rightarrow> 'w \<Rightarrow> 'w" where
  "close_all env conns w = fold (sf_Close env) conns w"

text \<open>One tick of \<open>evictLoop\<close>, and \<open>Close\<close>, whose second call panics.\<close>

definition evict_tick :: "('v, 'w) sftp_env \<Rightarrow> SFTPClient \<Rightarrow> 'w \<Rightarrow> SFTPClient \<times> 'w" where
  "evict_tick env p w =
     (if sp_stopped p then (p, w)
      else case pool_evict (sf_Now env w) p of (expired, p1) \<Rightarrow> (p1, close_all env expired w))"

definition SFTPClient_Close :: "('v, 'w) sftp_env \<Rightarrow> SFTPClient \<Rightarrow> 'w \<Rightarrow> (SFTPClient \<times> 'w) go_result" where
  "SFTPClient_Close env p w =
     (if sp_stopped p then Inl (Panic ''close of closed channel'')
      else case pool_take (p\<lparr>sp_stopped := True\<rparr>) of (conns, p1) \<Rightarrow> Inr (p1, close_all env conns w))"

end
