(* ===== verification/Webssh_Pool.thy ===== *)
theory Webssh_Pool
  imports Webssh_Sftp Go_Steps
begin

text \<open>
  The pool of SFTP connections under many goroutines (\<open>getConn\<close>, \<open>invalidate\<close>, \<open>evictLoop\<close> and \<open>Close\<close> in
  src/webssh/sftp_client.go). Each critical section of the code is one step; the pings, dials and closes
  between them happen at any later time. The books balance: every connection ever dialled is in the pool, in
  the hands of one goroutine, or closed - in exactly one of these places, once.
\<close>

subsection \<open>The machine\<close>

text \<open>What a goroutine holds between two critical sections.\<close>

datatype phase =
    Resting
  | Probing string sftpEntry
  | Closing nat string
  | Dialling string
  | Dialled string nat
  | Discarding nat
  | ClosingAll "nat list"

record machine =
  mc_pool :: SFTPClient
  mc_threads :: "phase list"
  mc_closed :: "nat list"
  mc_dialled :: nat

definition at :: "nat \<Rightarrow> phase \<Rightarrow> machine \<Rightarrow> bool" where
  "at i ph m \<longleftrightarrow> i < length (mc_threads m) \<and> mc_threads m ! i = ph"

definition goto :: "nat \<Rightarrow> phase \<Rightarrow> machine \<Rightarrow> machine" where
  "goto i ph m = m\<lparr>mc_threads := (mc_threads m)[i := ph]\<rparr>"

inductive pool_step :: "machine \<Rightarrow> machine \<Rightarrow> bool" where
  look_hit: "at i Resting m \<Longrightarrow> pool_lookup key (mc_pool m) = Some e \<Longrightarrow> pool_step m (goto i (Probing key e) m)"
| look_miss: "at i Resting m \<Longrightarrow> pool_lookup key (mc_pool m) = None \<Longrightarrow> pool_step m (goto i (Dialling key) m)"
| probe_ok: "at i (Probing key e) m \<Longrightarrow>
    pool_step m (goto i Resting (m\<lparr>mc_pool := pool_touch key e now (mc_pool m)\<rparr>))"
| probe_bad: "at i (Probing key e) m \<Longrightarrow> pool_drop key e (mc_pool m) = (True, p) \<Longrightarrow>
    pool_step m (goto i (Closing (en_conn e) key) (m\<lparr>mc_pool := p\<rparr>))"
| probe_stale: "at i (Probing key e) m \<Longrightarrow> pool_drop key e (mc_pool m) = (False, p) \<Longrightarrow>
    pool_step m (goto i (Dialling key) (m\<lparr>mc_pool := p\<rparr>))"
| close_bad: "at i (Closing c key) m \<Longrightarrow>
    pool_step m (goto i (Dialling key) (m\<lparr>mc_closed := c # mc_closed m\<rparr>))"
| dial_fails: "at i (Dialling key) m \<Longrightarrow> pool_step m (goto i Resting m)"
| dial_ok: "at i (Dialling key) m \<Longrightarrow>
    pool_step m (goto i (Dialled key (mc_dialled m)) (m\<lparr>mc_dialled := Suc (mc_dialled m)\<rparr>))"
| insert_first: "at i (Dialled key c) m \<Longrightarrow> pool_insert key c now (mc_pool m) = (None, p) \<Longrightarrow>
    pool_step m (goto i Resting (m\<lparr>mc_pool := p\<rparr>))"
| insert_late: "at i (Dialled key c) m \<Longrightarrow> pool_insert key c now (mc_pool m) = (Some c', p) \<Longrightarrow>
    pool_step m (goto i (Discarding c) (m\<lparr>mc_pool := p\<rparr>))"
| discard: "at i (Discarding c) m \<Longrightarrow> pool_step m (goto i Resting (m\<lparr>mc_closed := c # mc_closed m\<rparr>))"
| invalidate_hit: "at i Resting m \<Longrightarrow> pool_invalidate key (mc_pool m) = (Some c, p) \<Longrightarrow>
    pool_step m (m\<lparr>mc_pool := p, mc_closed := c # mc_closed m\<rparr>)"
| evict: "at i Resting m \<Longrightarrow> pool_evict now (mc_pool m) = (cs, p) \<Longrightarrow>
    pool_step m (goto i (ClosingAll cs) (m\<lparr>mc_pool := p\<rparr>))"
| stop: "at i Resting m \<Longrightarrow> \<not> sp_stopped (mc_pool m) \<Longrightarrow> pool_take (mc_pool m\<lparr>sp_stopped := True\<rparr>) = (cs, p) \<Longrightarrow>
    pool_step m (goto i (ClosingAll cs) (m\<lparr>mc_pool := p\<rparr>))"
| close_one: "at i (ClosingAll (c # cs)) m \<Longrightarrow>
    pool_step m (goto i (ClosingAll cs) (m\<lparr>mc_closed := c # mc_closed m\<rparr>))"
| close_done: "at i (ClosingAll []) m \<Longrightarrow> pool_step m (goto i Resting m)"

definition machine_init :: "int \<Rightarrow> nat \<Rightarrow> machine" where
  "machine_init idle n =
     \<lparr>mc_pool = NewSFTPClient idle, mc_threads = replicate n Resting, mc_closed = [], mc_dialled = 0\<rparr>"

subsection \<open>Ledgers\<close>

text \<open>
  A machine that issues numbered handles and never loses or doubles one: the interface that the pool's
  critical sections provide. \<open>held\<close> lists the handles by place.
\<close>

locale ledger = safe_machine step start ok
  for step :: "'s \<Rightarrow> 's \<Rightarrow> bool" and start :: "'s \<Rightarrow> bool" and ok :: "'s \<Rightarrow> bool" +
  fixes held :: "'s \<Rightarrow> nat list" and issued :: "'s \<Rightarrow> nat"
  assumes start_held: "start s \<Longrightarrow> mset (held s) = mset [0..<issued s]"
    and step_held: "step s s' \<Longrightarrow> ok s \<Longrightarrow>
      issued s \<le> issued s' \<and> mset (held s') = mset (held s) + mset [issued s..<issued s']"
begin

lemma reach_ledger:
  assumes run: "step\<^sup>*\<^sup>* s t" and s: "start s"
  shows "mset (held t) = mset [0..<issued t]"
proof (rule run_rel [OF run s, where R = "\<lambda>_ t. mset (held t) = mset [0..<issued t]"])
  show "mset (held s) = mset [0..<issued s]" using s by (rule start_held)
  fix u v assume u: "mset (held u) = mset [0..<issued u]" "ok u" and st: "step u v"
  have le: "issued u \<le> issued v" and v: "mset (held v) = mset (held u) + mset [issued u..<issued v]"
    using step_held [OF st u(2)] by auto
  have "[0..<issued v] = [0..<issued u] @ [issued u..<issued v]"
    using upt_add_eq_append [of 0 "issued u" "issued v - issued u"] le by simp
  with v u(1) show "mset (held v) = mset [0..<issued v]" by simp
qed

lemma held_once: "step\<^sup>*\<^sup>* s s' \<Longrightarrow> start s \<Longrightarrow> distinct (held s') \<and> set (held s') = {..<issued s'}"
proof -
  assume "step\<^sup>*\<^sup>* s s'" "start s"
  then have m: "mset (held s') = mset [0..<issued s']" using reach_ledger by blast
  then have "distinct (held s')" using mset_eq_imp_distinct_iff [OF m] by simp
  moreover have "set (held s') = set [0..<issued s']" using m by (rule mset_eq_setD)
  ultimately show ?thesis by (simp add: lessThan_atLeast0)
qed

end

subsection \<open>The critical sections\<close>

definition pool_conns :: "SFTPClient \<Rightarrow> nat list" where
  "pool_conns p = map (\<lambda>(k, e). en_conn e) (sp_entries p)"

text \<open>An entry someone has looked up still names its connection; so do the entries of the pool.\<close>

definition entry_ok :: "SFTPClient \<Rightarrow> sftpEntry \<Rightarrow> bool" where
  "entry_ok p e \<longleftrightarrow>
     en_id e < sp_next p \<and> (\<forall>x\<in>snd ` set (sp_entries p). en_id x = en_id e \<longrightarrow> en_conn x = en_conn e)"

definition pool_ok :: "SFTPClient \<Rightarrow> bool" where
  "pool_ok p \<longleftrightarrow> distinct (map fst (sp_entries p)) \<and> (\<forall>e\<in>snd ` set (sp_entries p). entry_ok p e)"

text \<open>What a critical section may do to the entries: forget some, or change their times.\<close>

definition shrinks :: "SFTPClient \<Rightarrow> SFTPClient \<Rightarrow> bool" where
  "shrinks p p' \<longleftrightarrow> sp_next p' = sp_next p \<and>
     (\<forall>x\<in>snd ` set (sp_entries p'). \<exists>y\<in>snd ` set (sp_entries p). en_id y = en_id x \<and> en_conn y = en_conn x)"

lemma entry_ok_shrinks: "shrinks p p' \<Longrightarrow> entry_ok p e \<Longrightarrow> entry_ok p' e"
  unfolding shrinks_def entry_ok_def by metis

lemma pool_ok_shrinks:
  assumes "shrinks p p'" "pool_ok p" "distinct (map fst (sp_entries p'))"
  shows "pool_ok p'"
proof -
  have "entry_ok p' x" if x: "x \<in> snd ` set (sp_entries p')" for x
  proof -
    obtain y where y: "y \<in> snd ` set (sp_entries p)" "en_id y = en_id x" "en_conn y = en_conn x"
      using assms(1) x unfolding shrinks_def by blast
    then have "entry_ok p y" using assms(2) unfolding pool_ok_def by blast
    then have "entry_ok p x" using y unfolding entry_ok_def by simp
    then show ?thesis by (rule entry_ok_shrinks [OF assms(1)])
  qed
  with assms(3) show ?thesis unfolding pool_ok_def by blast
qed

lemma entry_ok_next: "entry_ok p e \<Longrightarrow> en_id e < sp_next p"
  by (simp add: entry_ok_def)

lemma alist_remove_mset:
  "distinct (map fst es) \<Longrightarrow> map_of es k = Some e \<Longrightarrow>
     mset (map f es) = add_mset (f (k, e)) (mset (map f (filter (\<lambda>(k', _). k' \<noteq> k) es)))"
proof (induction es)
  case (Cons x es)
  obtain k' e' where x: "x = (k', e')" by fastforce
  show ?case
  proof (cases "k' = k")
    case True
    then have "filter (\<lambda>(k', _). k' \<noteq> k) es = es" using Cons.prems(1) x by (force simp: filter_id_conv)
    then show ?thesis using True Cons.prems x by simp
  next
    case False
    then show ?thesis using Cons x by simp
  qed
qed simp

lemma pool_delete_conns:
  "pool_ok p \<Longrightarrow> pool_lookup key p = Some e \<Longrightarrow> mset (pool_conns p) = add_mset (en_conn e) (mset (pool_conns (pool_delete key p)))"
  using alist_remove_mset [of "sp_entries p" key e "\<lambda>(k, e). en_conn e"]
  by (simp add: pool_ok_def pool_lookup_def pool_conns_def pool_delete_def)

lemma shrinks_filter: "shrinks p (p\<lparr>sp_entries := filter P (sp_entries p)\<rparr>)"
  by (force simp: shrinks_def)

lemma pool_ok_filter: "pool_ok p \<Longrightarrow> pool_ok (p\<lparr>sp_entries := filter P (sp_entries p)\<rparr>)"
  by (rule pool_ok_shrinks [OF shrinks_filter]) (auto simp: pool_ok_def distinct_map_filter)

lemma pool_delete_shrinks: "shrinks p (pool_delete key p)"
  unfolding pool_delete_def by (rule shrinks_filter)

lemma pool_delete_ok: "pool_ok p \<Longrightarrow> pool_ok (pool_delete key p)"
  unfolding pool_delete_def by (rule pool_ok_filter)

lemma pool_touch_cases:
  "pool_touch key e now p = p \<or> pool_touch key e now p =
     p\<lparr>sp_entries := map (\<lambda>(k, x). (k, if k = key then x\<lparr>en_lastUsed := now\<rparr> else x)) (sp_entries p)\<rparr>"
  by (simp add: pool_touch_def split: option.split)

lemma shrinks_refl: "shrinks p p"
  by (auto simp: shrinks_def)

lemma pool_touch_shrinks: "shrinks p (pool_touch key e now p)"
  using pool_touch_cases [of key e now p]
proof
  assume "pool_touch key e now p = p"
  then show ?thesis by (simp add: shrinks_refl)
next
  assume t: "pool_touch key e now p =
    p\<lparr>sp_entries := map (\<lambda>(k, x). (k, if k = key then x\<lparr>en_lastUsed := now\<rparr> else x)) (sp_entries p)\<rparr>"
  show ?thesis unfolding t shrinks_def by (auto intro!: rev_bexI)
qed

lemma pool_touch_keys: "map fst (sp_entries (pool_touch key e now p)) = map fst (sp_entries p)"
  using pool_touch_cases [of key e now p] by (auto simp: o_def split_beta)

lemma pool_touch_conns [simp]: "pool_conns (pool_touch key e now p) = pool_conns p"
  using pool_touch_cases [of key e now p] by (auto simp: pool_conns_def)

lemma pool_touch_ok: "pool_ok p \<Longrightarrow> pool_ok (pool_touch key e now p)"
  by (rule pool_ok_shrinks [OF pool_touch_shrinks]) (auto simp: pool_touch_keys pool_ok_def)

lemma pool_lookup_ok: "pool_ok p \<Longrightarrow> pool_lookup key p = Some e \<Longrightarrow> entry_ok p e"
  unfolding pool_ok_def pool_lookup_def by (metis imageI map_of_SomeD snd_conv)

lemma pool_drop_True:
  assumes "pool_drop key e p = (True, p')" "pool_ok p" "entry_ok p e"
  shows "p' = pool_delete key p" "mset (pool_conns p) = add_mset (en_conn e) (mset (pool_conns p'))"
proof -
  obtain cur where cur: "pool_lookup key p = Some cur" "en_id cur = en_id e" and p': "p' = pool_delete key p"
    using assms(1) by (auto simp: pool_drop_def split: option.splits if_splits)
  have "cur \<in> snd ` set (sp_entries p)" using cur(1) unfolding pool_lookup_def by (metis imageI map_of_SomeD snd_conv)
  then have "en_conn cur = en_conn e" using assms(3) cur(2) unfolding entry_ok_def by blast
  then show "mset (pool_conns p) = add_mset (en_conn e) (mset (pool_conns p'))"
    using pool_delete_conns [OF assms(2) cur(1)] p' by simp
  show "p' = pool_delete key p" by (rule p')
qed

lemma pool_drop_False: "pool_drop key e p = (False, p') \<Longrightarrow> p' = p"
  by (auto simp: pool_drop_def split: option.splits if_splits)

lemma pool_insert_None:
  assumes "pool_insert key c now p = (None, p')" "pool_ok p"
  shows "pool_conns p' = c # pool_conns p" "pool_ok p'" "entry_ok p e \<Longrightarrow> entry_ok p' e"
proof -
  let ?new = "\<lparr>en_id = sp_next p, en_conn = c, en_lastUsed = now\<rparr>"
  have none: "map_of (sp_entries p) key = None" and p': "p' = p\<lparr>sp_entries := (key, ?new) # sp_entries p, sp_next := Suc (sp_next p)\<rparr>"
    using assms(1) by (auto simp: pool_insert_def pool_lookup_def split: option.splits)
  have keep: "entry_ok p x \<Longrightarrow> entry_ok p' x" for x
    unfolding p' entry_ok_def by auto
  then show "entry_ok p e \<Longrightarrow> entry_ok p' e" .
  have old: "en_id x < sp_next p \<and> entry_ok p' x" if "x \<in> snd ` set (sp_entries p)" for x
    using assms(2) that keep entry_ok_next unfolding pool_ok_def by blast
  have new: "entry_ok p' ?new"
    unfolding entry_ok_def
  proof (intro conjI ballI impI)
    show "en_id ?new < sp_next p'" by (simp add: p')
    fix x assume x: "x \<in> snd ` set (sp_entries p')" and id: "en_id x = en_id ?new"
    have "x = ?new \<or> x \<in> snd ` set (sp_entries p)" using x unfolding p' by simp
    then show "en_conn x = en_conn ?new"
    proof
      assume "x \<in> snd ` set (sp_entries p)"
      from old [OF this] id show ?thesis by simp
    qed simp
  qed
  have "distinct (map fst (sp_entries p'))"
    using assms(2) none unfolding pool_ok_def p' by (simp add: map_of_eq_None_iff)
  moreover have "snd ` set (sp_entries p') = insert ?new (snd ` set (sp_entries p))" by (simp add: p')
  ultimately show "pool_ok p'" using old new unfolding pool_ok_def by simp
  show "pool_conns p' = c # pool_conns p" by (simp add: p' pool_conns_def)
qed

lemma pool_insert_Some: "pool_insert key c now p = (Some c', p') \<Longrightarrow> p' = p"
  by (auto simp: pool_insert_def split: option.splits)

lemma pool_invalidate_Some:
  assumes "pool_invalidate key p = (Some c, p')" "pool_ok p"
  shows "p' = pool_delete key p" "mset (pool_conns p) = add_mset c (mset (pool_conns p'))"
  using assms pool_delete_conns [OF assms(2)] by (auto simp: pool_invalidate_def split: option.splits)

lemma pool_evict_conns:
  assumes "pool_evict now p = (cs, p')"
  shows "mset (pool_conns p) = mset cs + mset (pool_conns p')" "\<exists>P. p' = p\<lparr>sp_entries := filter P (sp_entries p)\<rparr>"
proof -
  let ?idle = "\<lambda>(k :: string, e). now - en_lastUsed e > sp_idleTimeout p"
  have cs: "cs = map (\<lambda>(k, e). en_conn e) (filter ?idle (sp_entries p))"
    and p': "p' = p\<lparr>sp_entries := filter (\<lambda>x. \<not> ?idle x) (sp_entries p)\<rparr>"
    using assms by (simp_all add: pool_evict_def Let_def)
  have "image_mset f M = image_mset f (filter_mset P M) + image_mset f (filter_mset (\<lambda>x. \<not> P x) M)"
    for f :: "string \<times> sftpEntry \<Rightarrow> nat" and P M
    by (metis image_mset_union multiset_partition)
  from this [of "\<lambda>(k, e). en_conn e" "mset (sp_entries p)" ?idle]
  show "mset (pool_conns p) = mset cs + mset (pool_conns p')"
    unfolding cs p' by (simp add: pool_conns_def)
  show "\<exists>P. p' = p\<lparr>sp_entries := filter P (sp_entries p)\<rparr>" unfolding p' by blast
qed

lemma pool_take_conns:
  assumes "pool_take (p\<lparr>sp_stopped := True\<rparr>) = (cs, p')"
  shows "cs = pool_conns p" "pool_conns p' = []" "shrinks p p'" "pool_ok p'"
  using assms by (auto simp: pool_take_def pool_conns_def shrinks_def pool_ok_def)

subsection \<open>The books balance\<close>

fun phase_conns :: "phase \<Rightarrow> nat list" where
  "phase_conns (Closing c _) = [c]"
| "phase_conns (Dialled _ c) = [c]"
| "phase_conns (Discarding c) = [c]"
| "phase_conns (ClosingAll cs) = cs"
| "phase_conns _ = []"

definition held :: "machine \<Rightarrow> nat list" where
  "held m = pool_conns (mc_pool m) @ concat (map phase_conns (mc_threads m)) @ mc_closed m"

fun phase_ok :: "SFTPClient \<Rightarrow> phase \<Rightarrow> bool" where
  "phase_ok p (Probing _ e) \<longleftrightarrow> entry_ok p e"
| "phase_ok p _ \<longleftrightarrow> True"

definition machine_ok :: "machine \<Rightarrow> bool" where
  "machine_ok m \<longleftrightarrow> pool_ok (mc_pool m) \<and> (\<forall>ph\<in>set (mc_threads m). phase_ok (mc_pool m) ph)"

lemma mset_concat_update:
  "i < length xs \<Longrightarrow> mset (concat (map f (xs[i := y]))) + mset (f (xs ! i)) = mset (concat (map f xs)) + mset (f y)"
proof (induction xs arbitrary: i)
  case (Cons x xs)
  then show ?case by (cases i) (auto simp: add.assoc add.left_commute add.commute)
qed simp

lemma held_goto:
  assumes "at i old m" "mc_threads m' = mc_threads m"
    "mset (pool_conns (mc_pool m')) + mset (phase_conns new) + mset (mc_closed m') =
       mset (pool_conns (mc_pool m)) + mset (phase_conns old) + mset (mc_closed m) + D"
  shows "mset (held (goto i new m')) = mset (held m) + D"
proof -
  let ?T = "mset (concat (map phase_conns (mc_threads m)))"
  let ?T' = "mset (concat (map phase_conns ((mc_threads m)[i := new])))"
  have t: "?T' + mset (phase_conns old) = ?T + mset (phase_conns new)"
    using assms(1) mset_concat_update [of i "mc_threads m" phase_conns new] by (simp add: at_def)
  have "mset (held (goto i new m')) + mset (phase_conns old) =
      mset (pool_conns (mc_pool m')) + mset (mc_closed m') + (?T' + mset (phase_conns old))"
    using assms(2) by (simp add: held_def goto_def ac_simps)
  also have "\<dots> = (mset (pool_conns (mc_pool m')) + mset (phase_conns new) + mset (mc_closed m')) + ?T"
    unfolding t by (simp add: ac_simps)
  also have "\<dots> = (mset (held m) + D) + mset (phase_conns old)"
    unfolding assms(3) by (simp add: held_def ac_simps)
  finally show ?thesis by simp
qed

lemma machine_ok_goto:
  assumes "machine_ok m" "mc_threads m' = mc_threads m" "pool_ok (mc_pool m')"
    "\<And>e. entry_ok (mc_pool m) e \<Longrightarrow> entry_ok (mc_pool m') e" "phase_ok (mc_pool m') new"
  shows "machine_ok (goto i new m')"
proof -
  have "phase_ok (mc_pool m') ph" if "ph \<in> set (mc_threads m)" for ph
    using assms(1,4) that unfolding machine_ok_def by (cases ph) auto
  with assms(2,3,5) show ?thesis
    unfolding machine_ok_def goto_def by (auto dest!: set_update_subset_insert [THEN subsetD])
qed

lemma machine_ok_goto_same:
  "machine_ok m \<Longrightarrow> mc_threads m' = mc_threads m \<Longrightarrow> mc_pool m' = mc_pool m \<Longrightarrow> phase_ok (mc_pool m) new \<Longrightarrow>
     machine_ok (goto i new m')"
  by (rule machine_ok_goto) (auto simp: machine_ok_def)

lemma at_phase_ok: "machine_ok m \<Longrightarrow> at i ph m \<Longrightarrow> phase_ok (mc_pool m) ph"
  by (auto simp: machine_ok_def at_def)

text \<open>The steps that only move a goroutine and, perhaps, change the pool or the closed connections.\<close>

lemma pool_step_ok: "pool_step m m' \<Longrightarrow> machine_ok m \<Longrightarrow> machine_ok m'"
proof (induction rule: pool_step.induct)
  case (look_hit i m key e)
  then show ?case by (intro machine_ok_goto) (auto simp: machine_ok_def intro: pool_lookup_ok)
next
  case (probe_ok i key e m now)
  then show ?case
    by (intro machine_ok_goto [of m]) (auto simp: machine_ok_def intro: pool_touch_ok entry_ok_shrinks [OF pool_touch_shrinks])
next
  case (probe_bad i key e m p)
  then have "p = pool_delete key (mc_pool m)"
    using pool_drop_True(1) at_phase_ok [OF probe_bad(3) probe_bad(1)] unfolding machine_ok_def by auto
  with probe_bad show ?case
    by (intro machine_ok_goto [of m]) (auto simp: machine_ok_def intro: pool_delete_ok entry_ok_shrinks [OF pool_delete_shrinks])
next
  case (probe_stale i key e m p)
  then have "p = mc_pool m" using pool_drop_False by blast
  with probe_stale show ?case by (intro machine_ok_goto [of m]) (auto simp: machine_ok_def)
next
  case (insert_first i key c m now p)
  then show ?case
    using pool_insert_None [OF insert_first(2)] by (intro machine_ok_goto [of m]) (auto simp: machine_ok_def)
next
  case (insert_late i key c m now c' p)
  then have "p = mc_pool m" using pool_insert_Some by blast
  with insert_late show ?case by (intro machine_ok_goto [of m]) (auto simp: machine_ok_def)
next
  case (invalidate_hit i m key c p)
  then have p: "p = pool_delete key (mc_pool m)" using pool_invalidate_Some(1) unfolding machine_ok_def by blast
  have "phase_ok p ph" if "phase_ok (mc_pool m) ph" for ph
    using that entry_ok_shrinks [OF pool_delete_shrinks] unfolding p by (cases ph) auto
  with invalidate_hit p show ?case by (auto simp: machine_ok_def pool_delete_ok)
next
  case (evict i m now cs p)
  then obtain P where "p = (mc_pool m)\<lparr>sp_entries := filter P (sp_entries (mc_pool m))\<rparr>"
    using pool_evict_conns(2) by blast
  with evict show ?case
    by (intro machine_ok_goto [of m]) (auto simp: machine_ok_def intro: pool_ok_filter entry_ok_shrinks [OF shrinks_filter])
next
  case (stop i m cs p)
  note t = pool_take_conns [OF stop(3)]
  with stop show ?case
    by (intro machine_ok_goto [of m]) (auto simp: machine_ok_def intro: entry_ok_shrinks)
qed (erule machine_ok_goto_same; simp)+

definition issued_by :: "machine \<Rightarrow> machine \<Rightarrow> bool" where
  "issued_by m m' \<longleftrightarrow> mc_dialled m \<le> mc_dialled m'
     \<and> mset (held m') = mset (held m) + mset [mc_dialled m..<mc_dialled m']"

lemma issued_goto:
  assumes "at i old m" "mc_threads m' = mc_threads m" "mc_dialled m' = mc_dialled m"
    "mset (pool_conns (mc_pool m')) + mset (phase_conns new) + mset (mc_closed m') =
       mset (pool_conns (mc_pool m)) + mset (phase_conns old) + mset (mc_closed m)"
  shows "issued_by m (goto i new m')"
  using held_goto [OF assms(1,2), of new "{#}"] assms(3,4) by (simp add: issued_by_def goto_def)

lemma pool_step_held: "pool_step m m' \<Longrightarrow> machine_ok m \<Longrightarrow> issued_by m m'"
proof (induction rule: pool_step.induct)
  case (probe_bad i key e m p)
  then have "mset (pool_conns (mc_pool m)) = add_mset (en_conn e) (mset (pool_conns p))"
    using pool_drop_True(2) at_phase_ok [OF probe_bad(3) probe_bad(1)] unfolding machine_ok_def by auto
  with probe_bad show ?case by (intro issued_goto [of i "Probing key e"]) auto
next
  case (probe_stale i key e m p)
  then have "p = mc_pool m" using pool_drop_False by blast
  with probe_stale show ?case by (intro issued_goto [of i "Probing key e"]) auto
next
  case (dial_ok i key m)
  from held_goto [OF dial_ok(1), of "m\<lparr>mc_dialled := Suc (mc_dialled m)\<rparr>" "Dialled key (mc_dialled m)" "{#mc_dialled m#}"]
  show ?case by (simp add: issued_by_def goto_def)
next
  case (insert_first i key c m now p)
  then show ?case using pool_insert_None(1) [OF insert_first(2)]
    by (intro issued_goto [of i "Dialled key c"]) (auto simp: machine_ok_def)
next
  case (insert_late i key c m now c' p)
  then have "p = mc_pool m" using pool_insert_Some by blast
  with insert_late show ?case by (intro issued_goto [of i "Dialled key c"]) auto
next
  case (invalidate_hit i m key c p)
  then have "mset (pool_conns (mc_pool m)) = add_mset c (mset (pool_conns p))"
    using pool_invalidate_Some(2) unfolding machine_ok_def by blast
  then show ?case by (simp add: issued_by_def held_def)
next
  case (evict i m now cs p)
  then show ?case using pool_evict_conns(1) [OF evict(2)] by (intro issued_goto [of i Resting]) auto
next
  case (stop i m cs p)
  then show ?case using pool_take_conns [OF stop(3)] by (intro issued_goto [of i Resting]) auto
qed (erule issued_goto; simp)+

interpretation pool: ledger pool_step "\<lambda>m. \<exists>idle n. m = machine_init idle n" machine_ok held mc_dialled
proof
  fix m :: machine
  assume "\<exists>idle n. m = machine_init idle n"
  then show "machine_ok m" and "mset (held m) = mset [0..<mc_dialled m]"
    by (auto simp: machine_init_def machine_ok_def held_def NewSFTPClient_def pool_ok_def pool_conns_def)
qed (use pool_step_ok pool_step_held in \<open>auto simp: issued_by_def\<close>)

text \<open>
  C19. The connection pool keeps its books: however many goroutines get, use, invalidate, evict and close, and
  however their critical sections interleave with pings, dials and closes, every connection dialled so far is
  in exactly one place - the pool, one goroutine's hands, or the list of closed connections. So no connection
  is closed twice, none in the pool has been closed, and none is forgotten.
\<close>

theorem sftp_pool_balances:
  assumes "pool_step\<^sup>*\<^sup>* (machine_init idle n) m"
  shows "distinct (pool_conns (mc_pool m) @ concat (map phase_conns (mc_threads m)) @ mc_closed m)
    \<and> set (pool_conns (mc_pool m)) \<union> set (concat (map phase_conns (mc_threads m))) \<union> set (mc_closed m) = {..<mc_dialled m}"
  using pool.held_once [OF assms] unfolding held_def by auto

text \<open>Two goroutines miss the pool together, and both dial: the one that is later closes its connection.\<close>

lemma demo_race:
  "\<exists>m. pool_step\<^sup>*\<^sup>* (machine_init 0 2) m \<and> mc_closed m = [1] \<and> pool_conns (mc_pool m) = [0] \<and> mc_threads m = [Resting, Resting]
     \<and> mc_dialled m = 2"
proof -
  let ?p0 = "NewSFTPClient 0"
  let ?p1 = "?p0\<lparr>sp_entries := [(''k'', \<lparr>en_id = 0, en_conn = 0, en_lastUsed = 5\<rparr>)], sp_next := 1\<rparr>"
  define m where "m = (\<lambda>p a b cl n. \<lparr>mc_pool = p, mc_threads = [a, b], mc_closed = cl, mc_dialled = n\<rparr>)"
  have none: "pool_lookup ''k'' ?p0 = None" by (simp add: NewSFTPClient_def pool_lookup_def)
  have ins: "pool_insert ''k'' 0 5 ?p0 = (None, ?p1)" "pool_insert ''k'' 1 7 ?p1 = (Some 0, ?p1)"
    by (simp_all add: NewSFTPClient_def pool_insert_def pool_lookup_def)
  have start: "machine_init 0 2 = m ?p0 Resting Resting [] 0"
    by (simp add: machine_init_def m_def numeral_2_eq_2)
  have step1: "pool_step (m ?p0 Resting Resting [] 0) (m ?p0 (Dialling ''k'') Resting [] 0)"
    using look_miss [of 0 "m ?p0 Resting Resting [] 0" "''k''"] none by (simp add: at_def goto_def m_def)
  have step2: "pool_step (m ?p0 (Dialling ''k'') Resting [] 0) (m ?p0 (Dialling ''k'') (Dialling ''k'') [] 0)"
    using look_miss [of 1 "m ?p0 (Dialling ''k'') Resting [] 0" "''k''"] none by (simp add: at_def goto_def m_def)
  have step3: "pool_step (m ?p0 (Dialling ''k'') (Dialling ''k'') [] 0) (m ?p0 (Dialled ''k'' 0) (Dialling ''k'') [] 1)"
    using dial_ok [of 0 "''k''" "m ?p0 (Dialling ''k'') (Dialling ''k'') [] 0"] by (simp add: at_def goto_def m_def)
  have step4: "pool_step (m ?p0 (Dialled ''k'' 0) (Dialling ''k'') [] 1) (m ?p0 (Dialled ''k'' 0) (Dialled ''k'' 1) [] 2)"
    using dial_ok [of 1 "''k''" "m ?p0 (Dialled ''k'' 0) (Dialling ''k'') [] 1"] by (simp add: at_def goto_def m_def numeral_2_eq_2)
  have step5: "pool_step (m ?p0 (Dialled ''k'' 0) (Dialled ''k'' 1) [] 2) (m ?p1 Resting (Dialled ''k'' 1) [] 2)"
    using insert_first [of 0 "''k''" 0 "m ?p0 (Dialled ''k'' 0) (Dialled ''k'' 1) [] 2" 5] ins(1)
    by (simp add: at_def goto_def m_def)
  have step6: "pool_step (m ?p1 Resting (Dialled ''k'' 1) [] 2) (m ?p1 Resting (Discarding 1) [] 2)"
    using insert_late [of 1 "''k''" 1 "m ?p1 Resting (Dialled ''k'' 1) [] 2" 7] ins(2) by (simp add: at_def goto_def m_def)
  have step7: "pool_step (m ?p1 Resting (Discarding 1) [] 2) (m ?p1 Resting Resting [1] 2)"
    using discard [of 1 1 "m ?p1 Resting (Discarding 1) [] 2"] by (simp add: at_def goto_def m_def)
  have "pool_step\<^sup>*\<^sup>* (m ?p0 Resting Resting [] 0) (m ?p1 Resting Resting [1] 2)"
    using step1 step2 step3 step4 step5 step6 step7 by (meson rtranclp.rtrancl_refl rtranclp.rtrancl_into_rtrancl)
  then show ?thesis unfolding start by (intro exI conjI) (assumption, simp_all add: m_def pool_conns_def)
qed

theorem sftp_pool_balances_witness:
  "\<exists>m. pool_step\<^sup>*\<^sup>* (machine_init 0 2) m \<and> distinct (pool_conns (mc_pool m) @ mc_closed m) \<and> set (mc_closed m) = {1}
     \<and> {0, 1} = {..<mc_dialled m}"
proof -
  obtain m where m: "pool_step\<^sup>*\<^sup>* (machine_init 0 2) m" "mc_closed m = [1]" "pool_conns (mc_pool m) = [0]"
      "mc_threads m = [Resting, Resting]" "mc_dialled m = 2"
    using demo_race by blast
  from sftp_pool_balances [OF m(1)] m show ?thesis by (intro exI [of _ m]) auto
qed

text \<open>Connections in a closed client that no goroutine is about to close.\<close>

definition leaked :: "machine \<Rightarrow> bool" where
  "leaked m \<longleftrightarrow> sp_stopped (mc_pool m) \<and> pool_conns (mc_pool m) \<noteq> [] \<and> (\<forall>ph\<in>set (mc_threads m). ph = Resting)"

text \<open>
  A connection can outlive the client: a goroutine that was dialling while the client was closed still
  puts its connection into the closed client's pool, where neither \<open>Close\<close> nor the eviction loop, which has
  ended, will ever close it.
\<close>

theorem sftp_pool_refills_after_Close:
  shows "\<exists>m. pool_step\<^sup>*\<^sup>* (machine_init 0 2) m \<and> leaked m"
proof -
  let ?p0 = "NewSFTPClient 0"
  let ?ps = "?p0\<lparr>sp_stopped := True\<rparr>"
  let ?p1 = "?ps\<lparr>sp_entries := [(''k'', \<lparr>en_id = 0, en_conn = 0, en_lastUsed = 5\<rparr>)], sp_next := 1\<rparr>"
  define m where "m = (\<lambda>p a b n. \<lparr>mc_pool = p, mc_threads = [a, b], mc_closed = [], mc_dialled = n\<rparr>)"
  have none: "pool_lookup ''k'' ?p0 = None" by (simp add: NewSFTPClient_def pool_lookup_def)
  have ins: "pool_insert ''k'' 0 5 ?ps = (None, ?p1)"
    by (simp add: NewSFTPClient_def pool_insert_def pool_lookup_def)
  have take: "pool_take ?ps = ([], ?ps)" "\<not> sp_stopped ?p0" by (simp_all add: NewSFTPClient_def pool_take_def)
  have start: "machine_init 0 2 = m ?p0 Resting Resting 0"
    by (simp add: machine_init_def m_def numeral_2_eq_2)
  have step1: "pool_step (m ?p0 Resting Resting 0) (m ?p0 (Dialling ''k'') Resting 0)"
    using look_miss [of 0 "m ?p0 Resting Resting 0" "''k''"] none by (simp add: at_def goto_def m_def)
  have step2: "pool_step (m ?p0 (Dialling ''k'') Resting 0) (m ?ps (Dialling ''k'') (ClosingAll []) 0)"
    using stop [of 1 "m ?p0 (Dialling ''k'') Resting 0"] take by (simp add: at_def goto_def m_def)
  have step3: "pool_step (m ?ps (Dialling ''k'') (ClosingAll []) 0) (m ?ps (Dialling ''k'') Resting 0)"
    using close_done [of 1 "m ?ps (Dialling ''k'') (ClosingAll []) 0"] by (simp add: at_def goto_def m_def)
  have step4: "pool_step (m ?ps (Dialling ''k'') Resting 0) (m ?ps (Dialled ''k'' 0) Resting 1)"
    using dial_ok [of 0 "''k''" "m ?ps (Dialling ''k'') Resting 0"] by (simp add: at_def goto_def m_def)
  have step5: "pool_step (m ?ps (Dialled ''k'' 0) Resting 1) (m ?p1 Resting Resting 1)"
    using insert_first [of 0 "''k''" 0 "m ?ps (Dialled ''k'' 0) Resting 1" 5] ins by (simp add: at_def goto_def m_def)
  have "pool_step\<^sup>*\<^sup>* (machine_init 0 2) (m ?p1 Resting Resting 1)" unfolding start
    using step1 step2 step3 step4 step5 by (meson rtranclp.rtrancl_refl rtranclp.rtrancl_into_rtrancl)
  moreover have "leaked (m ?p1 Resting Resting 1)" by (simp add: leaked_def m_def pool_conns_def)
  ultimately show ?thesis by blast
qed

end
