(* ===== verification/Webssh_Sftp_Ops.thy ===== *)
theory Webssh_Sftp_Ops
  imports Webssh_Sftp
begin

text \<open>
  The operations of the SFTP client (src/webssh/sftp_client.go). Each takes a connection from the pool,
  makes its request, and on an error drops the connection from the pool. The result carries the caller's
  options as the call left them, the pool and the world.
\<close>

type_synonym ('r, 'w) sftp_call =
  "SSHClientOption \<Rightarrow> SFTPClient \<Rightarrow> 'w \<Rightarrow> 'r go_result \<times> SSHClientOption \<times> SFTPClient \<times> 'w"

subsection \<open>The common course of an operation\<close>

definition with_conn ::
  "('v, 'w) sftp_env \<Rightarrow> (nat \<Rightarrow> ('r, 'w) sftp_call) \<Rightarrow> ('r, 'w) sftp_call" where
  "with_conn env body opt p w =
     (case getConn env opt p w of
        (Inl err, opt1, p1, w1) \<Rightarrow> (Inl err, opt1, p1, w1)
      | (Inr conn, opt1, p1, w1) \<Rightarrow> body conn opt1 p1 w1)"

text \<open>A request whose error drops the connection.\<close>

definition guarded ::
  "('v, 'w) sftp_env \<Rightarrow> string \<Rightarrow> ('w \<Rightarrow> 'r go_result \<times> 'w) \<Rightarrow> ('r, 'w) sftp_call" where
  "guarded env what req opt p w =
     (case req w of
        (Inl err, w1) \<Rightarrow> (case invalidate env opt p w1 of (p1, w2) \<Rightarrow> (Inl (Wrapf what err), opt, p1, w2))
      | (Inr r, w1) \<Rightarrow> (Inr r, opt, p, w1))"

definition no_result :: "'w request \<Rightarrow> 'w \<Rightarrow> unit go_result \<times> 'w" where
  "no_result req w = (case req w of (Some err, w1) \<Rightarrow> (Inl err, w1) | (None, w1) \<Rightarrow> (Inr (), w1))"

definition on_conn ::
  "('v, 'w) sftp_env \<Rightarrow> string \<Rightarrow> (nat \<Rightarrow> 'w \<Rightarrow> 'r go_result \<times> 'w) \<Rightarrow> ('r, 'w) sftp_call" where
  "on_conn env what req = with_conn env (\<lambda>conn. guarded env what (req conn))"

subsection \<open>Requests\<close>

definition SFTP_Remove :: "('v, 'w) sftp_env \<Rightarrow> string \<Rightarrow> bool \<Rightarrow> (unit, 'w) sftp_call" where
  "SFTP_Remove env targetPath recursive =
     with_conn env (\<lambda>conn.
       if recursive
       then guarded env ''recursive remove failed'' (no_result (sf_RemoveAll env conn targetPath))
       else guarded env ''remove failed'' (no_result (sf_Remove env conn targetPath)))"

definition SFTP_Mkdir :: "('v, 'w) sftp_env \<Rightarrow> string \<Rightarrow> (unit, 'w) sftp_call" where
  "SFTP_Mkdir env dirPath = on_conn env ''mkdir failed'' (\<lambda>conn. no_result (sf_MkdirAll env conn dirPath))"

definition SFTP_Rename :: "('v, 'w) sftp_env \<Rightarrow> string \<Rightarrow> string \<Rightarrow> (unit, 'w) sftp_call" where
  "SFTP_Rename env oldPath newPath =
     on_conn env ''rename failed'' (\<lambda>conn. no_result (sf_Rename env conn oldPath newPath))"

definition SFTP_Stat :: "('v, 'w) sftp_env \<Rightarrow> string \<Rightarrow> (sftp_stat, 'w) sftp_call" where
  "SFTP_Stat env p = on_conn env ''stat failed'' (\<lambda>conn. sf_Stat env conn p)"

definition SFTP_Lstat :: "('v, 'w) sftp_env \<Rightarrow> string \<Rightarrow> (sftp_stat, 'w) sftp_call" where
  "SFTP_Lstat env p = on_conn env ''stat failed'' (\<lambda>conn. sf_Lstat env conn p)"

definition SFTP_ReadLink :: "('v, 'w) sftp_env \<Rightarrow> string \<Rightarrow> (string, 'w) sftp_call" where
  "SFTP_ReadLink env p = on_conn env ''read link failed'' (\<lambda>conn. sf_ReadLink env conn p)"

definition SFTP_Symlink :: "('v, 'w) sftp_env \<Rightarrow> string \<Rightarrow> string \<Rightarrow> (unit, 'w) sftp_call" where
  "SFTP_Symlink env oldname newname =
     on_conn env ''symlink failed'' (\<lambda>conn. no_result (sf_Symlink env conn oldname newname))"

definition SFTP_Link :: "('v, 'w) sftp_env \<Rightarrow> string \<Rightarrow> string \<Rightarrow> (unit, 'w) sftp_call" where
  "SFTP_Link env oldname newname =
     on_conn env ''link failed'' (\<lambda>conn. no_result (sf_Link env conn oldname newname))"

definition SFTP_Chmod :: "('v, 'w) sftp_env \<Rightarrow> string \<Rightarrow> 32 word \<Rightarrow> (unit, 'w) sftp_call" where
  "SFTP_Chmod env path mode = on_conn env ''chmod failed'' (\<lambda>conn. no_result (sf_Chmod env conn path mode))"

definition SFTP_Chown :: "('v, 'w) sftp_env \<Rightarrow> string \<Rightarrow> int \<Rightarrow> int \<Rightarrow> (unit, 'w) sftp_call" where
  "SFTP_Chown env path uid gid = on_conn env ''chown failed'' (\<lambda>conn. no_result (sf_Chown env conn path uid gid))"

definition SFTP_Chtimes :: "('v, 'w) sftp_env \<Rightarrow> string \<Rightarrow> int \<Rightarrow> int \<Rightarrow> (unit, 'w) sftp_call" where
  "SFTP_Chtimes env path atime mtime =
     on_conn env ''chtimes failed'' (\<lambda>conn. no_result (sf_Chtimes env conn path atime mtime))"

definition SFTP_PosixRename :: "('v, 'w) sftp_env \<Rightarrow> string \<Rightarrow> string \<Rightarrow> (unit, 'w) sftp_call" where
  "SFTP_PosixRename env oldname newname =
     on_conn env ''POSIX rename failed'' (\<lambda>conn. no_result (sf_PosixRename env conn oldname newname))"

definition SFTP_StatVFS :: "('v, 'w) sftp_env \<Rightarrow> string \<Rightarrow> ('v, 'w) sftp_call" where
  "SFTP_StatVFS env path = on_conn env ''statvfs failed'' (\<lambda>conn. sf_StatVFS env conn path)"

definition SFTP_RealPath :: "('v, 'w) sftp_env \<Rightarrow> string \<Rightarrow> (string, 'w) sftp_call" where
  "SFTP_RealPath env path = on_conn env ''realpath failed'' (\<lambda>conn. sf_RealPath env conn path)"

definition SFTP_Truncate :: "('v, 'w) sftp_env \<Rightarrow> string \<Rightarrow> int \<Rightarrow> (unit, 'w) sftp_call" where
  "SFTP_Truncate env path n = on_conn env ''truncate failed'' (\<lambda>conn. no_result (sf_Truncate env conn path n))"

definition SFTP_Glob :: "('v, 'w) sftp_env \<Rightarrow> string \<Rightarrow> (string list, 'w) sftp_call" where
  "SFTP_Glob env pattern = on_conn env ''glob failed'' (\<lambda>conn. sf_Glob env conn pattern)"

subsection \<open>Listing and sizes\<close>

text \<open>One entry of a directory: for a link, what it points to, as far as the server says.\<close>

definition list_entry ::
  "('v, 'w) sftp_env \<Rightarrow> nat \<Rightarrow> string \<Rightarrow> sftp_stat \<Rightarrow> 'w \<Rightarrow> sftp_FileInfo \<times> 'w" where
  "list_entry env conn dirPath e w =
     (let isLink = mode_bit ModeSymlink (st_Mode e);
          fullPath = filepath_Join [dirPath, st_Name e];
          (isDir, linkTarget, w2) =
            (if isLink
             then (case sf_Stat env conn fullPath w of
                     (st, w1) \<Rightarrow>
                       (case sf_ReadLink env conn fullPath w1 of
                          (tgt, w2) \<Rightarrow>
                            (case st of Inr info \<Rightarrow> st_IsDir info | Inl _ \<Rightarrow> False,
                             case tgt of Inr target \<Rightarrow> target | Inl _ \<Rightarrow> [], w2)))
             else (st_IsDir e, [], w))
      in (\<lparr>fi_Name = st_Name e, fi_Size = st_Size e, fi_Mode = mode_string (st_Mode e), fi_ModTime = st_ModTime e,
           fi_IsDir = isDir, fi_IsLink = isLink, fi_LinkTarget = linkTarget\<rparr>, w2))"

fun list_entries ::
  "('v, 'w) sftp_env \<Rightarrow> nat \<Rightarrow> string \<Rightarrow> sftp_stat list \<Rightarrow> 'w \<Rightarrow> sftp_FileInfo list \<times> 'w" where
  "list_entries env conn dirPath [] w = ([], w)"
| "list_entries env conn dirPath (e # es) w =
     (case list_entry env conn dirPath e w of
        (fi, w1) \<Rightarrow> (case list_entries env conn dirPath es w1 of (fis, w2) \<Rightarrow> (fi # fis, w2)))"

definition SFTP_List :: "('v, 'w) sftp_env \<Rightarrow> string \<Rightarrow> (ListResult, 'w) sftp_call" where
  "SFTP_List env path =
     with_conn env (\<lambda>conn opt p w.
       let (dirPath, w1) =
             (if path = [] \<or> path = ''~''
              then (case sf_Getwd env conn w of (Inr wd, v) \<Rightarrow> (wd, v) | (Inl _, v) \<Rightarrow> (''/'', v))
              else (path, w))
       in case guarded env ''read dir failed'' (sf_ReadDir env conn dirPath) opt p w1 of
            (Inl err, s) \<Rightarrow> (Inl err, s)
          | (Inr es, opt1, p1, w2) \<Rightarrow>
              (case list_entries env conn dirPath es w2 of
                 (files, w3) \<Rightarrow> (Inr \<lparr>lr_Path = dirPath, lr_Files = files\<rparr>, opt1, p1, w3)))"

text \<open>The steps of the walk of \<open>DirSize\<close>; the sum is a 64-bit integer.\<close>

fun walk_size :: "(go_error option \<times> sftp_stat option) list \<Rightarrow> int \<Rightarrow> int go_result" where
  "walk_size [] n = Inr n"
| "walk_size ((Some err, _) # steps) n = Inl err"
| "walk_size ((None, None) # steps) n = walk_size steps n"
| "walk_size ((None, Some info) # steps) n =
     (if mode_bit ModeSymlink (st_Mode info) then walk_size steps n
      else if \<not> st_IsDir info then walk_size steps (wrap64 (n + st_Size info))
      else walk_size steps n)"

definition SFTP_DirSize :: "('v, 'w) sftp_env \<Rightarrow> string \<Rightarrow> (int, 'w) sftp_call" where
  "SFTP_DirSize env dirPath =
     on_conn env ''walk failed'' (\<lambda>conn w. case sf_Walk env conn dirPath w of (steps, w1) \<Rightarrow> (walk_size steps 0, w1))"

subsection \<open>Transfers\<close>

text \<open>\<open>Download\<close> has a connection of its own, which it closes on every path after the dial.\<close>

definition SFTP_Download :: "('v, 'w) sftp_env \<Rightarrow> string \<Rightarrow> SSHClientOption \<Rightarrow> 'w \<Rightarrow> go_error option \<times> SSHClientOption \<times> 'w" where
  "SFTP_Download env filePath opt w =
     (case sftp_dial env opt w of
        (Inl err, opt1, w1) \<Rightarrow> (Some err, opt1, w1)
      | (Inr conn, opt1, w1) \<Rightarrow>
          (case sf_Open env conn filePath w1 of
             (Inl err, w2) \<Rightarrow> (Some (Wrapf ''open failed'' err), opt1, sf_Close env conn w2)
           | (Inr f, w2) \<Rightarrow>
               (case sf_WriteTo env f w2 of (r, w3) \<Rightarrow> (r, opt1, sf_Close env conn (sf_FileClose env f w3)))))"

definition SFTP_Upload :: "('v, 'w) sftp_env \<Rightarrow> string \<Rightarrow> (unit, 'w) sftp_call" where
  "SFTP_Upload env destPath =
     with_conn env (\<lambda>conn opt p w.
       case sf_Create env conn destPath w of
         (Inl err, w1) \<Rightarrow> (Inl (Wrapf ''create failed'' err), opt, p, w1)
       | (Inr f, w1) \<Rightarrow>
           (case sf_ReadFrom env f w1 of
              (Some err, w2) \<Rightarrow> (Inl (Wrapf ''upload failed'' err), opt, p, sf_FileClose env f w2)
            | (None, w2) \<Rightarrow> (Inr (), opt, p, sf_FileClose env f w2)))"

subsection \<open>Text files\<close>

text \<open>
  The test on the first bytes of a file. The code compares the floating-point quotient of two numbers up to
  512 with \<open>0.1\<close>; a quotient above one tenth exceeds it by more than \<open>1 / 5120\<close>, and one tenth itself rounds
  to the same number as the literal, so the test is the one on integers.
\<close>

definition non_printable :: "char \<Rightarrow> bool" where
  "non_printable c \<longleftrightarrow> (let b = of_char c :: nat in b < 9 \<or> (b > 13 \<and> b < 32) \<or> b = 127)"

definition text_sample :: "bytes \<Rightarrow> bool" where
  "text_sample buf =
     (if list_ex (\<lambda>c. c = CHR 0x00) buf then False
      else if 0 < length buf \<and> 10 * length (filter non_printable buf) > length buf then False
      else True)"

definition SFTP_IsTextFile :: "('v, 'w) sftp_env \<Rightarrow> string \<Rightarrow> (bool, 'w) sftp_call" where
  "SFTP_IsTextFile env filePath =
     with_conn env (\<lambda>conn opt p w.
       case sf_Open env conn filePath w of
         (Inl err, w1) \<Rightarrow> (Inl (Wrapf ''open failed'' err), opt, p, w1)
       | (Inr f, w1) \<Rightarrow>
           (case sf_FileRead env f 512 w1 of
              ((buf, err), w2) \<Rightarrow>
                let w3 = sf_FileClose env f w2
                in case err of
                     Some e \<Rightarrow> if buf = [] then (Inl (Wrapf ''read failed'' e), opt, p, w3)
                               else (Inr (text_sample buf), opt, p, w3)
                   | None \<Rightarrow> (Inr (text_sample buf), opt, p, w3)))"

subsection \<open>Moving\<close>

definition SFTP_Move :: "('v, 'w) sftp_env \<Rightarrow> string \<Rightarrow> string \<Rightarrow> bool \<Rightarrow> (unit, 'w) sftp_call" where
  "SFTP_Move env srcPath dstPath overwrite =
     with_conn env (\<lambda>conn opt p w.
       case sf_Stat env conn dstPath w of
         (Inl _, w1) \<Rightarrow> guarded env ''move failed'' (no_result (sf_Rename env conn srcPath dstPath)) opt p w1
       | (Inr info, w1) \<Rightarrow>
           if \<not> overwrite then (Inl (Errorf (''destination exists: '' @ dstPath)), opt, p, w1)
           else let dst = (if st_IsDir info then filepath_Join [dstPath, filepath_Base srcPath] else dstPath)
                in case guarded env ''remove of destination failed'' (no_result (sf_Remove env conn dst)) opt p w1 of
                     (Inl err, s) \<Rightarrow> (Inl err, s)
                   | (Inr _, opt1, p1, w2) \<Rightarrow>
                       guarded env ''move failed'' (no_result (sf_Rename env conn srcPath dst)) opt1 p1 w2)"

subsection \<open>Lemmas: the pool after an operation\<close>

lemma lookup_delete: "pool_lookup key' (pool_delete key p) = (if key' = key then None else pool_lookup key' p)"
proof -
  have "map_of (filter (\<lambda>(k, _). k \<noteq> key) es) key' = (if key' = key then None else map_of es key')"
    for es :: "(string \<times> sftpEntry) list"
    by (induction es) auto
  then show ?thesis by (simp add: pool_lookup_def pool_delete_def)
qed

lemma lookup_touch:
  "map_option en_conn (pool_lookup key' (pool_touch key e now p)) = map_option en_conn (pool_lookup key' p)"
proof -
  have "map_option en_conn (map_of (map (\<lambda>(k, x). (k, if k = key then x\<lparr>en_lastUsed := now\<rparr> else x)) es) key') =
      map_option en_conn (map_of es key')" for es :: "(string \<times> sftpEntry) list"
    by (induction es) auto
  then show ?thesis by (simp add: pool_touch_def pool_lookup_def split: option.split)
qed

lemma getConn_dial_pool:
  assumes "getConn_dial env key opt p w = (r, opt1, p1, w1)" "pool_lookup key p = None"
  shows "map_option en_conn (pool_lookup key p1) = (case r of Inl _ \<Rightarrow> None | Inr conn \<Rightarrow> Some conn)"
    "key' \<noteq> key \<Longrightarrow> pool_lookup key' p1 = pool_lookup key' p"
    "opt1 = with_port opt"
proof -
  have "opt1 = fst (snd (sftp_dial env opt w))"
    using assms(1) by (auto simp: getConn_dial_def split: prod.splits sum.splits option.splits)
  also have "\<dots> = fst (snd (NewSSHClient (sf_ssh env) opt w))"
    by (auto simp: sftp_dial_def split: prod.splits sum.splits)
  finally show "opt1 = with_port opt" by (simp add: NewSSHClient_option)
  show "map_option en_conn (pool_lookup key p1) = (case r of Inl _ \<Rightarrow> None | Inr conn \<Rightarrow> Some conn)"
    "key' \<noteq> key \<Longrightarrow> pool_lookup key' p1 = pool_lookup key' p"
    using assms by (auto simp: getConn_dial_def pool_insert_def pool_lookup_def split: prod.splits sum.splits option.splits)
qed

text \<open>After \<open>getConn\<close> the pool has the returned connection under the key, and none when it failed.\<close>

lemma getConn_pool:
  assumes "getConn env opt p w = (r, opt1, p1, w1)"
  shows "map_option en_conn (pool_lookup (connKey opt) p1) = (case r of Inl _ \<Rightarrow> None | Inr conn \<Rightarrow> Some conn)"
    "key' \<noteq> connKey opt \<Longrightarrow> map_option en_conn (pool_lookup key' p1) = map_option en_conn (pool_lookup key' p)"
    "opt1 = opt \<or> opt1 = with_port opt"
proof -
  have "map_option en_conn (pool_lookup (connKey opt) p1) = (case r of Inl _ \<Rightarrow> None | Inr conn \<Rightarrow> Some conn)
      \<and> (key' \<noteq> connKey opt \<longrightarrow> map_option en_conn (pool_lookup key' p1) = map_option en_conn (pool_lookup key' p))
      \<and> (opt1 = opt \<or> opt1 = with_port opt)"
  proof (cases "pool_lookup (connKey opt) p")
    case None
    then have d: "getConn_dial env (connKey opt) opt p w = (r, opt1, p1, w1)" using assms by (simp add: getConn_def)
    from getConn_dial_pool [OF d None] show ?thesis by auto
  next
    case (Some e)
    obtain g v where g: "sf_Getwd env (en_conn e) w = (g, v)" by fastforce
    show ?thesis
    proof (cases g)
      case (Inr wd)
      then show ?thesis using assms Some g lookup_touch [of _ "connKey opt" e "sf_Now env v" p] by (auto simp: getConn_def)
    next
      case (Inl err)
      have drop: "pool_drop (connKey opt) e p = (True, pool_delete (connKey opt) p)" using Some by (simp add: pool_drop_def)
      have d: "getConn_dial env (connKey opt) opt (pool_delete (connKey opt) p) (sf_Close env (en_conn e) v) = (r, opt1, p1, w1)"
        using assms Some g Inl drop by (simp add: getConn_def Let_def)
      from getConn_dial_pool [OF d] lookup_delete [of _ "connKey opt" p] show ?thesis by auto
    qed
  qed
  then show "map_option en_conn (pool_lookup (connKey opt) p1) = (case r of Inl _ \<Rightarrow> None | Inr conn \<Rightarrow> Some conn)"
    "key' \<noteq> connKey opt \<Longrightarrow> map_option en_conn (pool_lookup key' p1) = map_option en_conn (pool_lookup key' p)"
    "opt1 = opt \<or> opt1 = with_port opt" by auto
qed

lemma invalidate_pool: "pool_lookup key (fst (invalidate env opt p w)) = (if key = connKey opt then None else pool_lookup key p)"
  by (auto simp: invalidate_def pool_invalidate_def lookup_delete split: option.splits)

definition pooled :: "SSHClientOption \<Rightarrow> SFTPClient \<Rightarrow> SFTPClient \<Rightarrow> 'r go_result \<Rightarrow> bool" where
  "pooled opt p p1 r \<longleftrightarrow>
     (pool_lookup (connKey opt) p1 = None \<longleftrightarrow> (\<exists>err. r = Inl err))
     \<and> (\<forall>key. key \<noteq> connKey opt \<longrightarrow> map_option en_conn (pool_lookup key p1) = map_option en_conn (pool_lookup key p))"

lemma with_guarded_pool:
  assumes port: "CHR '':'' \<in> set (opt_Addr opt)"
    and run: "with_conn env (\<lambda>conn. guarded env (what conn) (req conn)) opt p w = (r, opt1, p1, w1)"
  shows "opt1 = opt \<and> pooled opt p p1 r"
proof -
  obtain g o2 p2 w2 where g: "getConn env opt p w = (g, o2, p2, w2)" by (metis prod.exhaust)
  note gp = getConn_pool [OF g]
  have o2: "o2 = opt" using gp(3) port by (auto simp: with_port_def)
  show ?thesis
  proof (cases g)
    case (Inl err)
    then show ?thesis using run g gp(1,2) o2 by (auto simp: with_conn_def pooled_def)
  next
    case (Inr conn)
    obtain x w3 where x: "req conn w2 = (x, w3)" by fastforce
    show ?thesis
    proof (cases x)
      case (Inl err)
      then have "r = Inl (Wrapf (what conn) err)" "opt1 = opt" "p1 = fst (invalidate env opt p2 w3)"
        using run g x Inr o2 by (auto simp: with_conn_def guarded_def split: prod.splits)
      then show ?thesis using gp(2) by (auto simp: pooled_def invalidate_pool)
    next
      case (Inr y)
      then have "r = Inr y" "opt1 = opt" "p1 = p2"
        using run g x \<open>g = Inr conn\<close> o2 by (auto simp: with_conn_def guarded_def)
      then show ?thesis using gp(1,2) \<open>g = Inr conn\<close> by (auto simp: pooled_def)
    qed
  qed
qed

text \<open>An operation that drops the connection on every error, and one that leaves what it got in the pool.\<close>

definition drops_on_error :: "SSHClientOption \<Rightarrow> ('r, 'w) sftp_call \<Rightarrow> bool" where
  "drops_on_error opt operation \<longleftrightarrow>
     (\<forall>p w r opt1 p1 w1. operation opt p w = (r, opt1, p1, w1) \<longrightarrow> opt1 = opt \<and> pooled opt p p1 r)"

definition keeps_connection :: "('v, 'w) sftp_env \<Rightarrow> SSHClientOption \<Rightarrow> ('r, 'w) sftp_call \<Rightarrow> bool" where
  "keeps_connection env opt operation \<longleftrightarrow>
     (\<forall>p w conn opt1 p1 w1. getConn env opt p w = (Inr conn, opt1, p1, w1) \<longrightarrow> (\<exists>r w2. operation opt p w = (r, opt1, p1, w2)))"

lemma on_conn_drops: "CHR '':'' \<in> set (opt_Addr opt) \<Longrightarrow> drops_on_error opt (on_conn env what req)"
  using with_guarded_pool [of opt env "\<lambda>_. what" req] by (auto simp: drops_on_error_def on_conn_def)

lemma Remove_on_conn:
  "SFTP_Remove env a rcv = on_conn env (if rcv then ''recursive remove failed'' else ''remove failed'')
     (\<lambda>conn. no_result (if rcv then sf_RemoveAll env conn a else sf_Remove env conn a))"
  by (simp add: SFTP_Remove_def on_conn_def)

lemmas sftp_requests = SFTP_Mkdir_def SFTP_Rename_def SFTP_PosixRename_def SFTP_Symlink_def SFTP_Link_def
  SFTP_Chmod_def SFTP_Chown_def SFTP_Chtimes_def SFTP_Truncate_def Remove_on_conn SFTP_Stat_def SFTP_Lstat_def
  SFTP_ReadLink_def SFTP_RealPath_def SFTP_StatVFS_def SFTP_Glob_def SFTP_DirSize_def

text \<open>
  C20. Which errors drop the connection. For an address with its port: when one of the seventeen single requests of
  the client (make, rename, link, remove, change and truncate; stat, links, real paths, file systems, patterns and
  sizes of trees) returns an error, no connection is left under the caller's key, so the next call dials; when it
  succeeds its connection is there; the connections of other keys stay and the caller's options are unchanged.
  \<open>Upload\<close> and \<open>IsTextFile\<close> are different on purpose: whatever they return, they leave the pool as getting the
  connection left it. \<open>List\<close>, \<open>Move\<close> and \<open>Download\<close> are not covered.
\<close>

theorem sftp_failed_request_drops:
  assumes "CHR '':'' \<in> set (opt_Addr opt)"
  shows "(\<forall>operation\<in>{SFTP_Mkdir env a, SFTP_Rename env a b, SFTP_PosixRename env a b, SFTP_Symlink env a b, SFTP_Link env a b,
      SFTP_Chmod env a m, SFTP_Chown env a i j, SFTP_Chtimes env a i j, SFTP_Truncate env a i, SFTP_Remove env a rcv}. drops_on_error opt operation)
    \<and> drops_on_error opt (SFTP_Stat env a) \<and> drops_on_error opt (SFTP_Lstat env a)
    \<and> drops_on_error opt (SFTP_ReadLink env a) \<and> drops_on_error opt (SFTP_RealPath env a)
    \<and> drops_on_error opt (SFTP_StatVFS env a) \<and> drops_on_error opt (SFTP_Glob env a) \<and> drops_on_error opt (SFTP_DirSize env a)
    \<and> keeps_connection env opt (SFTP_Upload env a) \<and> keeps_connection env opt (SFTP_IsTextFile env a)"
proof -
  have "keeps_connection env opt (SFTP_Upload env a)" "keeps_connection env opt (SFTP_IsTextFile env a)"
    by (auto simp: keeps_connection_def SFTP_Upload_def SFTP_IsTextFile_def with_conn_def Let_def
        split: sum.split prod.split option.split)
  then show ?thesis unfolding sftp_requests by (auto intro: on_conn_drops [OF assms])
qed

text \<open>A server on which every request fails, and whose connections are numbered from 7.\<close>

definition demo_sftp :: "(unit, nat) sftp_env" where
  "demo_sftp =
     \<lparr>sf_ssh = \<lparr>ssh_Dial = (\<lambda>_ _ w. (Inr w, w)), ssh_ParsePrivateKey = (\<lambda>_. Inl EOF)\<rparr>,
      sf_CloseSSH = (\<lambda>_ w. w), sf_NewClient = (\<lambda>c w. (Inr c, Suc w)), sf_Close = (\<lambda>_ w. w),
      sf_Getwd = (\<lambda>_ w. (Inr ''/'', w)), sf_ReadDir = (\<lambda>_ _ w. (Inl EOF, w)),
      sf_Stat = (\<lambda>_ _ w. (Inr \<lparr>st_Name = ''d'', st_Size = 0, st_Mode = push_bit 31 1, st_ModTime = 0\<rparr>, w)),
      sf_Lstat = (\<lambda>_ _ w. (Inl EOF, w)), sf_ReadLink = (\<lambda>_ _ w. (Inl EOF, w)), sf_RealPath = (\<lambda>_ _ w. (Inl EOF, w)),
      sf_Glob = (\<lambda>_ _ w. (Inl EOF, w)), sf_StatVFS = (\<lambda>_ _ w. (Inl EOF, w)), sf_Walk = (\<lambda>_ _ w. ([], w)),
      sf_Remove = (\<lambda>_ _ w. (Some EOF, w)), sf_RemoveAll = (\<lambda>_ _ w. (Some EOF, w)), sf_MkdirAll = (\<lambda>_ _ w. (Some EOF, w)),
      sf_Rename = (\<lambda>_ _ _ w. (Some EOF, w)), sf_PosixRename = (\<lambda>_ _ _ w. (Some EOF, w)),
      sf_Symlink = (\<lambda>_ _ _ w. (Some EOF, w)), sf_Link = (\<lambda>_ _ _ w. (Some EOF, w)), sf_Chmod = (\<lambda>_ _ _ w. (Some EOF, w)),
      sf_Chown = (\<lambda>_ _ _ _ w. (Some EOF, w)), sf_Chtimes = (\<lambda>_ _ _ _ w. (Some EOF, w)),
      sf_Truncate = (\<lambda>_ _ _ w. (Some EOF, w)), sf_Open = (\<lambda>_ _ w. (Inl EOF, w)), sf_Create = (\<lambda>_ _ w. (Inl EOF, w)),
      sf_FileClose = (\<lambda>_ w. w), sf_WriteTo = (\<lambda>_ w. (None, w)), sf_ReadFrom = (\<lambda>_ w. (None, w)),
      sf_FileRead = (\<lambda>_ _ w. (([], Some EOF), w)), sf_Now = int\<rparr>"

definition demo_opt :: "string \<Rightarrow> SSHClientOption" where
  "demo_opt addr = \<lparr>opt_Addr = addr, opt_User = ''u'', opt_Password = ''p'', opt_PrivateKey = []\<rparr>"

theorem sftp_failed_request_drops_witness:
  "\<exists>err p1 w1. SFTP_Mkdir demo_sftp ''/x'' (demo_opt ''h:22'') (NewSFTPClient 0) 7 = (Inl err, demo_opt ''h:22'', p1, w1)
     \<and> pool_lookup ''u@h:22'' p1 = None"
proof -
  obtain r o1 p1 w1 where run: "SFTP_Mkdir demo_sftp ''/x'' (demo_opt ''h:22'') (NewSFTPClient 0) 7 = (r, o1, p1, w1)"
    by (metis prod.exhaust)
  moreover have "\<exists>err. r = Inl err"
    using run by (auto simp add: SFTP_Mkdir_def on_conn_def with_conn_def getConn_def pool_lookup_def NewSFTPClient_def
        getConn_dial_def sftp_dial_def NewSSHClient_def NewSSHClientWithPassword_def with_port_def demo_sftp_def demo_opt_def
        pool_insert_def guarded_def no_result_def split: prod.splits)
  moreover have "CHR '':'' \<in> set (opt_Addr (demo_opt ''h:22''))" by (simp add: demo_opt_def)
  then have "drops_on_error (demo_opt ''h:22'') (SFTP_Mkdir demo_sftp ''/x'')"
    using sftp_failed_request_drops [of "demo_opt ''h:22''" demo_sftp "''/x''"] by blast
  then have "o1 = demo_opt ''h:22'' \<and> pooled (demo_opt ''h:22'') (NewSFTPClient 0) p1 r"
    using run unfolding drops_on_error_def by blast
  ultimately show ?thesis by (auto simp: pooled_def demo_opt_def connKey_def)
qed

text \<open>
  Without a port in the address the drop misses: the first call takes the key from the address as
  given, then the dial completes the address in the caller's options, so the drop after a failed request
  looks under another key and the failed connection stays in the pool.
\<close>

theorem sftp_portless_drop_misses:
  assumes "CHR '':'' \<notin> set (opt_Addr opt)" and "pool_lookup (connKey opt) p = None"
    and "sftp_dial env opt w = (Inr conn, opt', w')" and "sf_MkdirAll env conn d w' = (Some err, w1)"
  shows "\<exists>p1 w2. SFTP_Mkdir env d opt p w = (Inl (Wrapf ''mkdir failed'' err), with_port opt, p1, w2)
    \<and> map_option en_conn (pool_lookup (connKey opt) p1) = Some conn"
proof -
  obtain p2 where ins: "pool_insert (connKey opt) conn (sf_Now env w') p = (None, p2)"
      "map_option en_conn (pool_lookup (connKey opt) p2) = Some conn"
    using assms(2) by (auto simp: pool_insert_def pool_lookup_def)
  have g: "getConn env opt p w = (Inr conn, opt', p2, w')"
    using assms(2,3) ins(1) by (simp add: getConn_def getConn_dial_def)
  have opt': "opt' = with_port opt"
    using getConn_dial_pool(3) [of env "connKey opt" opt p w] assms(2,3) ins(1) by (simp add: getConn_dial_def)
  have key: "connKey (with_port opt) \<noteq> connKey opt"
    using assms(1) by (simp add: connKey_def with_port_def)
  obtain p1 w2 where inv: "invalidate env (with_port opt) p2 w1 = (p1, w2)" by fastforce
  then have "pool_lookup (connKey opt) p1 = pool_lookup (connKey opt) p2"
    using invalidate_pool [of "connKey opt" env "with_port opt" p2 w1] key by simp
  moreover have "SFTP_Mkdir env d opt p w = (Inl (Wrapf ''mkdir failed'' err), with_port opt, p1, w2)"
    using g opt' inv assms(4) by (simp add: SFTP_Mkdir_def on_conn_def with_conn_def guarded_def no_result_def)
  ultimately show ?thesis using ins(2) by simp
qed

theorem sftp_portless_drop_misses_witness:
  "\<exists>p1 w2. SFTP_Mkdir demo_sftp ''/x'' (demo_opt ''h'') (NewSFTPClient 0) 7 =
       (Inl (Wrapf ''mkdir failed'' EOF), demo_opt ''h:22'', p1, w2)
     \<and> map_option en_conn (pool_lookup ''u@h'' p1) = Some 7"
proof -
  have "sftp_dial demo_sftp (demo_opt ''h'') 7 = (Inr 7, demo_opt ''h:22'', 8)"
    by (simp add: sftp_dial_def NewSSHClient_def NewSSHClientWithPassword_def with_port_def demo_sftp_def demo_opt_def)
  from sftp_portless_drop_misses [OF _ _ this, of "NewSFTPClient 0" "''/x''" EOF 8] show ?thesis
    by (simp add: demo_opt_def NewSFTPClient_def pool_lookup_def demo_sftp_def connKey_def with_port_def)
qed

text \<open>
  \<open>Move\<close> with overwriting never moves anything into an existing directory: it removes the path it would
  move to, and a path that does not exist cannot be removed, so the call fails before the rename.
\<close>

theorem sftp_Move_into_directory_fails:
  assumes "getConn env opt p w = (Inr conn, opt1, p1, w1)" and "sf_Stat env conn dst w1 = (Inr info, w2)" and "st_IsDir info"
    and "sf_Remove env conn (filepath_Join [dst, filepath_Base src]) w2 = (Some err, w3)"
  shows "\<exists>p2 w4. SFTP_Move env src dst True opt p w = (Inl (Wrapf ''remove of destination failed'' err), opt1, p2, w4)
    \<and> (p2, w4) = invalidate env opt1 p1 w3"
proof -
  obtain p2 w4 where inv: "invalidate env opt1 p1 w3 = (p2, w4)" by fastforce
  have "SFTP_Move env src dst True opt p w = (Inl (Wrapf ''remove of destination failed'' err), opt1, p2, w4)"
    using assms inv by (simp add: SFTP_Move_def with_conn_def guarded_def no_result_def)
  with inv show ?thesis by simp
qed

theorem sftp_Move_into_directory_fails_witness:
  "\<exists>p2 w4. SFTP_Move demo_sftp ''/a/f'' ''/d'' True (demo_opt ''h:22'') (NewSFTPClient 0) 7 =
     (Inl (Wrapf ''remove of destination failed'' EOF), demo_opt ''h:22'', p2, w4)"
proof -
  obtain p1 where g: "getConn demo_sftp (demo_opt ''h:22'') (NewSFTPClient 0) 7 = (Inr 7, demo_opt ''h:22'', p1, 8)"
    by (simp add: getConn_def pool_lookup_def NewSFTPClient_def getConn_dial_def sftp_dial_def NewSSHClient_def
        NewSSHClientWithPassword_def with_port_def demo_sftp_def demo_opt_def pool_insert_def)
  let ?dir = "\<lparr>st_Name = ''d'', st_Size = 0, st_Mode = push_bit 31 1, st_ModTime = 0\<rparr>"
  have st: "sf_Stat demo_sftp 7 ''/d'' 8 = (Inr ?dir, 8)" "sf_Remove demo_sftp 7 x 8 = (Some EOF, 8)" for x
    by (simp_all add: demo_sftp_def)
  have dir: "st_IsDir ?dir" by (simp add: st_IsDir_def mode_bit_def)
  from sftp_Move_into_directory_fails [OF g st(1) dir st(2)] show ?thesis by blast
qed

end
