(* ===== verification/Certify.thy ===== *)
theory Certify
  imports Go_Prelude
begin

text \<open>
  The certificate manager (src/certify/manager.go, cert.go, challenge.go and pem.go): the account, the cached
  certificates, HTTP-01 and DNS-01 orders. The ACME client, autocert, libdns, the X.509 routines, the PEM
  codec and the clock are the environment: each call is an action that the environment answers, and the
  answer may depend on every action before it, so a run is the trace of its actions. What the code starts in
  a goroutine is an action of its own (\<open>GoDeleteRecords\<close>, \<open>GoSaveCert\<close>).
\<close>

subsection \<open>Data\<close>

record txt_record =
  tx_Name :: string
  tx_Text :: string

record acme_Challenge =
  ch_Type :: string
  ch_Token :: string

record acme_Authz =
  az_URI :: string
  az_Status :: string
  az_Identifier :: string
  az_Challenges :: "acme_Challenge list"

record acme_Order =
  or_URI :: string
  or_AuthzURLs :: "string list"
  or_FinalizeURL :: string

record 'k acme_Client =
  cl_Key :: 'k
  cl_DirectoryURL :: string

record ('k, 'l) tls_Certificate =
  tc_PrivateKey :: 'k
  tc_Certificate :: "bytes list"
  tc_Leaf :: "'l option"

record pem_Block =
  pb_Type :: string
  pb_Bytes :: bytes

text \<open>The data of an event: the domains, and an error text or an expiry time.\<close>

datatype event_detail = NoDetail | EventError go_error | EventExpires int

datatype cert_action =
    CacheGet string
  | CachePut string bytes
  | GenerateKey
  | Register string string
  | Authorize string
  | AuthorizeOrder "string list"
  | GetAuthorization string
  | Accept acme_Challenge
  | WaitAuthorization string
  | WaitOrder string
  | CreateCSR "string list"
  | CreateOrderCert string bytes
  | RevokeAtCA bytes
  | DeleteRecords string "txt_record list"
  | AppendRecords string "txt_record list"
  | Sleep int
  | Event string "string list" event_detail
  | GoDeleteRecords string "txt_record list"
  | GoSaveCert "string list" bytes

type_synonym cert_trace = "cert_action list"

text \<open>\<open>m.Manager\<close>'s fields that the code reads; \<open>mg_Client\<close> is the directory of its client, if it has one.\<close>

record cert_Manager =
  mg_Email :: string
  mg_Cache :: bool
  mg_Client :: "string option"
  mg_DNSProvider :: bool
  mg_OnEvent :: bool

definition certify_New :: "string \<Rightarrow> bool \<Rightarrow> cert_Manager" where
  "certify_New email cache =
     \<lparr>mg_Email = email, mg_Cache = cache, mg_Client = None, mg_DNSProvider = False, mg_OnEvent = False\<rparr>"

definition acme_directories :: "(string \<times> string) list" where
  "acme_directories =
     [(''LetsEncryptStaging'', ''https://acme-staging-v02.api.letsencrypt.org/directory''),
      (''LetsEncryptProduction'', ''https://acme-v02.api.letsencrypt.org/directory''),
      (''Buypass'', ''https://api.buypass.com/acme/directory''),
      (''ZeroSSL'', ''https://acme.zerossl.com/v2/DV90''),
      (''Google'', ''https://dv.acme-v02.api.pki.goog/directory'')]"

definition NewWithDirectory :: "string \<Rightarrow> bool \<Rightarrow> string \<Rightarrow> cert_Manager" where
  "NewWithDirectory email cache directoryURL = (certify_New email cache)\<lparr>mg_Client := Some directoryURL\<rparr>"

text \<open>
  The environment. \<open>ce_StatusCode\<close> is the assertion to \<open>*acme.Error\<close>; \<open>ce_ParsePKCS8\<close> answers
  \<^term>\<open>Inr None\<close> for a key that is no \<open>crypto.Signer\<close>; \<open>ce_zones\<close> is the order in which a range over a map
  visits the keys it was given.
\<close>

record ('k, 'l) cert_env =
  ce_DefaultDirectory :: string
  ce_StatusCode :: "go_error \<Rightarrow> int option"
  ce_GenerateKey :: "cert_trace \<Rightarrow> 'k go_result"
  ce_Register :: "cert_trace \<Rightarrow> 'k acme_Client \<Rightarrow> go_error option"
  ce_Authorize :: "cert_trace \<Rightarrow> string \<Rightarrow> acme_Authz go_result"
  ce_AuthorizeOrder :: "cert_trace \<Rightarrow> string list \<Rightarrow> acme_Order go_result"
  ce_GetAuthorization :: "cert_trace \<Rightarrow> string \<Rightarrow> acme_Authz go_result"
  ce_Accept :: "cert_trace \<Rightarrow> acme_Challenge \<Rightarrow> go_error option"
  ce_WaitAuthorization :: "cert_trace \<Rightarrow> string \<Rightarrow> go_error option"
  ce_WaitOrder :: "cert_trace \<Rightarrow> string \<Rightarrow> acme_Order go_result"
  ce_CSR :: "cert_trace \<Rightarrow> string list \<Rightarrow> 'k \<Rightarrow> bytes go_result"
  ce_CreateOrderCert :: "cert_trace \<Rightarrow> string \<Rightarrow> bytes \<Rightarrow> bytes list go_result"
  ce_Revoke :: "cert_trace \<Rightarrow> bytes \<Rightarrow> go_error option"
  ce_DNS01Record :: "'k \<Rightarrow> string \<Rightarrow> string go_result"
  ce_AppendRecords :: "cert_trace \<Rightarrow> string \<Rightarrow> txt_record list \<Rightarrow> go_error option"
  ce_CacheGet :: "cert_trace \<Rightarrow> string \<Rightarrow> bytes go_result"
  ce_zones :: "cert_trace \<Rightarrow> string list \<Rightarrow> string list"
  ce_now :: "cert_trace \<Rightarrow> int"
  ce_NotAfter :: "'l \<Rightarrow> int"
  ce_VerifyHostname :: "'l \<Rightarrow> string \<Rightarrow> go_error option"
  ce_ParseCertificate :: "bytes \<Rightarrow> 'l go_result"
  ce_X509KeyPair :: "bytes \<Rightarrow> bytes \<Rightarrow> ('k, 'l) tls_Certificate go_result"
  ce_MarshalEC :: "'k \<Rightarrow> bytes go_result"
  ce_ParseEC :: "bytes \<Rightarrow> 'k go_result"
  ce_ParsePKCS8 :: "bytes \<Rightarrow> 'k option go_result"
  ce_IsECDSA :: "'k \<Rightarrow> bool"
  ce_pem_Encode :: "pem_Block \<Rightarrow> bytes"
  ce_pem_Decode :: "bytes \<Rightarrow> pem_Block option \<times> bytes"

text \<open>The state of a run: the client that \<open>getClient\<close> keeps, and the actions so far.\<close>

record 'k cert_world =
  cw_client :: "'k acme_Client option"
  cw_trace :: cert_trace

type_synonym ('a, 'k) cert_op = "'k cert_world \<Rightarrow> 'a go_result \<times> 'k cert_world"

definition act :: "cert_action \<Rightarrow> (cert_trace \<Rightarrow> 'a go_result) \<Rightarrow> ('a, 'k) cert_op" where
  "act a answer w = (answer (cw_trace w), w\<lparr>cw_trace := cw_trace w @ [a]\<rparr>)"

definition ret :: "'a go_result \<Rightarrow> ('a, 'k) cert_op" where
  "ret r w = (r, w)"

definition bnd :: "('a, 'k) cert_op \<Rightarrow> ('a \<Rightarrow> ('b, 'k) cert_op) \<Rightarrow> ('b, 'k) cert_op" where
  "bnd x k w = (case x w of (Inl e, w1) \<Rightarrow> (Inl e, w1) | (Inr a, w1) \<Rightarrow> k a w1)"

text \<open>An operation whose error the code looks at; a panic is no error value and ends the caller too.\<close>

definition attempt :: "('a, 'k) cert_op \<Rightarrow> ('a go_result \<Rightarrow> ('b, 'k) cert_op) \<Rightarrow> ('b, 'k) cert_op" where
  "attempt x k w = (case x w of (Inl (Panic s), w1) \<Rightarrow> (Inl (Panic s), w1) | (r, w1) \<Rightarrow> k r w1)"

fun unit_result :: "go_error option \<Rightarrow> unit go_result" where
  "unit_result None = Inr ()"
| "unit_result (Some e) = Inl e"

definition ErrNoDomains :: go_error where "ErrNoDomains = Errorf ''no domains specified''"
definition ErrNoDNSProvider :: go_error where "ErrNoDNSProvider = Errorf ''DNS provider required for DNS-01 challenge''"
definition ErrNoDNSChallenge :: go_error where "ErrNoDNSChallenge = Errorf ''no dns-01 challenge''"
definition ErrNoChallenge :: go_error where "ErrNoChallenge = Errorf ''no supported challenge''"
definition ErrCacheMiss :: go_error where "ErrCacheMiss = Errorf ''acme/autocert: certificate cache miss''"
definition ErrAccountAlreadyExists :: go_error where "ErrAccountAlreadyExists = Errorf ''acme: account already exists''"
definition nil_panic :: go_error where "nil_panic = Panic ''invalid memory address or nil pointer dereference''"

subsection \<open>PEM files\<close>

definition keyToPEM :: "('k, 'l) cert_env \<Rightarrow> 'k \<Rightarrow> bytes go_result" where
  "keyToPEM env key =
     (case ce_MarshalEC env key of
        Inl e \<Rightarrow> Inl e
      | Inr b \<Rightarrow> Inr (ce_pem_Encode env \<lparr>pb_Type = ''EC PRIVATE KEY'', pb_Bytes = b\<rparr>))"

definition keyFromPEM :: "('k, 'l) cert_env \<Rightarrow> bytes \<Rightarrow> 'k go_result" where
  "keyFromPEM env data =
     (case fst (ce_pem_Decode env data) of
        None \<Rightarrow> Inl (Errorf ''invalid PEM'')
      | Some block \<Rightarrow>
          (case ce_ParseEC env (pb_Bytes block) of
             Inr key \<Rightarrow> Inr key
           | Inl _ \<Rightarrow>
               (case ce_ParsePKCS8 env (pb_Bytes block) of
                  Inr (Some key) \<Rightarrow> Inr key
                | Inr None \<Rightarrow> Inl (Panic ''interface conversion'')
                | Inl _ \<Rightarrow> Inl (Errorf ''invalid private key''))))"

text \<open>An error of marshalling the key is dropped: the block is then written with no bytes.\<close>

definition certToPEM :: "('k, 'l) cert_env \<Rightarrow> ('k, 'l) tls_Certificate \<Rightarrow> bytes" where
  "certToPEM env cert =
     (if ce_IsECDSA env (tc_PrivateKey cert)
      then ce_pem_Encode env
             \<lparr>pb_Type = ''EC PRIVATE KEY'',
              pb_Bytes = (case ce_MarshalEC env (tc_PrivateKey cert) of Inl _ \<Rightarrow> [] | Inr b \<Rightarrow> b)\<rparr>
      else []) @
     concat (map (\<lambda>b. ce_pem_Encode env \<lparr>pb_Type = ''CERTIFICATE'', pb_Bytes = b\<rparr>) (tc_Certificate cert))"

text \<open>
  The loop over the blocks of a file; each block takes at least one byte, so \<open>Suc (length data)\<close> turns are
  enough. The last key counts, the certificates are collected.
\<close>

fun pem_collect :: "('k, 'l) cert_env \<Rightarrow> nat \<Rightarrow> bytes \<Rightarrow> bytes \<times> bytes \<Rightarrow> bytes \<times> bytes" where
  "pem_collect env 0 data acc = acc"
| "pem_collect env (Suc n) data (keyPEM, certPEM) =
     (case ce_pem_Decode env data of
        (None, rest) \<Rightarrow> (keyPEM, certPEM)
      | (Some block, rest) \<Rightarrow>
          pem_collect env n rest
            (if pb_Type block \<in> {''EC PRIVATE KEY'', ''RSA PRIVATE KEY'', ''PRIVATE KEY''}
             then (ce_pem_Encode env block, certPEM)
             else if pb_Type block = ''CERTIFICATE'' then (keyPEM, certPEM @ ce_pem_Encode env block)
             else (keyPEM, certPEM)))"

definition tlsCertFromPEM :: "('k, 'l) cert_env \<Rightarrow> bytes \<Rightarrow> ('k, 'l) tls_Certificate go_result" where
  "tlsCertFromPEM env data =
     (case pem_collect env (Suc (length data)) data ([], []) of
        (keyPEM, certPEM) \<Rightarrow>
          if keyPEM = [] \<or> certPEM = [] then Inl (Errorf ''missing key or certificate'')
          else case ce_X509KeyPair env certPEM keyPEM of
                 Inl e \<Rightarrow> Inl e
               | Inr cert \<Rightarrow>
                   (if tc_Leaf cert = None
                    then case tc_Certificate cert of
                           [] \<Rightarrow> Inl (Panic ''index out of range'')
                         | der # _ \<Rightarrow>
                             (case ce_ParseCertificate env der of
                                Inl e \<Rightarrow> Inl e
                              | Inr leaf \<Rightarrow> Inr (cert\<lparr>tc_Leaf := Some leaf\<rparr>))
                    else Inr cert))"

subsection \<open>Helpers\<close>

definition isWildcard :: "string \<Rightarrow> bool" where
  "isWildcard domain \<longleftrightarrow> length domain > 2 \<and> domain ! 0 = CHR ''*'' \<and> domain ! 1 = CHR ''.''"

fun findChallenge :: "acme_Challenge list \<Rightarrow> string \<Rightarrow> acme_Challenge option" where
  "findChallenge [] challengeType = None"
| "findChallenge (c # cs) challengeType = (if ch_Type c = challengeType then Some c else findChallenge cs challengeType)"

definition extractZoneAndRecordName :: "string \<Rightarrow> string \<times> string" where
  "extractZoneAndRecordName domain =
     (let parts = strings_Split (CHR ''.'') domain; n = length parts
      in if n \<le> 2 then (domain, ''_acme-challenge'')
         else (strings_Join ''.'' (drop (n - 2) parts), ''_acme-challenge.'' @ strings_Join ''.'' (take (n - 2) parts)))"

definition isAccountExists :: "('k, 'l) cert_env \<Rightarrow> go_error \<Rightarrow> bool" where
  "isAccountExists env err \<longleftrightarrow> err = ErrAccountAlreadyExists \<or> ce_StatusCode env err = Some 409"

definition certContainsAll :: "('k, 'l) cert_env \<Rightarrow> ('k, 'l) tls_Certificate \<Rightarrow> string list \<Rightarrow> bool" where
  "certContainsAll env cert domains =
     (case tc_Leaf cert of
        None \<Rightarrow> False
      | Some leaf \<Rightarrow> list_all (\<lambda>d. ce_VerifyHostname env leaf d = None) domains)"

text \<open>Thirty days, in the nanoseconds of \<open>time.Duration\<close>.\<close>

definition renew_before :: int where
  "renew_before = 30 * 24 * 3600 * 1000000000"

definition isCertExpired :: "('k, 'l) cert_env \<Rightarrow> int \<Rightarrow> ('k, 'l) tls_Certificate \<Rightarrow> bool" where
  "isCertExpired env now cert =
     (case tc_Leaf cert of None \<Rightarrow> True | Some leaf \<Rightarrow> now + renew_before > ce_NotAfter env leaf)"

definition emitEvent :: "cert_Manager \<Rightarrow> string \<Rightarrow> string list \<Rightarrow> event_detail \<Rightarrow> (unit, 'k) cert_op" where
  "emitEvent m event domains detail =
     (if mg_OnEvent m then act (Event event domains detail) (\<lambda>_. Inr ()) else ret (Inr ()))"

definition loadCert :: "('k, 'l) cert_env \<Rightarrow> cert_Manager \<Rightarrow> string \<Rightarrow> (('k, 'l) tls_Certificate, 'k) cert_op" where
  "loadCert env m domain =
     (if \<not> mg_Cache m then ret (Inl nil_panic)
      else bnd (act (CacheGet (domain @ ''.crt'')) (\<lambda>tr. ce_CacheGet env tr (domain @ ''.crt'')))
             (\<lambda>data. ret (tlsCertFromPEM env data)))"

text \<open>What the goroutine of \<open>createCert\<close> does when it runs; the errors of the cache are ignored.\<close>

fun put_each :: "string list \<Rightarrow> bytes \<Rightarrow> (unit, 'k) cert_op" where
  "put_each [] data = ret (Inr ())"
| "put_each (domain # domains) data = bnd (act (CachePut (domain @ ''.crt'') data) (\<lambda>_. Inr ())) (\<lambda>_. put_each domains data)"

definition saveCert :: "('k, 'l) cert_env \<Rightarrow> string list \<Rightarrow> ('k, 'l) tls_Certificate \<Rightarrow> (unit, 'k) cert_op" where
  "saveCert env domains cert = put_each domains (certToPEM env cert)"

subsection \<open>The account\<close>

definition accountKey :: "('k, 'l) cert_env \<Rightarrow> cert_Manager \<Rightarrow> ('k, 'k) cert_op" where
  "accountKey env m =
     (if \<not> mg_Cache m then act GenerateKey (ce_GenerateKey env)
      else attempt (act (CacheGet ''account.key'') (\<lambda>tr. ce_CacheGet env tr ''account.key''))
             (\<lambda>r. case r of
                    Inl e \<Rightarrow>
                      if e = ErrCacheMiss
                      then bnd (act GenerateKey (ce_GenerateKey env))
                             (\<lambda>key. case keyToPEM env key of
                                      Inl e \<Rightarrow> ret (Inl e)
                                    | Inr buf \<Rightarrow>
                                        bnd (act (CachePut ''account.key'' buf) (\<lambda>_. Inr ())) (\<lambda>_. ret (Inr key)))
                      else ret (Inl e)
                  | Inr data \<Rightarrow> ret (keyFromPEM env data)))"

definition new_client :: "('k, 'l) cert_env \<Rightarrow> cert_Manager \<Rightarrow> 'k \<Rightarrow> 'k acme_Client" where
  "new_client env m key =
     \<lparr>cl_Key = key,
      cl_DirectoryURL =
        (case mg_Client m of Some u \<Rightarrow> if u \<noteq> [] then u else ce_DefaultDirectory env | None \<Rightarrow> ce_DefaultDirectory env)\<rparr>"

text \<open>\<open>getClient\<close> holds the manager's lock from its first to its last line.\<close>

definition keep_client :: "'k acme_Client \<Rightarrow> ('k acme_Client, 'k) cert_op" where
  "keep_client client w = (Inr client, w\<lparr>cw_client := Some client\<rparr>)"

definition getClient :: "('k, 'l) cert_env \<Rightarrow> cert_Manager \<Rightarrow> ('k acme_Client, 'k) cert_op" where
  "getClient env m w =
     (case cw_client w of
        Some client \<Rightarrow> (Inr client, w)
      | None \<Rightarrow>
          bnd (accountKey env m)
            (\<lambda>key. let client = new_client env m key
                   in attempt (act (Register (cl_DirectoryURL client) (''mailto:'' @ mg_Email m)) (\<lambda>tr. unit_result (ce_Register env tr client)))
                        (\<lambda>r. case r of
                               Inl err \<Rightarrow> if isAccountExists env err then keep_client client else ret (Inl err)
                             | Inr _ \<Rightarrow> keep_client client)) w)"

subsection \<open>Certificates from an order\<close>

definition createCert :: "('k, 'l) cert_env \<Rightarrow> cert_Manager \<Rightarrow> acme_Order \<Rightarrow> string list \<Rightarrow> (('k, 'l) tls_Certificate, 'k) cert_op" where
  "createCert env m order domains =
     bnd (act GenerateKey (ce_GenerateKey env))
       (\<lambda>key. if domains = [] then ret (Inl (Panic ''index out of range''))
        else bnd (act (CreateCSR domains) (\<lambda>tr. ce_CSR env tr domains key))
          (\<lambda>csr. bnd (act (CreateOrderCert (or_FinalizeURL order) csr) (\<lambda>tr. ce_CreateOrderCert env tr (or_FinalizeURL order) csr))
             (\<lambda>der. if der = [] then ret (Inl (Panic ''index out of range''))
              else case ce_ParseCertificate env (hd der) of
                     Inl e \<Rightarrow> ret (Inl e)
                   | Inr leaf \<Rightarrow>
                       let cert = \<lparr>tc_PrivateKey = key, tc_Certificate = der, tc_Leaf = Some leaf\<rparr>
                       in bnd (if mg_Cache m then act (GoSaveCert domains (certToPEM env cert)) (\<lambda>_. Inr ()) else ret (Inr ()))
                            (\<lambda>_. ret (Inr cert)))))"

definition createCertFromAuthz :: "('k, 'l) cert_env \<Rightarrow> cert_Manager \<Rightarrow> string \<Rightarrow> (('k, 'l) tls_Certificate, 'k) cert_op" where
  "createCertFromAuthz env m domain =
     bnd (act (AuthorizeOrder [domain]) (\<lambda>tr. ce_AuthorizeOrder env tr [domain]))
       (\<lambda>order. bnd (act (WaitOrder (or_URI order)) (\<lambda>tr. ce_WaitOrder env tr (or_URI order)))
          (\<lambda>order. createCert env m order [domain]))"

definition accept_challenge :: "('k, 'l) cert_env \<Rightarrow> acme_Challenge \<Rightarrow> (unit, 'k) cert_op" where
  "accept_challenge env chal = act (Accept chal) (\<lambda>tr. unit_result (ce_Accept env tr chal))"

definition solveChallenge :: "('k, 'l) cert_env \<Rightarrow> acme_Authz \<Rightarrow> (unit, 'k) cert_op" where
  "solveChallenge env authz =
     (case (case findChallenge (az_Challenges authz) ''http-01'' of
              None \<Rightarrow> findChallenge (az_Challenges authz) ''tls-alpn-01''
            | Some chal \<Rightarrow> Some chal) of
        None \<Rightarrow> ret (Inl ErrNoChallenge)
      | Some chal \<Rightarrow>
          bnd (accept_challenge env chal)
            (\<lambda>_. act (WaitAuthorization (az_URI authz)) (\<lambda>tr. unit_result (ce_WaitAuthorization env tr (az_URI authz)))))"

text \<open>A step whose error is reported by a \<open>failed\<close> event.\<close>

definition or_failed :: "cert_Manager \<Rightarrow> string list \<Rightarrow> ('a, 'k) cert_op \<Rightarrow> ('a \<Rightarrow> ('b, 'k) cert_op) \<Rightarrow> ('b, 'k) cert_op" where
  "or_failed m domains x k =
     attempt x (\<lambda>r. case r of
                      Inl e \<Rightarrow> bnd (emitEvent m ''failed'' domains (EventError e)) (\<lambda>_. ret (Inl e))
                    | Inr a \<Rightarrow> k a)"

definition report_obtained :: "('k, 'l) cert_env \<Rightarrow> cert_Manager \<Rightarrow> string list \<Rightarrow> ('k, 'l) tls_Certificate \<Rightarrow> (('k, 'l) tls_Certificate, 'k) cert_op" where
  "report_obtained env m domains cert =
     (case tc_Leaf cert of
        None \<Rightarrow> ret (Inl nil_panic)
      | Some leaf \<Rightarrow> bnd (emitEvent m ''obtained'' domains (EventExpires (ce_NotAfter env leaf))) (\<lambda>_. ret (Inr cert)))"

definition obtain_single :: "('k, 'l) cert_env \<Rightarrow> cert_Manager \<Rightarrow> string \<Rightarrow> (('k, 'l) tls_Certificate, 'k) cert_op" where
  "obtain_single env m domain =
     bnd (emitEvent m ''obtaining'' [domain] NoDetail)
       (\<lambda>_. or_failed m [domain] (getClient env m)
          (\<lambda>client. or_failed m [domain] (act (Authorize domain) (\<lambda>tr. ce_Authorize env tr domain))
             (\<lambda>authz. or_failed m [domain] (if az_Status authz = ''pending'' then solveChallenge env authz else ret (Inr ()))
                (\<lambda>_. or_failed m [domain] (createCertFromAuthz env m domain)
                   (\<lambda>cert. report_obtained env m [domain] cert)))))"

definition getSingleCert :: "('k, 'l) cert_env \<Rightarrow> cert_Manager \<Rightarrow> string \<Rightarrow> (('k, 'l) tls_Certificate, 'k) cert_op" where
  "getSingleCert env m domain =
     (if mg_Cache m
      then attempt (loadCert env m domain)
             (\<lambda>r w. case r of
                      Inr cert \<Rightarrow>
                        if \<not> isCertExpired env (ce_now env (cw_trace w)) cert
                        then bnd (emitEvent m ''cached'' [domain] NoDetail) (\<lambda>_. ret (Inr cert)) w
                        else obtain_single env m domain w
                    | Inl _ \<Rightarrow> obtain_single env m domain w)
      else obtain_single env m domain)"

subsection \<open>DNS-01\<close>

text \<open>
  \<open>zoneRecords\<close> is a map from zones to records, kept as a list with each zone once. A range over it visits
  the zones in the order that the runtime picks.
\<close>

type_synonym zone_records = "(string \<times> txt_record list) list"

fun add_record :: "string \<Rightarrow> txt_record \<Rightarrow> zone_records \<Rightarrow> zone_records" where
  "add_record zone rc [] = [(zone, [rc])]"
| "add_record zone rc ((z, rs) # zs) = (if z = zone then (z, rs @ [rc]) # zs else (z, rs) # add_record zone rc zs)"

definition range_zones :: "('k, 'l) cert_env \<Rightarrow> cert_trace \<Rightarrow> zone_records \<Rightarrow> zone_records" where
  "range_zones env tr zs =
     (let ks = ce_zones env tr (map fst zs)
      in if distinct ks \<and> set ks = set (map fst zs) then map (\<lambda>z. (z, the (map_of zs z))) ks else zs)"

text \<open>The challenges of the pending authorizations and their records.\<close>

fun collect_challenges :: "('k, 'l) cert_env \<Rightarrow> 'k \<Rightarrow> string list \<Rightarrow> acme_Challenge list \<times> zone_records
    \<Rightarrow> (acme_Challenge list \<times> zone_records, 'k) cert_op" where
  "collect_challenges env key [] acc = ret (Inr acc)"
| "collect_challenges env key (url # urls) (chals, zs) =
     bnd (act (GetAuthorization url) (\<lambda>tr. ce_GetAuthorization env tr url))
       (\<lambda>authz. if az_Status authz \<noteq> ''pending'' then collect_challenges env key urls (chals, zs)
        else case findChallenge (az_Challenges authz) ''dns-01'' of
               None \<Rightarrow> ret (Inl ErrNoDNSChallenge)
             | Some chal \<Rightarrow>
                 (case ce_DNS01Record env key (ch_Token chal) of
                    Inl e \<Rightarrow> ret (Inl e)
                  | Inr val \<Rightarrow>
                      let domain = az_Identifier authz;
                          challengeDomain = (if isWildcard domain then drop 2 domain else domain)
                      in case extractZoneAndRecordName challengeDomain of
                           (zone, recordName) \<Rightarrow>
                             collect_challenges env key urls
                               (chals @ [chal], add_record zone \<lparr>tx_Name = recordName, tx_Text = val\<rparr> zs)))"

fun add_zones :: "('k, 'l) cert_env \<Rightarrow> zone_records \<Rightarrow> (unit, 'k) cert_op" where
  "add_zones env [] = ret (Inr ())"
| "add_zones env ((zone, records) # zs) =
     bnd (act (DeleteRecords zone records) (\<lambda>_. Inr ()))
       (\<lambda>_. bnd (act (AppendRecords zone records) (\<lambda>tr. unit_result (ce_AppendRecords env tr zone records)))
          (\<lambda>_. add_zones env zs))"

fun accept_all :: "('k, 'l) cert_env \<Rightarrow> acme_Challenge list \<Rightarrow> (unit, 'k) cert_op" where
  "accept_all env [] = ret (Inr ())"
| "accept_all env (chal # chals) = bnd (accept_challenge env chal) (\<lambda>_. accept_all env chals)"

text \<open>The deferred function: it runs whatever the outcome of the body is, a panic included.\<close>

definition with_cleanup :: "('k, 'l) cert_env \<Rightarrow> zone_records \<Rightarrow> ('a, 'k) cert_op \<Rightarrow> ('a, 'k) cert_op" where
  "with_cleanup env zs x w =
     (case x w of
        (r, w1) \<Rightarrow>
          (r, w1\<lparr>cw_trace := cw_trace w1 @ map (\<lambda>(zone, records). GoDeleteRecords zone records) (range_zones env (cw_trace w1) zs)\<rparr>))"

definition dns_order :: "('k, 'l) cert_env \<Rightarrow> cert_Manager \<Rightarrow> string list \<Rightarrow> acme_Order \<Rightarrow> acme_Challenge list \<Rightarrow> zone_records
    \<Rightarrow> (('k, 'l) tls_Certificate, 'k) cert_op" where
  "dns_order env m domains order chals zs =
     bnd (\<lambda>w. add_zones env (range_zones env (cw_trace w) zs) w)
       (\<lambda>_. bnd (act (Sleep 30000000000) (\<lambda>_. Inr ()))
          (\<lambda>_. bnd (accept_all env chals)
             (\<lambda>_. bnd (act (WaitOrder (or_URI order)) (\<lambda>tr. ce_WaitOrder env tr (or_URI order)))
                (\<lambda>order. or_failed m domains (createCert env m order domains)
                   (\<lambda>cert. report_obtained env m domains cert)))))"

fun cached_for :: "('k, 'l) cert_env \<Rightarrow> cert_Manager \<Rightarrow> string list \<Rightarrow> string list \<Rightarrow> (('k, 'l) tls_Certificate option, 'k) cert_op" where
  "cached_for env m domains [] = ret (Inr None)"
| "cached_for env m domains (domain # ds) =
     attempt (loadCert env m domain)
       (\<lambda>r w. case r of
                Inr cert \<Rightarrow>
                  if \<not> isCertExpired env (ce_now env (cw_trace w)) cert \<and> certContainsAll env cert domains
                  then ret (Inr (Some cert)) w
                  else cached_for env m domains ds w
              | Inl _ \<Rightarrow> cached_for env m domains ds w)"

definition obtain_dns :: "('k, 'l) cert_env \<Rightarrow> cert_Manager \<Rightarrow> string list \<Rightarrow> (('k, 'l) tls_Certificate, 'k) cert_op" where
  "obtain_dns env m domains =
     bnd (emitEvent m ''obtaining'' domains NoDetail)
       (\<lambda>_. or_failed m domains (getClient env m)
          (\<lambda>client. bnd (act (AuthorizeOrder domains) (\<lambda>tr. ce_AuthorizeOrder env tr domains))
             (\<lambda>order. bnd (collect_challenges env (cl_Key client) (or_AuthzURLs order) ([], []))
                (\<lambda>(chals, zs). with_cleanup env zs (dns_order env m domains order chals zs)))))"

definition getCertDNS01 :: "('k, 'l) cert_env \<Rightarrow> cert_Manager \<Rightarrow> string list \<Rightarrow> (('k, 'l) tls_Certificate, 'k) cert_op" where
  "getCertDNS01 env m domains =
     (if \<not> mg_DNSProvider m then ret (Inl ErrNoDNSProvider)
      else bnd (if mg_Cache m then cached_for env m domains domains else ret (Inr None))
             (\<lambda>hit. case hit of
                      Some cert \<Rightarrow> bnd (emitEvent m ''cached'' domains NoDetail) (\<lambda>_. ret (Inr cert))
                    | None \<Rightarrow> obtain_dns env m domains))"

subsection \<open>The interface\<close>

definition GetCertificate :: "('k, 'l) cert_env \<Rightarrow> (string \<Rightarrow> (('k, 'l) tls_Certificate, 'k) cert_op) \<Rightarrow> cert_Manager \<Rightarrow> string
    \<Rightarrow> (('k, 'l) tls_Certificate, 'k) cert_op" where
  "GetCertificate env autocert m serverName =
     (if isWildcard serverName then getCertDNS01 env m [serverName] else autocert serverName)"

text \<open>The configuration for a TLS server, and autocert's own handler of HTTP-01 requests.\<close>

record ('k, 'l) tls_Config =
  tl_GetCertificate :: "string \<Rightarrow> (('k, 'l) tls_Certificate, 'k) cert_op"
  tl_NextProtos :: "string list"

definition TLSConfig :: "('k, 'l) cert_env \<Rightarrow> (string \<Rightarrow> (('k, 'l) tls_Certificate, 'k) cert_op) \<Rightarrow> cert_Manager \<Rightarrow> ('k, 'l) tls_Config" where
  "TLSConfig env autocert m = \<lparr>tl_GetCertificate = GetCertificate env autocert m, tl_NextProtos = [''h2'', ''http/1.1'']\<rparr>"

definition HTTPHandler :: "('h \<Rightarrow> 'h) \<Rightarrow> 'h \<Rightarrow> 'h" where
  "HTTPHandler autocert_HTTPHandler fallback = autocert_HTTPHandler fallback"

definition GetCertificateForDomains :: "('k, 'l) cert_env \<Rightarrow> cert_Manager \<Rightarrow> string list \<Rightarrow> (('k, 'l) tls_Certificate, 'k) cert_op" where
  "GetCertificateForDomains env m domains =
     (if domains = [] then ret (Inl ErrNoDomains)
      else if list_ex isWildcard domains then getCertDNS01 env m domains
      else if length domains = 1 then getSingleCert env m (domains ! 0)
      else getCertDNS01 env m domains)"

definition RevokeCert :: "('k, 'l) cert_env \<Rightarrow> cert_Manager \<Rightarrow> string \<Rightarrow> (unit, 'k) cert_op" where
  "RevokeCert env m domain =
     bnd (getClient env m)
       (\<lambda>client. bnd (loadCert env m domain)
          (\<lambda>cert. case tc_Certificate cert of
                    [] \<Rightarrow> ret (Inl (Panic ''index out of range''))
                  | der # _ \<Rightarrow> act (RevokeAtCA der) (\<lambda>tr. unit_result (ce_Revoke env tr der))))"

subsection \<open>Lemmas: what a run can do\<close>

text \<open>An operation only adds actions to the trace, and only actions that \<open>P\<close> allows.\<close>

definition emits :: "(cert_action \<Rightarrow> bool) \<Rightarrow> ('a, 'k) cert_op \<Rightarrow> bool" where
  "emits P x \<longleftrightarrow> (\<forall>w r w'. x w = (r, w') \<longrightarrow> (\<exists>new. cw_trace w' = cw_trace w @ new \<and> list_all P new))"

named_theorems emits_intros \<open>what the operations emit\<close>

lemma emitsD: "emits P x \<Longrightarrow> x w = (r, w') \<Longrightarrow> \<exists>new. cw_trace w' = cw_trace w @ new \<and> list_all P new"
  unfolding emits_def by blast

lemma emits_mono: "emits P x \<Longrightarrow> (\<And>a. P a \<Longrightarrow> Q a) \<Longrightarrow> emits Q x"
  unfolding emits_def by (metis (mono_tags, lifting) list.pred_mono_strong)

lemma bndE:
  assumes "bnd x k w = (r, w')"
  obtains e where "x w = (Inl e, w')" "r = Inl e" | a w1 where "x w = (Inr a, w1)" "k a w1 = (r, w')"
  using assms by (auto simp: bnd_def split: prod.splits sum.splits)

lemma attemptE:
  assumes "attempt x k w = (r, w')"
  obtains s where "x w = (Inl (Panic s), w')" "r = Inl (Panic s)"
    | a w1 where "x w = (a, w1)" "\<forall>s. a \<noteq> Inl (Panic s)" "k a w1 = (r, w')"
  using assms by (auto simp: attempt_def split: prod.splits sum.splits go_error.splits)

lemma emits_ret [emits_intros]: "emits P (ret r)"
  by (simp add: emits_def ret_def)

lemma emits_act [emits_intros]: "P a \<Longrightarrow> emits P (act a ans)"
  by (simp add: emits_def act_def)

lemma emits_bnd [emits_intros]: "emits P x \<Longrightarrow> (\<And>a. emits P (k a)) \<Longrightarrow> emits P (bnd x k)"
  unfolding emits_def [of P "bnd x k"]
proof (intro allI impI)
  fix w r w' assume "emits P x" "\<And>a. emits P (k a)" and run: "bnd x k w = (r, w')"
  note D = this(1,2)[THEN emitsD]
  from run show "\<exists>new. cw_trace w' = cw_trace w @ new \<and> list_all P new"
  proof (cases rule: bndE)
    case 2
    then show ?thesis using D(1) [OF 2(1)] D(2) [OF 2(2)] by fastforce
  qed (use D(1) in blast)
qed

lemma emits_attempt [emits_intros]: "emits P x \<Longrightarrow> (\<And>a. emits P (k a)) \<Longrightarrow> emits P (attempt x k)"
  unfolding emits_def [of P "attempt x k"]
proof (intro allI impI)
  fix w r w' assume "emits P x" "\<And>a. emits P (k a)" and run: "attempt x k w = (r, w')"
  note D = this(1,2)[THEN emitsD]
  from run show "\<exists>new. cw_trace w' = cw_trace w @ new \<and> list_all P new"
  proof (cases rule: attemptE)
    case 2
    then show ?thesis using D(1) [OF 2(1)] D(2) [OF 2(3)] by fastforce
  qed (use D(1) in blast)
qed

lemma emits_or_failed [emits_intros]:
  "emits P x \<Longrightarrow> (\<And>a. emits P (k a)) \<Longrightarrow> (\<And>e. P (Event ''failed'' domains e)) \<Longrightarrow> emits P (or_failed m domains x k)"
  unfolding or_failed_def emitEvent_def
  by (intro emits_attempt) (auto split: sum.split intro!: emits_intros)

text \<open>The actions that do not touch the DNS records.\<close>

definition no_dns :: "cert_action \<Rightarrow> bool" where
  "no_dns a \<longleftrightarrow> (\<forall>z rs. a \<noteq> AppendRecords z rs)"

lemma no_dns_simps [simp]:
  "no_dns (CacheGet s)" "no_dns (CachePut s d)" "no_dns GenerateKey" "no_dns (Register u c)" "no_dns (Authorize d)"
  "no_dns (AuthorizeOrder ds)" "no_dns (GetAuthorization u)" "no_dns (Accept chal)" "no_dns (WaitAuthorization u)"
  "no_dns (WaitOrder u)" "no_dns (CreateCSR ds)" "no_dns (CreateOrderCert u b)" "no_dns (Sleep n)" "no_dns (Event e ds x)"
  "no_dns (GoSaveCert ds b)" "no_dns (DeleteRecords z rs)"
  by (simp_all add: no_dns_def)

lemma emits_emitEvent [emits_intros]: "P (Event e domains d) \<Longrightarrow> emits P (emitEvent m e domains d)"
  unfolding emitEvent_def by (auto intro!: emits_intros)

lemma emits_loadCert [emits_intros]: "P (CacheGet (d @ ''.crt'')) \<Longrightarrow> emits P (loadCert env m d)"
  unfolding loadCert_def by (auto intro!: emits_intros)

lemma emits_accountKey: "emits no_dns (accountKey env m)"
  unfolding accountKey_def by (auto intro!: emits_intros split: sum.split)

lemma emits_getClient [emits_intros]: "emits no_dns (getClient env m)"
proof -
  have keep: "emits no_dns (keep_client c)" for c :: "'a acme_Client"
    by (simp add: emits_def keep_client_def)
  have x: "emits no_dns (bnd (accountKey env m)
            (\<lambda>key. let client = new_client env m key
                   in attempt (act (Register (cl_DirectoryURL client) (''mailto:'' @ mg_Email m)) (\<lambda>tr. unit_result (ce_Register env tr client)))
                        (\<lambda>r. case r of
                               Inl err \<Rightarrow> if isAccountExists env err then keep_client client else ret (Inl err)
                             | Inr _ \<Rightarrow> keep_client client)))" (is "emits _ ?x")
    by (auto intro!: emits_intros keep emits_accountKey simp: Let_def split: sum.split)
  show ?thesis unfolding emits_def
  proof (intro allI impI)
    fix w r w' assume run: "getClient env m w = (r, w')"
    show "\<exists>new. cw_trace w' = cw_trace w @ new \<and> list_all no_dns new"
    proof (cases "cw_client w")
      case None
      with run have "?x w = (r, w')" by (simp add: getClient_def)
      then show ?thesis by (rule emitsD [OF x])
    qed (use run in \<open>simp add: getClient_def\<close>)
  qed
qed

lemma emits_createCert [emits_intros]: "emits no_dns (createCert env m order domains)"
  unfolding createCert_def by (auto intro!: emits_intros simp: Let_def split: sum.split)

lemma emits_report_obtained [emits_intros]: "emits no_dns (report_obtained env m domains cert)"
  unfolding report_obtained_def by (auto intro!: emits_intros split: option.split)

lemma emits_collect: "emits no_dns (collect_challenges env key urls acc)"
  by (induction env key urls acc rule: collect_challenges.induct)
    (auto intro!: emits_intros simp: Let_def split: option.split sum.split prod.split)

lemma emits_accept_all [emits_intros]: "emits no_dns (accept_all env chals)"
  by (induction chals) (auto intro!: emits_intros simp: accept_challenge_def)

lemma emits_cached_for [emits_intros]: "emits no_dns (cached_for env m domains ds)"
proof (induction ds)
  case (Cons d ds)
  have "emits no_dns (\<lambda>w. case r of
                Inr cert \<Rightarrow>
                  if \<not> isCertExpired env (ce_now env (cw_trace w)) cert \<and> certContainsAll env cert domains
                  then ret (Inr (Some cert)) w
                  else cached_for env m domains ds w
              | Inl _ \<Rightarrow> cached_for env m domains ds w)" for r
    using Cons unfolding emits_def by (auto split: sum.splits if_splits simp: ret_def)
  then show ?case by (auto intro!: emits_intros)
qed (auto intro!: emits_intros)

subsection \<open>The DNS records are removed again\<close>

lemma add_record_keys: "fst ` set (add_record z rc zs) = insert z (fst ` set zs)"
  by (induction z rc zs rule: add_record.induct) (simp_all add: insert_commute)

lemma add_record_distinct: "distinct (map fst zs) \<Longrightarrow> distinct (map fst (add_record z rc zs))"
proof (induction zs)
  case (Cons y zs)
  then show ?case using add_record_keys [of z rc zs] by (cases y) auto
qed simp

lemma range_zones_set: "distinct (map fst zs) \<Longrightarrow> set (range_zones env tr zs) = set zs"
proof -
  assume d: "distinct (map fst zs)"
  have "(\<lambda>z. (z, the (map_of zs z))) ` fst ` set zs = set zs"
    using d by (force simp: image_iff)
  then show ?thesis by (auto simp: range_zones_def Let_def simp del: set_map) (auto simp: set_map)
qed

lemma collect_distinct:
  "collect_challenges env key urls acc w = (Inr (chals, zs), w') \<Longrightarrow> distinct (map fst (snd acc)) \<Longrightarrow> distinct (map fst zs)"
  by (induction env key urls acc arbitrary: w rule: collect_challenges.induct)
    (auto simp: ret_def Let_def add_record_distinct elim!: bndE split: if_splits option.splits sum.splits prod.splits)

definition dns_within :: "zone_records \<Rightarrow> cert_action \<Rightarrow> bool" where
  "dns_within zs a \<longleftrightarrow> (\<forall>z rs. a = AppendRecords z rs \<longrightarrow> (z, rs) \<in> set zs)"

lemma no_dns_within [intro]: "no_dns a \<Longrightarrow> dns_within zs a"
  by (simp add: no_dns_def dns_within_def)

lemma emits_add_zones: "set zs' \<subseteq> set zs \<Longrightarrow> emits (dns_within zs) (add_zones env zs')"
  by (induction zs') (auto intro!: emits_intros simp: dns_within_def)

lemma emits_dns_order:
  assumes "distinct (map fst zs)"
  shows "emits (dns_within zs) (dns_order env m domains order chals zs)"
proof -
  have "emits (dns_within zs) (add_zones env (range_zones env tr zs))" for tr
    by (rule emits_add_zones) (simp add: range_zones_set [OF assms])
  then have 1: "emits (dns_within zs) (\<lambda>w. add_zones env (range_zones env (cw_trace w) zs) w)"
    unfolding emits_def by blast
  show ?thesis unfolding dns_order_def
    by (intro emits_bnd 1 emits_or_failed emits_act no_dns_within no_dns_simps
        emits_mono [OF emits_accept_all] emits_mono [OF emits_createCert] emits_mono [OF emits_report_obtained])
qed

text \<open>The actions of a run: those of its body, then the deletions that were left to goroutines.\<close>

definition cleaned_up :: "cert_trace \<Rightarrow> bool" where
  "cleaned_up new \<longleftrightarrow>
     (\<exists>body zs. new = body @ map (\<lambda>(z, rs). GoDeleteRecords z rs) zs \<and> (\<forall>z rs. AppendRecords z rs \<in> set body \<longrightarrow> (z, rs) \<in> set zs))"

lemma cleaned_up_no_dns: "list_all no_dns new \<Longrightarrow> cleaned_up new"
  unfolding cleaned_up_def no_dns_def by (intro exI [of _ new] exI [of _ "[]"]) (auto simp: list_all_iff)

lemma cleaned_up_prepend: "list_all no_dns pre \<Longrightarrow> cleaned_up new \<Longrightarrow> cleaned_up (pre @ new)"
  unfolding cleaned_up_def
proof -
  assume p: "list_all no_dns pre"
  assume "\<exists>body zs. new = body @ map (\<lambda>(z, rs). GoDeleteRecords z rs) zs \<and> (\<forall>z rs. AppendRecords z rs \<in> set body \<longrightarrow> (z, rs) \<in> set zs)"
  then obtain body zs where b: "new = body @ map (\<lambda>(z, rs). GoDeleteRecords z rs) zs" "\<forall>z rs. AppendRecords z rs \<in> set body \<longrightarrow> (z, rs) \<in> set zs"
    by blast
  have "AppendRecords z rs \<notin> set pre" for z rs using p by (auto simp: list_all_iff no_dns_def)
  with b show "\<exists>body zs. pre @ new = body @ map (\<lambda>(z, rs). GoDeleteRecords z rs) zs \<and> (\<forall>z rs. AppendRecords z rs \<in> set body \<longrightarrow> (z, rs) \<in> set zs)"
    by (intro exI [of _ "pre @ body"] exI [of _ zs]) auto
qed

definition cleans :: "('a, 'k) cert_op \<Rightarrow> bool" where
  "cleans x \<longleftrightarrow> (\<forall>w r w'. x w = (r, w') \<longrightarrow> (\<exists>new. cw_trace w' = cw_trace w @ new \<and> cleaned_up new))"

lemma cleansI: "emits no_dns x \<Longrightarrow> cleans x"
  unfolding emits_def cleans_def using cleaned_up_no_dns by blast

lemma cleans_bnd:
  assumes "emits no_dns x" and k: "\<And>w a w1. x w = (Inr a, w1) \<Longrightarrow> cleans (k a)"
  shows "cleans (bnd x k)"
  unfolding cleans_def
proof (intro allI impI)
  fix w r w' assume "bnd x k w = (r, w')"
  then show "\<exists>new. cw_trace w' = cw_trace w @ new \<and> cleaned_up new"
  proof (cases rule: bndE)
    case (1 e)
    from emitsD [OF assms(1) this(1)] show ?thesis using cleaned_up_no_dns by blast
  next
    case (2 a w1)
    from emitsD [OF assms(1) 2(1)] obtain pre where "cw_trace w1 = cw_trace w @ pre" "list_all no_dns pre" by blast
    moreover from k [OF 2(1)] 2(2) obtain new where "cw_trace w' = cw_trace w1 @ new" "cleaned_up new" unfolding cleans_def by blast
    ultimately show ?thesis using cleaned_up_prepend by auto
  qed
qed

lemma cleans_or_failed:
  assumes x: "emits no_dns x" and k: "\<And>a. cleans (k a)"
  shows "cleans (or_failed m domains x k)"
  unfolding cleans_def
proof (intro allI impI)
  fix w r w' assume run: "or_failed m domains x k w = (r, w')"
  let ?k = "\<lambda>r. case r of Inl e \<Rightarrow> bnd (emitEvent m ''failed'' domains (EventError e)) (\<lambda>_. ret (Inl e)) | Inr a \<Rightarrow> k a"
  have k': "cleans (?k r)" for r
    by (cases r) (auto intro!: k cleansI emits_intros)
  from run [unfolded or_failed_def] show "\<exists>new. cw_trace w' = cw_trace w @ new \<and> cleaned_up new"
  proof (cases rule: attemptE)
    case (1 s)
    from emitsD [OF x this(1)] show ?thesis using cleaned_up_no_dns by blast
  next
    case (2 a w1)
    from emitsD [OF x 2(1)] obtain pre where "cw_trace w1 = cw_trace w @ pre" "list_all no_dns pre" by blast
    moreover from k' [of a] 2(3) obtain new where "cw_trace w' = cw_trace w1 @ new" "cleaned_up new" unfolding cleans_def by blast
    ultimately show ?thesis using cleaned_up_prepend by auto
  qed
qed

lemma cleans_with_cleanup:
  assumes "distinct (map fst zs)"
  shows "cleans (with_cleanup env zs (dns_order env m domains order chals zs))"
  unfolding cleans_def
proof (intro allI impI)
  fix w r w'
  assume "with_cleanup env zs (dns_order env m domains order chals zs) w = (r, w')"
  then obtain w1 where o: "dns_order env m domains order chals zs w = (r, w1)"
    and w': "w' = w1\<lparr>cw_trace := cw_trace w1 @ map (\<lambda>(z, rs). GoDeleteRecords z rs) (range_zones env (cw_trace w1) zs)\<rparr>"
    by (auto simp: with_cleanup_def split: prod.splits)
  from emitsD [OF emits_dns_order [OF assms] o]
  obtain body where b: "cw_trace w1 = cw_trace w @ body" "list_all (dns_within zs) body" by blast
  have "AppendRecords z rs \<in> set body \<longrightarrow> (z, rs) \<in> set (range_zones env (cw_trace w1) zs)" for z rs
    using b(2) by (auto simp: list_all_iff dns_within_def range_zones_set [OF assms])
  then have "cleaned_up (body @ map (\<lambda>(z, rs). GoDeleteRecords z rs) (range_zones env (cw_trace w1) zs))"
    unfolding cleaned_up_def by blast
  then show "\<exists>new. cw_trace w' = cw_trace w @ new \<and> cleaned_up new" using w' b(1) by auto
qed

lemma cleans_obtain_dns: "cleans (obtain_dns env m domains)"
  unfolding obtain_dns_def
proof (intro cleans_bnd cleans_or_failed emits_intros)
  fix w and client :: "'a acme_Client" and order :: acme_Order and acc w1
  assume "collect_challenges env (cl_Key client) (or_AuthzURLs order) ([], []) w = (Inr acc, w1)"
  then show "cleans (case acc of (chals, zs) \<Rightarrow> with_cleanup env zs (dns_order env m domains order chals zs))"
    by (cases acc) (auto dest: collect_distinct intro: cleans_with_cleanup)
qed (auto intro: emits_collect)

lemma cleans_getCertDNS01: "cleans (getCertDNS01 env m domains)"
proof (cases "mg_DNSProvider m")
  case True
  let ?hit = "if mg_Cache m then cached_for env m domains domains else ret (Inr None)"
  have "emits no_dns ?hit" by (auto intro!: emits_intros)
  then have "cleans (bnd ?hit (\<lambda>hit. case hit of
                      Some cert \<Rightarrow> bnd (emitEvent m ''cached'' domains NoDetail) (\<lambda>_. ret (Inr cert))
                    | None \<Rightarrow> obtain_dns env m domains))"
    by (rule cleans_bnd) (auto intro!: cleansI cleans_obtain_dns emits_intros split: option.split)
  then show ?thesis using True by (simp add: getCertDNS01_def)
qed (auto intro!: cleansI emits_intros simp: getCertDNS01_def)

text \<open>
  C34. Whatever way a DNS-01 order ends (with a certificate, an error of the CA or of the provider, or a
  panic), every set of TXT records that the call appended to a zone is also handed to a deletion, and these
  deletions come after everything else the call does.
\<close>

theorem certify_dns_cleanup:
  assumes "getCertDNS01 env m domains w = (r, w')"
  shows "\<exists>body zs. cw_trace w' = cw_trace w @ body @ map (\<lambda>(z, rs). GoDeleteRecords z rs) zs
    \<and> (\<forall>z rs. AppendRecords z rs \<in> set body \<longrightarrow> (z, rs) \<in> set zs)"
  using cleans_getCertDNS01 [of env m domains] assms unfolding cleans_def cleaned_up_def by blast

definition demo_cert_env :: "(nat, nat) cert_env" where
  "demo_cert_env =
     \<lparr>ce_DefaultDirectory = ''d'', ce_StatusCode = (\<lambda>_. None), ce_GenerateKey = (\<lambda>tr. Inr (length tr)), ce_Register = (\<lambda>_ _. None),
      ce_Authorize = (\<lambda>_ _. Inl EOF), ce_AuthorizeOrder = (\<lambda>_ ds. Inr \<lparr>or_URI = ''o'', or_AuthzURLs = ds, or_FinalizeURL = ''f''\<rparr>),
      ce_GetAuthorization = (\<lambda>_ u. Inr \<lparr>az_URI = u, az_Status = ''pending'', az_Identifier = u, az_Challenges = [\<lparr>ch_Type = ''dns-01'', ch_Token = ''t''\<rparr>]\<rparr>),
      ce_Accept = (\<lambda>_ _. None), ce_WaitAuthorization = (\<lambda>_ _. None), ce_WaitOrder = (\<lambda>_ _. Inl (ErrIO ''timeout'')),
      ce_CSR = (\<lambda>_ _ _. Inr []), ce_CreateOrderCert = (\<lambda>_ _ _. Inr [''der'']), ce_Revoke = (\<lambda>_ _. None), ce_DNS01Record = (\<lambda>_ t. Inr t),
      ce_AppendRecords = (\<lambda>_ z _. if z = ''c.d'' then Some (ErrIO ''refused'') else None), ce_CacheGet = (\<lambda>_ _. Inl ErrCacheMiss),
      ce_zones = (\<lambda>_ ks. rev ks), ce_now = (\<lambda>_. 0), ce_NotAfter = (\<lambda>l. int l), ce_VerifyHostname = (\<lambda>_ _. None),
      ce_ParseCertificate = (\<lambda>_. Inr 0), ce_X509KeyPair = (\<lambda>_ _. Inl EOF), ce_MarshalEC = (\<lambda>_. Inr []), ce_ParseEC = (\<lambda>_. Inl EOF),
      ce_ParsePKCS8 = (\<lambda>_. Inl EOF), ce_IsECDSA = (\<lambda>_. True), ce_pem_Encode = pb_Bytes, ce_pem_Decode = (\<lambda>d. (None, d))\<rparr>"

definition demo_cert_manager :: cert_Manager where
  "demo_cert_manager = \<lparr>mg_Email = ''e'', mg_Cache = True, mg_Client = None, mg_DNSProvider = True, mg_OnEvent = True\<rparr>"

lemma demo_dns_run:
  "getCertDNS01 demo_cert_env demo_cert_manager [''c.d'', ''*.a.b''] \<lparr>cw_client = None, cw_trace = []\<rparr>
   = (Inl (ErrIO ''refused''),
      snd (getCertDNS01 demo_cert_env demo_cert_manager [''c.d'', ''*.a.b''] \<lparr>cw_client = None, cw_trace = []\<rparr>))"
  by code_simp

text \<open>
  The CA refuses a record of the second zone: the call fails, and both the records that were added and those
  that were refused are handed to a deletion.
\<close>

theorem certify_dns_cleanup_witness:
  "let run = getCertDNS01 demo_cert_env demo_cert_manager [''c.d'', ''*.a.b''] \<lparr>cw_client = None, cw_trace = []\<rparr>;
       tr = cw_trace (snd run)
   in fst run = Inl (ErrIO ''refused'')
      \<and> AppendRecords ''a.b'' [\<lparr>tx_Name = ''_acme-challenge'', tx_Text = ''t''\<rparr>] \<in> set tr
      \<and> (\<exists>body zs. tr = body @ map (\<lambda>(z, rs). GoDeleteRecords z rs) zs
           \<and> (\<forall>z rs. AppendRecords z rs \<in> set body \<longrightarrow> (z, rs) \<in> set zs))"
proof -
  let ?run = "getCertDNS01 demo_cert_env demo_cert_manager [''c.d'', ''*.a.b''] \<lparr>cw_client = None, cw_trace = []\<rparr>"
  have "AppendRecords ''a.b'' [\<lparr>tx_Name = ''_acme-challenge'', tx_Text = ''t''\<rparr>] \<in> set (cw_trace (snd ?run))"
    by code_simp
  moreover have "fst ?run = Inl (ErrIO ''refused'')" using demo_dns_run by (metis fst_conv)
  moreover have "?run = (fst ?run, snd ?run)" by simp
  from certify_dns_cleanup [OF this]
  have "\<exists>body zs. cw_trace (snd ?run) = body @ map (\<lambda>(z, rs). GoDeleteRecords z rs) zs
           \<and> (\<forall>z rs. AppendRecords z rs \<in> set body \<longrightarrow> (z, rs) \<in> set zs)" by (simp only: cert_world.simps append_Nil)
  ultimately show ?thesis unfolding Let_def by blast
qed

subsection \<open>The name of a record\<close>

lemma strings_Join_append:
  "xs \<noteq> [] \<Longrightarrow> ys \<noteq> [] \<Longrightarrow> strings_Join sep (xs @ ys) = strings_Join sep xs @ sep @ strings_Join sep ys"
  by (induction sep xs rule: strings_Join.induct) (auto simp: neq_Nil_conv)

text \<open>A record of a zone stands for the name with the zone behind it: that is where the CA looks.\<close>

lemma record_name_absolute:
  "case extractZoneAndRecordName domain of (zone, name) \<Rightarrow> name @ ''.'' @ zone = ''_acme-challenge.'' @ domain"
proof -
  let ?p = "strings_Split (CHR ''.'') domain"
  have "take (length ?p - 2) ?p @ drop (length ?p - 2) ?p = ?p" by simp
  moreover have "length ?p > 2 \<Longrightarrow> take (length ?p - 2) ?p \<noteq> [] \<and> drop (length ?p - 2) ?p \<noteq> []" by auto
  ultimately have "length ?p > 2 \<Longrightarrow> strings_Join ''.'' (take (length ?p - 2) ?p) @ ''.'' @ strings_Join ''.'' (drop (length ?p - 2) ?p) = domain"
    using strings_Join_append [of "take (length ?p - 2) ?p" "drop (length ?p - 2) ?p" "''.''"] Join_Split [of "CHR ''.''" domain] by simp
  then show ?thesis by (simp add: extractZoneAndRecordName_def Let_def)
qed

text \<open>The zone is always the last two labels, also where two labels are a public suffix.\<close>

lemma zone_of_co_uk: "extractZoneAndRecordName ''www.shop.co.uk'' = (''co.uk'', ''_acme-challenge.www.shop'')"
  by code_simp

text \<open>An order that the CA refuses leaves an \<open>obtaining\<close> event that no \<open>failed\<close> event answers.\<close>

lemma dns_failure_unreported:
  "getCertDNS01 (demo_cert_env\<lparr>ce_AuthorizeOrder := (\<lambda>_ _. Inl EOF)\<rparr>) (demo_cert_manager\<lparr>mg_Cache := False\<rparr>) [''a.b''] \<lparr>cw_client = None, cw_trace = []\<rparr>
   = (Inl EOF, \<lparr>cw_client = Some \<lparr>cl_Key = 1, cl_DirectoryURL = ''d''\<rparr>,
                cw_trace = [Event ''obtaining'' [''a.b''] NoDetail, GenerateKey, Register ''d'' ''mailto:e'', AuthorizeOrder [''a.b'']]\<rparr>)"
  by code_simp

subsection \<open>The certificates that are returned\<close>

text \<open>The certificate was issued between two points of a run, for exactly these domains.\<close>

definition issued :: "('k, 'l) cert_env \<Rightarrow> string list \<Rightarrow> ('k, 'l) tls_Certificate \<Rightarrow> cert_trace \<Rightarrow> cert_trace \<Rightarrow> bool" where
  "issued env domains cert tr tr' \<longleftrightarrow>
     (\<exists>t0 url csr leaf. prefix tr t0 \<and> prefix (t0 @ [GenerateKey, CreateCSR domains, CreateOrderCert url csr]) tr'
        \<and> ce_CreateOrderCert env (t0 @ [GenerateKey, CreateCSR domains]) url csr = Inr (tc_Certificate cert)
        \<and> ce_ParseCertificate env (hd (tc_Certificate cert)) = Inr leaf \<and> tc_Leaf cert = Some leaf)"

lemma issued_mono: "issued env domains cert tr1 tr2 \<Longrightarrow> prefix tr tr1 \<Longrightarrow> prefix tr2 tr' \<Longrightarrow> issued env domains cert tr tr'"
  unfolding issued_def by (meson prefix_order.trans)

definition issues :: "('k, 'l) cert_env \<Rightarrow> string list \<Rightarrow> (('k, 'l) tls_Certificate, 'k) cert_op \<Rightarrow> bool" where
  "issues env domains x \<longleftrightarrow> (\<forall>w cert w'. x w = (Inr cert, w') \<longrightarrow> issued env domains cert (cw_trace w) (cw_trace w'))"

lemma emits_prefix: "emits P x \<Longrightarrow> x w = (r, w') \<Longrightarrow> prefix (cw_trace w) (cw_trace w')"
  using emitsD by fastforce

lemma issues_bnd:
  assumes x: "emits P x" and k: "\<And>a. issues env domains (k a)"
  shows "issues env domains (bnd x k)"
  unfolding issues_def
proof (intro allI impI)
  fix w cert w' assume "bnd x k w = (Inr cert, w')"
  then obtain a w1 where "x w = (Inr a, w1)" "k a w1 = (Inr cert, w')" by (auto elim: bndE)
  with k [of a] emits_prefix [OF x] show "issued env domains cert (cw_trace w) (cw_trace w')"
    unfolding issues_def by (blast intro: issued_mono)
qed

lemma or_failed_Inr:
  assumes "or_failed m domains x k w = (Inr b, w')"
  obtains a w1 where "x w = (Inr a, w1)" "k a w1 = (Inr b, w')"
  using assms unfolding or_failed_def
  by (auto simp: ret_def elim!: attemptE bndE split: sum.splits)

lemma issues_or_failed:
  assumes x: "emits P x" and k: "\<And>a. issues env domains (k a)"
  shows "issues env domains (or_failed m ds x k)"
  unfolding issues_def
proof (intro allI impI)
  fix w cert w' assume "or_failed m ds x k w = (Inr cert, w')"
  then obtain a w1 where "x w = (Inr a, w1)" "k a w1 = (Inr cert, w')" by (rule or_failed_Inr)
  with k [of a] emits_prefix [OF x] show "issued env domains cert (cw_trace w) (cw_trace w')"
    unfolding issues_def by (blast intro: issued_mono)
qed

lemma issues_createCert: "issues env domains (createCert env m order domains)"
  unfolding issues_def
proof (intro allI impI)
  fix w cert w' assume run: "createCert env m order domains w = (Inr cert, w')"
  show "issued env domains cert (cw_trace w) (cw_trace w')"
    unfolding issued_def
    by (rule exI [of _ "cw_trace w"])
      (use run in \<open>auto simp: createCert_def act_def ret_def Let_def elim!: bndE split: if_splits sum.splits\<close>)
qed

lemma report_obtained_keeps:
  "report_obtained env m domains cert w = (Inr c, w') \<Longrightarrow> c = cert \<and> prefix (cw_trace w) (cw_trace w')"
  by (auto simp: report_obtained_def ret_def emitEvent_def act_def split: option.splits if_splits elim!: bndE)

lemma issues_reported:
  assumes x: "issues env domains x"
  shows "issues env domains (or_failed m ds x (report_obtained env m ds))"
  unfolding issues_def
proof (intro allI impI)
  fix w cert w' assume "or_failed m ds x (report_obtained env m ds) w = (Inr cert, w')"
  then obtain a w1 where "x w = (Inr a, w1)" "report_obtained env m ds a w1 = (Inr cert, w')" by (rule or_failed_Inr)
  with x report_obtained_keeps [OF this(2)] show "issued env domains cert (cw_trace w) (cw_trace w')"
    unfolding issues_def by (blast intro: issued_mono)
qed

lemma emits_solveChallenge: "emits no_dns (solveChallenge env authz)"
  unfolding solveChallenge_def accept_challenge_def by (auto intro!: emits_intros split: option.split)

lemma issues_single: "issues env [domain] (obtain_single env m domain)"
  unfolding obtain_single_def createCertFromAuthz_def
  by (intro issues_bnd [where P = no_dns] issues_or_failed [where P = no_dns] issues_reported issues_createCert
      emits_emitEvent emits_getClient emits_act no_dns_simps)
    (auto intro: emits_solveChallenge emits_ret)

lemma issues_with_cleanup:
  assumes x: "issues env domains x"
  shows "issues env domains (with_cleanup env zs x)"
  unfolding issues_def
proof (intro allI impI)
  fix w cert w' assume "with_cleanup env zs x w = (Inr cert, w')"
  then obtain w1 where "x w = (Inr cert, w1)" "prefix (cw_trace w1) (cw_trace w')"
    by (auto simp: with_cleanup_def split: prod.splits)
  with x show "issued env domains cert (cw_trace w) (cw_trace w')"
    unfolding issues_def by (blast intro: issued_mono)
qed

lemma issues_dns: "issues env domains (obtain_dns env m domains)"
proof -
  have all: "emits (\<lambda>_. True) (add_zones env zs)" for zs
    by (induction zs) (auto intro!: emits_intros)
  then have zones: "emits (\<lambda>_. True) (\<lambda>w. add_zones env (range_zones env (cw_trace w) zs) w)" for zs
    unfolding emits_def by blast
  have order: "issues env domains (dns_order env m domains order chals zs)" for order chals zs
    unfolding dns_order_def
    by (rule issues_bnd [OF zones], rule issues_bnd [where P = no_dns], rule emits_act, simp, rule issues_bnd [OF emits_accept_all],
        rule issues_bnd [where P = no_dns], rule emits_act, simp, rule issues_reported, rule issues_createCert)
  show ?thesis unfolding obtain_dns_def
    by (rule issues_bnd [where P = no_dns], rule emits_emitEvent, simp, rule issues_or_failed [OF emits_getClient],
        rule issues_bnd [where P = no_dns], rule emits_act, simp, rule issues_bnd [OF emits_collect])
      (auto intro!: issues_with_cleanup order split: prod.split)
qed

text \<open>What a lookup in the cache does, and what a certificate found there satisfies.\<close>

definition cache_lookup :: "string list \<Rightarrow> cert_action \<Rightarrow> bool" where
  "cache_lookup domains a \<longleftrightarrow> (\<exists>d\<in>set domains. a = CacheGet (d @ ''.crt''))"

lemma loadCert_emits: "domain \<in> set domains \<Longrightarrow> emits (cache_lookup domains) (loadCert env m domain)"
  by (rule emits_loadCert) (auto simp: cache_lookup_def)

text \<open>The last of these lookups found the certificate: it is what the data of the cache decodes to.\<close>

definition found_in_cache ::
  "('k, 'l) cert_env \<Rightarrow> string list \<Rightarrow> ('k, 'l) tls_Certificate \<Rightarrow> cert_trace \<Rightarrow> cert_trace \<Rightarrow> bool" where
  "found_in_cache env lookups cert tr tr' \<longleftrightarrow>
     (\<exists>pre d data. d \<in> set lookups \<and> tr' = tr @ pre @ [CacheGet (d @ ''.crt'')] \<and> list_all (cache_lookup lookups) pre
        \<and> ce_CacheGet env (tr @ pre) (d @ ''.crt'') = Inr data \<and> tlsCertFromPEM env data = Inr cert)"

definition from_cache :: "('k, 'l) cert_env \<Rightarrow> string list \<Rightarrow> string list \<Rightarrow> ('k, 'l) tls_Certificate \<Rightarrow> cert_trace \<Rightarrow> cert_trace \<Rightarrow> bool" where
  "from_cache env lookups covered cert tr tr' \<longleftrightarrow>
     found_in_cache env lookups cert tr tr'
     \<and> \<not> isCertExpired env (ce_now env tr') cert \<and> (covered \<noteq> [] \<longrightarrow> certContainsAll env cert covered)"

lemma found_in_cacheI:
  "d \<in> set lookups \<Longrightarrow> tr' = tr @ pre @ [CacheGet (d @ ''.crt'')] \<Longrightarrow> list_all (cache_lookup lookups) pre \<Longrightarrow>
     ce_CacheGet env (tr @ pre) (d @ ''.crt'') = Inr data \<Longrightarrow> tlsCertFromPEM env data = Inr cert \<Longrightarrow> found_in_cache env lookups cert tr tr'"
  unfolding found_in_cache_def by blast

lemma loadCert_found:
  assumes "loadCert env m d w = (Inr cert, w1)" "d \<in> set lookups"
  shows "found_in_cache env lookups cert (cw_trace w) (cw_trace w1)"
proof -
  obtain data where "ce_CacheGet env (cw_trace w) (d @ ''.crt'') = Inr data" "tlsCertFromPEM env data = Inr cert"
      "cw_trace w1 = cw_trace w @ [CacheGet (d @ ''.crt'')]"
    using assms(1) by (auto simp: loadCert_def act_def ret_def elim!: bndE split: if_splits)
  then show ?thesis using assms(2) by (intro found_in_cacheI [of d lookups _ _ "[]"]) simp_all
qed

lemma found_later:
  assumes "found_in_cache env ds cert (tr @ pre) tr'" "list_all (cache_lookup lookups) pre" "set ds \<subseteq> set lookups"
  shows "found_in_cache env lookups cert tr tr'"
proof -
  obtain pre2 d data where "d \<in> set ds" "tr' = (tr @ pre) @ pre2 @ [CacheGet (d @ ''.crt'')]" "list_all (cache_lookup ds) pre2"
    "ce_CacheGet env ((tr @ pre) @ pre2) (d @ ''.crt'') = Inr data" "tlsCertFromPEM env data = Inr cert"
    using assms(1) unfolding found_in_cache_def by blast
  moreover have "cache_lookup ds a \<Longrightarrow> cache_lookup lookups a" for a using assms(3) by (auto simp: cache_lookup_def)
  ultimately show ?thesis
    using assms(2,3) by (intro found_in_cacheI [of d lookups _ _ "pre @ pre2" env data]) (auto simp: list_all_iff)
qed

lemma cached_for_hit:
  "cached_for env m domains ds w = (Inr (Some cert), w') \<Longrightarrow> domains \<noteq> [] \<Longrightarrow> from_cache env ds domains cert (cw_trace w) (cw_trace w')"
proof (induction ds arbitrary: w)
  case (Cons d ds)
  from Cons.prems(1) [unfolded cached_for.simps]
  show ?case
  proof (cases rule: attemptE)
    case (2 r w1)
    from emitsD [OF loadCert_emits [of d "d # ds"] 2(1)] obtain pre
      where pre: "cw_trace w1 = cw_trace w @ pre" "list_all (cache_lookup (d # ds)) pre" by auto
    show ?thesis
    proof (cases "cached_for env m domains ds w1 = (Inr (Some cert), w')")
      case True
      from Cons.IH [OF this Cons.prems(2)] found_later [of env ds cert "cw_trace w" pre _ "d # ds"] pre show ?thesis
        by (auto simp: from_cache_def)
    next
      case False
      with 2(3) have "r = Inr cert" "w' = w1" "\<not> isCertExpired env (ce_now env (cw_trace w1)) cert" "certContainsAll env cert domains"
        by (auto simp: ret_def split: sum.splits if_splits)
      with loadCert_found [of env m d w cert w1 "d # ds"] 2(1) show ?thesis by (simp add: from_cache_def)
    qed
  qed auto
qed (simp add: ret_def)

lemma cached_for_trace: "emits (\<lambda>_. True) (cached_for env m domains ds)"
  by (rule emits_mono [OF emits_cached_for]) simp

text \<open>
  A certificate that is returned was either found in the cache or issued in this call. \<open>tr\<close> is the point at
  which a found one was returned to the caller.
\<close>

definition returned_ok :: "('k, 'l) cert_env \<Rightarrow> string list \<Rightarrow> string list \<Rightarrow> ('k, 'l) tls_Certificate \<Rightarrow> cert_trace \<Rightarrow> cert_trace \<Rightarrow> bool" where
  "returned_ok env domains covered cert tr tr' \<longleftrightarrow>
     issued env domains cert tr tr'
     \<or> (\<exists>tr1. from_cache env domains covered cert tr tr1 \<and> (tr' = tr1 \<or> tr' = tr1 @ [Event ''cached'' domains NoDetail]))"

lemma emit_cached:
  "bnd (emitEvent m ''cached'' domains NoDetail) (\<lambda>_. ret (Inr c)) w1 = (Inr cert, w')
   \<Longrightarrow> c = cert \<and> (cw_trace w' = cw_trace w1 \<or> cw_trace w' = cw_trace w1 @ [Event ''cached'' domains NoDetail])"
  by (auto simp: emitEvent_def act_def ret_def elim!: bndE split: if_splits)

lemma getSingleCert_ok:
  assumes "getSingleCert env m domain w = (Inr cert, w')"
  shows "returned_ok env [domain] [] cert (cw_trace w) (cw_trace w')"
proof (cases "mg_Cache m")
  case True
  from assms True show ?thesis unfolding getSingleCert_def if_P [OF True]
  proof (cases rule: attemptE)
    case (2 r w1)
    from emitsD [OF loadCert_emits [of domain "[domain]"] 2(1)] obtain pre
      where pre: "cw_trace w1 = cw_trace w @ pre" "list_all (cache_lookup [domain]) pre" by auto
    show ?thesis
    proof (cases "obtain_single env m domain w1 = (Inr cert, w')")
      case True
      with issues_single [of env domain m] pre show ?thesis
        unfolding issues_def returned_ok_def by (metis issued_mono prefixI prefix_order.order_refl)
    next
      case False
      with 2(3) obtain c where c: "r = Inr c" "\<not> isCertExpired env (ce_now env (cw_trace w1)) c"
        "bnd (emitEvent m ''cached'' [domain] NoDetail) (\<lambda>_. ret (Inr c)) w1 = (Inr cert, w')"
        by (auto split: sum.splits if_splits)
      have "from_cache env [domain] [] c (cw_trace w) (cw_trace w1)"
        using loadCert_found [of env m domain w c w1 "[domain]"] 2(1) c(1,2) by (simp add: from_cache_def)
      then show ?thesis using emit_cached [OF c(3)] unfolding returned_ok_def by metis
    qed
  qed auto
next
  case False
  with assms issues_single [of env domain m] show ?thesis
    by (simp add: getSingleCert_def issues_def returned_ok_def)
qed

lemma getCertDNS01_ok:
  assumes run: "getCertDNS01 env m domains w = (Inr cert, w')" and ne: "domains \<noteq> []"
  shows "returned_ok env domains domains cert (cw_trace w) (cw_trace w')"
proof -
  have "mg_DNSProvider m" using run by (auto simp: getCertDNS01_def ret_def split: if_splits)
  with run obtain hit w1 where hit: "(if mg_Cache m then cached_for env m domains domains else ret (Inr None)) w = (Inr hit, w1)"
    and k: "(case hit of Some cert \<Rightarrow> bnd (emitEvent m ''cached'' domains NoDetail) (\<lambda>_. ret (Inr cert)) | None \<Rightarrow> obtain_dns env m domains) w1 = (Inr cert, w')"
    by (auto simp: getCertDNS01_def elim!: bndE)
  show ?thesis
  proof (cases hit)
    case None
    have "prefix (cw_trace w) (cw_trace w1)"
      using hit emits_prefix [OF cached_for_trace [of env m domains domains]] by (auto simp: ret_def split: if_splits)
    with k None issues_dns [of env domains m] show ?thesis
      unfolding issues_def returned_ok_def by (auto intro: issued_mono)
  next
    case (Some c)
    with hit have "cached_for env m domains domains w = (Inr (Some c), w1)" by (simp add: ret_def split: if_splits)
    from cached_for_hit [OF this ne] emit_cached [of m domains c w1 cert w'] k Some show ?thesis
      unfolding returned_ok_def by (metis option.simps(5))
  qed
qed

lemma GetCertificateForDomains_run:
  assumes "GetCertificateForDomains env m domains w = (Inr cert, w')"
  shows "returned_ok env domains (if length domains = 1 \<and> \<not> isWildcard (hd domains) then [] else domains) cert (cw_trace w) (cw_trace w')"
proof -
  have ne: "domains \<noteq> []" using assms by (auto simp: GetCertificateForDomains_def ret_def)
  show ?thesis
  proof (cases "length domains = 1 \<and> \<not> isWildcard (hd domains)")
    case True
    then obtain d where "domains = [d]" by (auto simp: length_Suc_conv)
    with True assms getSingleCert_ok show ?thesis by (simp add: GetCertificateForDomains_def)
  next
    case False
    then have "list_ex isWildcard domains \<or> length domains \<noteq> 1" using ne by (cases domains) auto
    with assms ne have "getCertDNS01 env m domains w = (Inr cert, w')"
      by (auto simp: GetCertificateForDomains_def split: if_splits)
    from getCertDNS01_ok [OF this ne] False show ?thesis by (simp only: if_False)
  qed
qed


definition demo_cached_env :: "(nat, nat) cert_env" where
  "demo_cached_env =
     demo_cert_env\<lparr>ce_CacheGet := (\<lambda>_ k. if k = ''*.a.b.crt'' then Inr ''kc'' else Inl ErrCacheMiss), ce_NotAfter := (\<lambda>_. 10000000000000000),
       ce_pem_Decode := (\<lambda>d. case d of [] \<Rightarrow> (None, []) | c # r \<Rightarrow>
         (Some \<lparr>pb_Type = (if c = CHR ''k'' then ''PRIVATE KEY'' else ''CERTIFICATE''), pb_Bytes = [c]\<rparr>, r)),
       ce_X509KeyPair := (\<lambda>c k. Inr \<lparr>tc_PrivateKey = 0, tc_Certificate = [c], tc_Leaf = Some 0\<rparr>)\<rparr>"

lemma demo_cached_run:
  "GetCertificateForDomains demo_cached_env demo_cert_manager [''c.d'', ''*.a.b''] \<lparr>cw_client = None, cw_trace = []\<rparr>
   = (Inr \<lparr>tc_PrivateKey = 0, tc_Certificate = [''c''], tc_Leaf = Some 0\<rparr>,
      \<lparr>cw_client = None, cw_trace = [CacheGet ''c.d.crt'', CacheGet ''*.a.b.crt'', Event ''cached'' [''c.d'', ''*.a.b''] NoDetail]\<rparr>)"
  by code_simp


end
