(* ===== verification/Httpd.thy ===== *)
theory Httpd
  imports Go_Path
begin

text \<open>
  The HTTP server helpers: the writer of server-sent events (src/httpd/sse.go), static files
  (src/httpd/static.go), the engine and the server's configuration and shutdown (src/httpd/engine.go,
  src/httpd/server.go) and the recovery from panics (src/httpd/recovery.go). Gin and the connection are the
  environment.
\<close>

subsection \<open>The response\<close>

text \<open>
  A response under way: its headers, its status once sent, what was written, and what was flushed of it.
  \<open>rw_fault n\<close> is the fault of the \<open>n\<close>-th write: how many bytes still go out, and the error.
\<close>

record response =
  rw_Header :: "(string \<times> string) list"
  rw_status :: "nat option"
  rw_out :: bytes
  rw_flushed :: nat
  rw_writes :: nat
  rw_fault :: "nat \<Rightarrow> (nat \<times> go_error) option"
  rw_Flusher :: bool

definition rw_put :: "string \<Rightarrow> response \<Rightarrow> go_error option \<times> response" where
  "rw_put s w =
     (case rw_fault w (rw_writes w) of
        Some (n, e) \<Rightarrow> (Some e, w\<lparr>rw_out := rw_out w @ take n s, rw_writes := Suc (rw_writes w)\<rparr>)
      | None \<Rightarrow> (None, w\<lparr>rw_out := rw_out w @ s, rw_writes := Suc (rw_writes w)\<rparr>))"

definition rw_Flush :: "response \<Rightarrow> response" where
  "rw_Flush w = w\<lparr>rw_flushed := length (rw_out w)\<rparr>"

subsection \<open>Server-sent events\<close>

definition sse_NewWriter :: "response \<Rightarrow> go_error option \<times> response" where
  "sse_NewWriter w =
     (if \<not> rw_Flusher w then (Some (Errorf ''the response does not support streaming''), w)
      else (None, rw_Flush (w\<lparr>rw_Header :=
              [(''Content-Type'', ''text/event-stream; charset=utf-8''), (''Cache-Control'', ''no-cache''),
               (''Connection'', ''keep-alive''), (''X-Accel-Buffering'', ''no'')] @ rw_Header w,
              rw_status := Some 200\<rparr>)))"

definition NewEventWriter :: "response \<Rightarrow> go_error option \<times> response" where
  "NewEventWriter w = sse_NewWriter w"

definition sse_text :: "bytes \<Rightarrow> string" where
  "sse_text p = strings_TrimRight (strings_ReplaceAll p [cr, nl] [nl]) [nl]"

fun put_lines :: "string list \<Rightarrow> response \<Rightarrow> go_error option \<times> response" where
  "put_lines [] w = (None, w)"
| "put_lines (line # lines) w =
     (case rw_put (''data: '' @ line @ [nl]) w of
        (Some err, w1) \<Rightarrow> (Some err, w1)
      | (None, w1) \<Rightarrow> put_lines lines w1)"

definition sse_Write :: "bytes \<Rightarrow> response \<Rightarrow> (nat \<times> go_error option) \<times> response" where
  "sse_Write p w =
     (let t = sse_text p
      in if t = [] then ((length p, None), w)
         else case put_lines (strings_Split nl t) w of
                (Some err, w1) \<Rightarrow> ((0, Some err), w1)
              | (None, w1) \<Rightarrow>
                  (case rw_put [nl] w1 of
                     (Some err, w2) \<Rightarrow> ((0, Some err), w2)
                   | (None, w2) \<Rightarrow> ((length p, None), rw_Flush w2)))"

definition sse_WriteEvent :: "string \<Rightarrow> string \<Rightarrow> response \<Rightarrow> go_error option \<times> response" where
  "sse_WriteEvent event data w =
     (case rw_put (''event: '' @ event @ [nl] @ ''data: '' @ data @ [nl, nl]) w of
        (Some err, w1) \<Rightarrow> (Some err, w1)
      | (None, w1) \<Rightarrow> (None, rw_Flush w1))"

subsection \<open>Static files\<close>

text \<open>
  \<open>hfs_Open\<close> tells whether a path can be opened, \<open>serve\<close> is \<open>http.FileServer\<close> on the same files, and
  \<open>not_found\<close> its plain 404 answer. \<open>http.StripPrefix\<close> answers 404 to a path without the prefix.
\<close>

datatype 'r static_reply = Served 'r | AbortWithStatus nat

definition StripPrefix :: "string \<Rightarrow> 'r \<Rightarrow> (string \<Rightarrow> 'r) \<Rightarrow> string \<Rightarrow> 'r" where
  "StripPrefix pre not_found h p = (if strings_HasPrefix p pre then h (drop (length pre) p) else not_found)"

definition StaticServe :: "(string \<Rightarrow> bool) \<Rightarrow> (string \<Rightarrow> 'r) \<Rightarrow> 'r \<Rightarrow> string \<Rightarrow> string \<Rightarrow> 'r static_reply" where
  "StaticServe hfs_Open serve not_found pre path =
     (let fileHandler = (if pre \<noteq> [] then StripPrefix pre not_found serve else serve)
      in if hfs_Open path then Served (fileHandler path)
         else if strings_HasSuffix path ''/'' \<and> hfs_Open (path @ ''index.html'') then Served (fileHandler path)
         else if filepath_Ext path \<noteq> [] then AbortWithStatus 404
         else Served (fileHandler ''/''))"

subsection \<open>Engine and server\<close>

record httpd_Config =
  hc_Debug :: bool
  hc_ReadTimeout :: int
  hc_WriteTimeout :: int

type_synonym httpd_Option = "httpd_Config \<Rightarrow> httpd_Config"

definition WithDebug :: "bool \<Rightarrow> httpd_Option" where
  "WithDebug debug cfg = cfg\<lparr>hc_Debug := debug\<rparr>"

definition WithReadTimeout :: "int \<Rightarrow> httpd_Option" where
  "WithReadTimeout d cfg = cfg\<lparr>hc_ReadTimeout := d\<rparr>"

definition WithWriteTimeout :: "int \<Rightarrow> httpd_Option" where
  "WithWriteTimeout d cfg = cfg\<lparr>hc_WriteTimeout := d\<rparr>"

text \<open>
  The process-wide engine: made by the first call, in the mode of that call, with its log writers and the two
  handlers of \<open>gin.Default\<close>. A caller's handler is known by a number; the handler that serves files is known by
  the files and the prefix it was made with.
\<close>

datatype served_files = GinDir string bool | EmbedFiles | EmbedSub string

datatype route_handler = AnyHandler nat | GinLogger | GinRecovery | ServeStatic served_files string

record httpd_engine =
  he_debug :: bool
  he_access_log :: string
  he_error_log :: string
  he_mime :: "(string \<times> string) list"
  he_use :: "route_handler list"
  he_noRoute :: "route_handler list"

definition httpd_Engine :: "bool \<Rightarrow> httpd_engine option \<Rightarrow> httpd_engine" where
  "httpd_Engine debug engine =
     (case engine of
        Some e \<Rightarrow> e 
     | None \<Rightarrow> \<lparr>he_debug = debug, he_access_log = ''gin-access'', he_error_log = ''gin-error'',
                he_mime = [(''.css'', ''text/css; charset=utf-8''), (''.js'', ''text/javascript; charset=utf-8'')],
                he_use = [GinLogger, GinRecovery], he_noRoute = []\<rparr>)"

text \<open>With no engine yet a call goes through a nil pointer.\<close>

definition with_engine :: "(httpd_engine \<Rightarrow> 'a) \<Rightarrow> httpd_engine option \<Rightarrow> 'a go_result" where
  "with_engine k engine =
     (case engine of None \<Rightarrow> Inl (Panic ''invalid memory address or nil pointer dereference'') | Some e \<Rightarrow> Inr (k e))"

definition httpd_NoRoute :: "route_handler list \<Rightarrow> httpd_engine option \<Rightarrow> httpd_engine go_result" where
  "httpd_NoRoute handlers = with_engine (\<lambda>e. e\<lparr>he_noRoute := handlers\<rparr>)"

definition httpd_Use :: "route_handler list \<Rightarrow> httpd_engine option \<Rightarrow> httpd_engine go_result" where
  "httpd_Use middleware = with_engine (\<lambda>e. e\<lparr>he_use := he_use e @ middleware\<rparr>)"

text \<open>A group of routes: its path relative to the engine's, and the handlers it starts with.\<close>

record router_group =
  rg_path :: string
  rg_handlers :: "route_handler list"

definition httpd_Group :: "string \<Rightarrow> route_handler list \<Rightarrow> httpd_engine option \<Rightarrow> router_group go_result" where
  "httpd_Group relativePath handlers = with_engine (\<lambda>e. \<lparr>rg_path = relativePath, rg_handlers = he_use e @ handlers\<rparr>)"

definition httpd_Static :: "string \<Rightarrow> string \<Rightarrow> httpd_engine option \<Rightarrow> httpd_engine go_result" where
  "httpd_Static root pre = httpd_NoRoute [ServeStatic (GinDir root False) pre]"

definition StaticIndex :: "string \<Rightarrow> string \<Rightarrow> httpd_engine option \<Rightarrow> httpd_engine go_result" where
  "StaticIndex root pre = httpd_NoRoute [ServeStatic (GinDir root True) pre]"

definition StaticEmbed :: "string \<Rightarrow> string \<Rightarrow> httpd_engine option \<Rightarrow> httpd_engine go_result" where
  "StaticEmbed pre subdir = httpd_NoRoute [ServeStatic (if subdir = [] then EmbedFiles else EmbedSub subdir) pre]"

text \<open>
  What the engine answers to a path that no route has, when its handler serves files; \<open>hfs_Open\<close> and \<open>serve\<close>
  belong to the files.
\<close>

definition noRoute_reply :: "(served_files \<Rightarrow> string \<Rightarrow> bool) \<Rightarrow> (served_files \<Rightarrow> string \<Rightarrow> 'r) \<Rightarrow> 'r \<Rightarrow> httpd_engine
    \<Rightarrow> string \<Rightarrow> 'r static_reply option" where
  "noRoute_reply hfs_Open serve not_found e path =
     (case he_noRoute e of
        [ServeStatic files pre] \<Rightarrow> Some (StaticServe (hfs_Open files) (serve files) not_found pre path)
      | _ \<Rightarrow> None)"

datatype server_action =
    RegisterQuit
  | Listen string int int
  | Shutdown int
  | CloseServer

definition httpd_Server :: "string \<Rightarrow> httpd_Option list \<Rightarrow> httpd_engine option \<Rightarrow> httpd_engine \<times> server_action list" where
  "httpd_Server addr options engine =
     (let cfg = fold (\<lambda>opt cfg. opt cfg) options \<lparr>hc_Debug = False, hc_ReadTimeout = 300000000000, hc_WriteTimeout = 300000000000\<rparr>
      in (httpd_Engine (hc_Debug cfg) engine, [RegisterQuit, Listen addr (hc_ReadTimeout cfg) (hc_WriteTimeout cfg)]))"

text \<open>The function that the server registers for the end of the process; \<open>err\<close> is the error of \<open>Shutdown\<close>.\<close>

definition server_quit :: "go_error option \<Rightarrow> server_action list" where
  "server_quit err = Shutdown 9000000000 # (if err \<noteq> None then [CloseServer] else [])"

definition Recovery :: "(response \<Rightarrow> unit go_result \<times> response) \<Rightarrow> response \<Rightarrow> unit go_result \<times> response" where
  "Recovery nxt c =
     (case nxt c of
        (Inl (Panic s), c1) \<Rightarrow> (Inr (), c1\<lparr>rw_status := (case rw_status c1 of None \<Rightarrow> Some 500 | Some st \<Rightarrow> Some st)\<rparr>)
      | (r, c1) \<Rightarrow> (r, c1))"

subsection \<open>Reading events\<close>

text \<open>
  How a browser reads an event stream (the HTML standard, section 9.2.6): a line ends in CRLF, LF or CR, an
  empty line dispatches the event whose type and data the lines before it gave, and an unfinished line at the
  end is dropped. An event without a type is listed with the empty type.
\<close>

fun sse_newlines :: "string \<Rightarrow> string" where
  "sse_newlines [] = []"
| "sse_newlines (c # s) =
     (if c = cr then nl # (case s of d # t \<Rightarrow> if d = nl then sse_newlines t else sse_newlines s | [] \<Rightarrow> [])
      else c # sse_newlines s)"

definition sse_field :: "string \<Rightarrow> string \<times> string" where
  "sse_field line =
     (if CHR '':'' \<in> set line
      then (let v = tl (dropWhile (\<lambda>c. c \<noteq> CHR '':'') line)
            in (takeWhile (\<lambda>c. c \<noteq> CHR '':'') line, if v \<noteq> [] \<and> hd v = CHR '' '' then tl v else v))
      else (line, []))"

fun sse_step :: "string \<Rightarrow> string \<times> string \<times> (string \<times> string) list \<Rightarrow> string \<times> string \<times> (string \<times> string) list" where
  "sse_step line (buf, ty, events) =
     (if line = [] then ([], [], if buf = [] then events else events @ [(ty, butlast buf)])
      else case sse_field line of
             (f, v) \<Rightarrow>
               if f = ''data'' then (buf @ v @ [nl], ty, events)
               else if f = ''event'' then (buf, v, events)
               else (buf, ty, events))"

definition sse_lines :: "string list \<Rightarrow> (string \<times> string) list" where
  "sse_lines ls = snd (snd (fold sse_step ls ([], [], [])))"

definition sse_parse :: "string \<Rightarrow> (string \<times> string) list" where
  "sse_parse s = sse_lines (butlast (strings_Split nl (sse_newlines s)))"

subsection \<open>Lemmas: what was written is what a browser reads\<close>

datatype sse_op = OpWrite bytes | OpEvent string string

fun run_op :: "sse_op \<Rightarrow> response \<Rightarrow> response" where
  "run_op (OpWrite p) w = snd (sse_Write p w)"
| "run_op (OpEvent e d) w = snd (sse_WriteEvent e d w)"

text \<open>The text of a \<open>Write\<close>: its newlines as LF, and none of them at its end.\<close>

definition op_text :: "bytes \<Rightarrow> string" where
  "op_text p = rev (dropWhile (\<lambda>c. c = nl) (rev (sse_newlines p)))"

fun op_events :: "sse_op \<Rightarrow> (string \<times> string) list" where
  "op_events (OpWrite p) = (if op_text p = [] then [] else [([], op_text p)])"
| "op_events (OpEvent e d) = [(e, d)]"

text \<open>No carriage return but in front of a newline; a named event and its data are on one line.\<close>

fun crlf_only :: "string \<Rightarrow> bool" where
  "crlf_only [] \<longleftrightarrow> True"
| "crlf_only (c # s) \<longleftrightarrow> (c = cr \<longrightarrow> s \<noteq> [] \<and> hd s = nl) \<and> crlf_only s"

fun op_ok :: "sse_op \<Rightarrow> bool" where
  "op_ok (OpWrite p) \<longleftrightarrow> crlf_only p"
| "op_ok (OpEvent e d) \<longleftrightarrow> cr \<notin> set (e @ d) \<and> nl \<notin> set (e @ d)"

lemma ReplaceAll_crlf:
  "crlf_only p \<Longrightarrow> strings_ReplaceAll p [cr, nl] [nl] = sse_newlines p \<and> cr \<notin> set (sse_newlines p)"
proof (induction p rule: sse_newlines.induct)
  case (2 c s)
  show ?case
  proof (cases "c = cr")
    case True
    with 2 obtain t where s: "s = nl # t" by (cases s) auto
    with 2 True have "crlf_only t" by simp
    with 2(1) [OF True s] s True show ?thesis by simp
  next
    case False
    with 2 show ?thesis by simp
  qed
qed simp

lemma sse_text_op: "crlf_only p \<Longrightarrow> sse_text p = op_text p \<and> cr \<notin> set (op_text p)"
proof -
  assume "crlf_only p"
  note r = ReplaceAll_crlf [OF this]
  have "set (dropWhile (\<lambda>c. c = nl) (rev (sse_newlines p))) \<subseteq> set (sse_newlines p)" using set_dropWhileD by fastforce
  with r show ?thesis by (auto simp: sse_text_def op_text_def strings_TrimRight_def)
qed

fun op_lines :: "sse_op \<Rightarrow> string list" where
  "op_lines (OpWrite p) = (if sse_text p = [] then [] else map ((@) ''data: '') (strings_Split nl (sse_text p)) @ [[]])"
| "op_lines (OpEvent e d) = [''event: '' @ e, ''data: '' @ d, []]"

abbreviation unlines :: "string list \<Rightarrow> string" where
  "unlines ls \<equiv> concat (map (\<lambda>l. l @ [nl]) ls)"

lemma put_lines_ok:
  "rw_fault w = (\<lambda>_. None) \<Longrightarrow>
   \<exists>w'. put_lines ls w = (None, w') \<and> rw_fault w' = (\<lambda>_. None) \<and> rw_out w' = rw_out w @ unlines (map ((@) ''data: '') ls)"
proof (induction ls arbitrary: w)
  case (Cons l ls)
  let ?w = "w\<lparr>rw_out := rw_out w @ ''data: '' @ l @ [nl], rw_writes := Suc (rw_writes w)\<rparr>"
  from Cons.IH [of ?w] Cons.prems show ?case by (auto simp: rw_put_def)
qed simp

lemma run_op_out:
  assumes "rw_fault w = (\<lambda>_. None)"
  shows "rw_out (run_op x w) = rw_out w @ unlines (op_lines x)" "rw_fault (run_op x w) = (\<lambda>_. None)"
proof -
  have "rw_out (run_op x w) = rw_out w @ unlines (op_lines x) \<and> rw_fault (run_op x w) = (\<lambda>_. None)"
  proof (cases x)
    case (OpWrite p)
    from put_lines_ok [OF assms, of "strings_Split nl (sse_text p)"] obtain w'
      where "put_lines (strings_Split nl (sse_text p)) w = (None, w')" "rw_fault w' = (\<lambda>_. None)"
        "rw_out w' = rw_out w @ unlines (map ((@) ''data: '') (strings_Split nl (sse_text p)))" by blast
    with OpWrite assms show ?thesis by (auto simp: sse_Write_def rw_put_def rw_Flush_def Let_def)
  next
    case (OpEvent e d)
    with assms show ?thesis by (simp add: sse_WriteEvent_def rw_put_def rw_Flush_def)
  qed
  then show "rw_out (run_op x w) = rw_out w @ unlines (op_lines x)" "rw_fault (run_op x w) = (\<lambda>_. None)" by blast+
qed

lemma fold_run_out:
  "rw_fault w = (\<lambda>_. None) \<Longrightarrow> rw_out (fold run_op xs w) = rw_out w @ unlines (concat (map op_lines xs))"
  by (induction xs arbitrary: w) (simp_all add: run_op_out)

lemma sse_newlines_id: "cr \<notin> set s \<Longrightarrow> sse_newlines s = s"
  by (induction s rule: sse_newlines.induct) auto

lemma dropWhile_neq: "c \<notin> set xs \<Longrightarrow> dropWhile (\<lambda>x. x \<noteq> c) (xs @ c # ys) = c # ys \<and> takeWhile (\<lambda>x. x \<noteq> c) (xs @ c # ys) = xs"
  by (induction xs) auto

lemma field_data: "sse_field (''data: '' @ l) = (''data'', l)" "sse_field (''event: '' @ l) = (''event'', l)"
  by (simp_all add: sse_field_def Let_def)

lemma fold_data:
  "fold sse_step (map ((@) ''data: '') ls) (buf, ty, evs) = (buf @ unlines ls, ty, evs)"
proof (induction ls arbitrary: buf)
  case (Cons l ls)
  have "sse_step (''data: '' @ l) (buf, ty, evs) = (buf @ l @ [nl], ty, evs)"
    using field_data(1) [of l] by simp
  with Cons show ?case by simp
qed simp

lemma unlines_Join: "ls \<noteq> [] \<Longrightarrow> unlines ls = strings_Join [nl] ls @ [nl]"
  by (induction "[nl]" ls rule: strings_Join.induct) auto

lemma fold_op: "op_ok x \<Longrightarrow> fold sse_step (op_lines x) ([], [], evs) = ([], [], evs @ op_events x)"
proof (cases x)
  case (OpWrite p)
  assume "op_ok x"
  with OpWrite sse_text_op [of p] show ?thesis by (auto simp: fold_data unlines_Join)
next
  case (OpEvent e d)
  have "sse_step (''event: '' @ e) ([], [], evs) = ([], e, evs)" "sse_step (''data: '' @ d) ([], e, evs) = (d @ [nl], e, evs)"
    using field_data by simp_all
  with OpEvent show ?thesis by simp
qed

lemma fold_ops: "list_all op_ok xs \<Longrightarrow> fold sse_step (concat (map op_lines xs)) ([], [], evs) = ([], [], evs @ concat (map op_events xs))"
  by (induction xs arbitrary: evs) (simp_all add: fold_op)

lemma op_lines_clean:
  assumes "op_ok x" "l \<in> set (op_lines x)"
  shows "cr \<notin> set l" "nl \<notin> set l"
proof -
  have "l' \<in> set (strings_Split nl s) \<Longrightarrow> set l' \<subseteq> set s" for l' s
  proof (induction s arbitrary: l')
    case (Cons c s)
    then show ?case by (cases "strings_Split nl s") (fastforce split: if_splits)+
  qed simp
  with assms sse_text_op show "cr \<notin> set l" "nl \<notin> set l"
    by (cases x; fastforce split: if_splits dest: Split_parts_no_sep)+
qed

lemma sse_stream:
  assumes "list_all op_ok xs"
  shows "sse_parse (unlines (concat (map op_lines xs))) = concat (map op_events xs)"
proof -
  let ?ls = "concat (map op_lines xs)"
  have clean: "l \<in> set ?ls \<Longrightarrow> cr \<notin> set l \<and> nl \<notin> set l" for l
    using assms op_lines_clean by (fastforce simp: list_all_iff)
  then have "sse_newlines (unlines ?ls) = unlines ?ls" by (intro sse_newlines_id) auto
  moreover have "strings_Split nl (unlines ?ls) = ?ls @ [[]]"
    using Split_lines [of ?ls nl "[]"] clean by simp
  ultimately show ?thesis using fold_ops [of xs "[]"] assms by (simp add: sse_parse_def sse_lines_def)
qed

text \<open>
  C37. On a connection that takes every write, the events that a browser reads from a stream of \<open>Write\<close> and
  \<open>WriteEvent\<close> calls are exactly the calls: each \<open>Write\<close> is one event whose data is its text with CRLF as
  LF and without the newlines at its end, even over several lines (a \<open>Write\<close> with no text is none), and each
  \<open>WriteEvent\<close> is one event of its type with its data. A carriage return may occur in front of a newline only,
  and a named event must fit on one line.
\<close>

theorem sse_roundtrip:
  assumes "rw_fault w = (\<lambda>_. None)" and "rw_out w = []" and "list_all op_ok xs"
  shows "sse_parse (rw_out (fold run_op xs w)) = concat (map op_events xs)"
  using assms by (simp add: fold_run_out sse_stream)

definition demo_response :: response where
  "demo_response = \<lparr>rw_Header = [], rw_status = None, rw_out = [], rw_flushed = 0, rw_writes = 0, rw_fault = (\<lambda>_. None), rw_Flusher = True\<rparr>"

theorem sse_roundtrip_witness:
  "sse_parse (rw_out (fold run_op [OpWrite (''a'' @ [cr, nl] @ ''b'' @ [nl]), OpEvent ''x'' ''1'', OpWrite [nl]] demo_response))
   = [([], ''a'' @ [nl] @ ''b''), (''x'', ''1'')]"
proof -
  have "list_all op_ok [OpWrite (''a'' @ [cr, nl] @ ''b'' @ [nl]), OpEvent ''x'' ''1'', OpWrite [nl]]" by code_simp
  moreover have "concat (map op_events [OpWrite (''a'' @ [cr, nl] @ ''b'' @ [nl]), OpEvent ''x'' ''1'', OpWrite [nl]])
    = [([], ''a'' @ [nl] @ ''b''), (''x'', ''1'')]" by code_simp
  moreover have "rw_fault demo_response = (\<lambda>_. None)" "rw_out demo_response = []" by (simp_all add: demo_response_def)
  ultimately show ?thesis using sse_roundtrip by (simp only:)
qed

text \<open>
  A newline in the data of \<open>WriteEvent\<close> ends the event early, and a single carriage return in the data of
  \<open>Write\<close> loses what follows it.
\<close>

lemma WriteEvent_newline: "sse_parse (unlines (op_lines (OpEvent ''x'' (''1'' @ [nl] @ ''2'')))) = [(''x'', ''1'')]"
  by code_simp

lemma Write_lone_cr: "sse_parse (unlines (op_lines (OpWrite (''1'' @ [cr] @ ''2'')))) = [([], ''1'')]"
  by code_simp

subsection \<open>Lemmas: static files\<close>

lemma static_root:
  "StaticServe hfs_Open serve nf [] path =
     (if hfs_Open path \<or> (strings_HasSuffix path ''/'' \<and> hfs_Open (path @ ''index.html'')) then Served (serve path)
      else if filepath_Ext path \<noteq> [] then AbortWithStatus 404
      else Served (serve ''/''))"
  by (simp add: StaticServe_def Let_def)

lemma Ext_append: "filepath_Ext p \<noteq> [] \<Longrightarrow> p = CHR ''/'' # p' \<Longrightarrow> filepath_Ext (pre @ p) \<noteq> []"
proof -
  assume "filepath_Ext p \<noteq> []" "p = CHR ''/'' # p'"
  moreover have "takeWhile (\<lambda>c. c \<noteq> CHR ''/'') (rev p' @ CHR ''/'' # rev pre) = takeWhile (\<lambda>c. c \<noteq> CHR ''/'') (rev p' @ [CHR ''/''])"
    by (auto simp: takeWhile_append)
  ultimately show ?thesis by (simp add: filepath_Ext_def Let_def)
qed

text \<open>Only the files of the last call are served: each replaces the one handler there is for unknown paths.\<close>

lemma static_last_wins:
  assumes "httpd_Static root pre (Some e) = Inr e1" and "StaticEmbed pre2 sub (Some e1) = Inr e2"
  shows "noRoute_reply hfs_Open serve nf e2 path =
    (let files = if sub = [] then EmbedFiles else EmbedSub sub in Some (StaticServe (hfs_Open files) (serve files) nf pre2 path))"
  using assms by (auto simp: httpd_Static_def StaticEmbed_def httpd_NoRoute_def with_engine_def noRoute_reply_def Let_def)

text \<open>Middleware that is added after a group was made is not part of the group.\<close>

lemma group_before_use:
  assumes "httpd_Group path hs (Some e) = Inr g" and "httpd_Use ms (Some e) = Inr e'"
  shows "rg_handlers g = he_use e @ hs \<and> he_use e' = he_use e @ ms"
  using assms by (auto simp: httpd_Group_def httpd_Use_def with_engine_def)

text \<open>
  C40. Serving files under a prefix does not find them: the handler looks a request's path up with the prefix
  still in it, so a file \<open>p\<close> with an extension that the file system has, requested as prefix and \<open>p\<close>, is
  answered with 404 unless the prefix is a directory of the files as well; and the fallback to the start page
  is 404 too, because its path \<open>/\<close> has no prefix.
\<close>

theorem static_prefix_not_found:
  assumes "length pre > 1" and "p = CHR ''/'' # p'" and "hfs_Open p" and "filepath_Ext p \<noteq> []"
    and "\<forall>q. \<not> hfs_Open (pre @ q)"
  shows "StaticServe hfs_Open serve nf pre (pre @ p) = AbortWithStatus 404
    \<and> (\<forall>q. filepath_Ext (pre @ q) = [] \<longrightarrow> StaticServe hfs_Open serve nf pre (pre @ q) = Served nf)"
proof -
  have "\<not> strings_HasPrefix ''/'' pre" using assms(1) by (auto dest: prefix_length_le)
  moreover have "pre \<noteq> []" using assms(1) by auto
  ultimately show ?thesis using Ext_append [OF assms(4,2), of pre] assms(5)
    by (auto simp: StaticServe_def StripPrefix_def Let_def)
qed

theorem static_prefix_not_found_witness:
  "StaticServe (\<lambda>q. q = ''/app.js'') (\<lambda>q. q) ''none'' ''/static'' ''/static/app.js'' = AbortWithStatus 404
   \<and> StaticServe (\<lambda>q. q = ''/app.js'') (\<lambda>q. q) ''none'' ''/static'' ''/static/home'' = Served ''none''"
proof -
  have "filepath_Ext ''/app.js'' \<noteq> []" "filepath_Ext (''/static'' @ ''/home'') = []" by code_simp+
  then show ?thesis
    using static_prefix_not_found [of "''/static''" "''/app.js''" "''app.js''" "\<lambda>q. q = ''/app.js''" "\<lambda>q. q" "''none''"] by simp
qed

end
