(* ===== verification/Psutil.thy ===== *)
theory Psutil
  imports Request "HOL-Library.Word"
begin

text \<open>
  System statistics (src/psutil): the public address and its cache (ipaddr.go), the instance id of a cloud
  (cloud.go), the summary and the details of the host (systat.go, typing.go) and Go's memory (mstat.go).
  gopsutil, the network interfaces and the runtime are the environment; a pointer that a call may return as
  nil is an option. A \<open>uint64\<close> is a \<^typ>\<open>64 word\<close>.
\<close>

subsection \<open>Addresses\<close>

record public_addr =
  pa_v4 :: string
  pa_v6 :: string

definition public_update :: "string \<Rightarrow> string \<Rightarrow> public_addr \<Rightarrow> public_addr" where
  "public_update newV4 newV6 st =
     (let st1 = (if newV4 \<noteq> [] then st\<lparr>pa_v4 := newV4\<rparr> else st)
      in if newV6 \<noteq> [] then st1\<lparr>pa_v6 := newV6\<rparr> else st1)"

text \<open>
  The cache is read under the read lock and written under the write lock; in between the two requests are
  made, so the state at the update, \<open>st1\<close>, can differ from the one that was read, \<open>st0\<close>.
\<close>

definition PublicAddress :: "http_env \<Rightarrow> bool \<Rightarrow> public_addr \<Rightarrow> public_addr \<Rightarrow> (string \<times> string) \<times> public_addr" where
  "PublicAddress env force st0 st1 =
     (if \<not> force \<and> pa_v4 st0 \<noteq> [] \<and> pa_v6 st0 \<noteq> [] then ((pa_v4 st0, pa_v6 st0), st1)
      else let newV4 = strings_TrimSpace (TimingGet env ''http://ipv4.rehi.org/ip'' [] 10);
               newV6 = strings_TrimSpace (TimingGet env ''http://ipv6.rehi.org/ip'' [] 10);
               st2 = public_update newV4 newV6 st1
           in ((pa_v4 st2, pa_v6 st2), st2))"

text \<open>What \<open>net.Addr\<close> tells of an address.\<close>

record net_addr =
  na_IPNet :: bool
  na_GlobalUnicast :: bool
  na_To4 :: bool
  na_String :: string

text \<open>\<open>if_all\<close> are the addresses of all interfaces, \<open>if_named\<close> those of one, if it exists.\<close>

definition InterfaceAddrs :: "net_addr list \<Rightarrow> (string \<Rightarrow> net_addr list option) \<Rightarrow> string \<Rightarrow> string list \<times> string list" where
  "InterfaceAddrs if_all if_named name =
     (let addrs = (if name = [] then if_all else case if_named name of None \<Rightarrow> [] | Some as \<Rightarrow> as);
          ok = filter (\<lambda>a. na_IPNet a \<and> na_GlobalUnicast a) addrs
      in (map na_String (filter na_To4 ok), map na_String (filter (\<lambda>a. \<not> na_To4 a) ok)))"

subsection \<open>The instance id\<close>

text \<open>The metadata services in the order in which they are asked, with the headers they need.\<close>

definition metadata_services :: "(string \<times> header_map) list" where
  "metadata_services =
     [(''http://100.100.100.200/latest/meta-data/instance-id'', []),
      (''http://metadata.tencentyun.com/latest/meta-data/instance-id'', []),
      (''http://169.254.169.254/latest/meta-data/instance-id'', []),
      (''http://169.254.169.254/metadata/instance/compute/vmId?api-version=2021-01-01'', [(''Metadata'', ''true'')]),
      (''http://metadata.google.internal/computeMetadata/v1/instance/id'', [(''Metadata-Flavor'', ''Google'')]),
      (''http://169.254.169.254/metadata/v1/id'', [])]"

fun first_answer :: "http_env \<Rightarrow> (string \<times> header_map) list \<Rightarrow> string" where
  "first_answer env [] = []"
| "first_answer env ((url, headers) # services) =
     (let mid = TimingGet env url headers 3
      in if mid \<noteq> [] then strings_TrimSpace mid else first_answer env services)"

definition CloudInstanceID :: "http_env \<Rightarrow> string" where
  "CloudInstanceID env = first_answer env metadata_services"

subsection \<open>Summary\<close>

record host_info =
  hi_HostID :: string
  hi_Hostname :: string
  hi_Uptime :: "64 word"
  hi_OS :: string
  hi_Platform :: string
  hi_KernelArch :: string

record used_of =
  uo_Total :: "64 word"
  uo_Used :: "64 word"

record 'f SummaryStat =
  ss_CreateAt :: int
  ss_HostId :: string
  ss_HostName :: string
  ss_Uptime :: "64 word"
  ss_OS :: string
  ss_Platform :: string
  ss_KernelArch :: string
  ss_CPUCore :: int
  ss_CPUCoreLogic :: int
  ss_CpuPercent :: "'f list"
  ss_MemoryTotal :: "64 word"
  ss_MemoryUsed :: "64 word"
  ss_PublicIPv4 :: string
  ss_PublicIPv6 :: string

record NetInterface =
  ni_Name :: string
  ni_BytesRecv :: "64 word"
  ni_BytesSent :: "64 word"
  ni_Dropin :: "64 word"
  ni_Dropout :: "64 word"
  ni_Ipv4List :: "string list"
  ni_Ipv6List :: "string list"

record DiskPartition =
  dp_Device :: string
  dp_Mountpoint :: string
  dp_Fstype :: string
  dp_Total :: "64 word"
  dp_Used :: "64 word"

record 'f DetailStat =
  ds_Summary :: "'f SummaryStat"
  ds_CpuModel :: "string list"
  ds_NetInterface :: "NetInterface list"
  ds_NetBytesRecv :: "64 word"
  ds_NetBytesSent :: "64 word"
  ds_DiskPartition :: "DiskPartition list"
  ds_DiskTotal :: "64 word"
  ds_DiskUsed :: "64 word"
  ds_DiskReadBytes :: "64 word"
  ds_DiskWriteBytes :: "64 word"
  ds_SwapTotal :: "64 word"
  ds_SwapUsed :: "64 word"

text \<open>
  What gopsutil reports. A counter of the network is an interface record without addresses; a partition is
  its device, mount point and type.
\<close>

record 'f host_env =
  hv_now :: int
  hv_host :: "host_info option"
  hv_cpu_logic :: int
  hv_cpu_phys :: int
  hv_cpu_percent :: "'f list"
  hv_memory :: "used_of option"
  hv_cpu_models :: "string list"
  hv_net :: "NetInterface list"
  hv_disk_io :: "(64 word \<times> 64 word) list"
  hv_partitions :: "(string \<times> string \<times> string) list"
  hv_usage :: "string \<Rightarrow> used_of option"
  hv_swap :: "used_of option"
  hv_if_all :: "net_addr list"
  hv_if_named :: "string \<Rightarrow> net_addr list option"

definition nil_deref :: go_error where
  "nil_deref = Panic ''invalid memory address or nil pointer dereference''"

text \<open>The text form of a summary, and reading it back; both drop the error of the JSON coder.\<close>

definition SummaryStat_From :: "(bytes \<Rightarrow> 'f SummaryStat \<Rightarrow> go_error option \<times> 'f SummaryStat) \<Rightarrow> string \<Rightarrow> 'f SummaryStat \<Rightarrow> 'f SummaryStat" where
  "SummaryStat_From json_Unmarshal s p = snd (json_Unmarshal s p)"

definition SummaryStat_String :: "('f SummaryStat \<Rightarrow> bytes go_result) \<Rightarrow> 'f SummaryStat \<Rightarrow> string" where
  "SummaryStat_String json_Marshal p = (case json_Marshal p of Inl _ \<Rightarrow> [] | Inr jsonbyte \<Rightarrow> jsonbyte)"

definition Summary :: "http_env \<Rightarrow> 'f host_env \<Rightarrow> bool \<Rightarrow> public_addr \<Rightarrow> 'f SummaryStat go_result \<times> public_addr" where
  "Summary env hv withAddr st =
     (case (hv_host hv, hv_memory hv) of
        (Some hi, Some mv) \<Rightarrow>
          (let ((ipv4, ipv6), st1) = (if withAddr then PublicAddress env False st st else (([], []), st))
           in (Inr \<lparr>ss_CreateAt = hv_now hv, ss_HostId = hi_HostID hi, ss_HostName = hi_Hostname hi, ss_Uptime = hi_Uptime hi,
                    ss_OS = hi_OS hi, ss_Platform = hi_Platform hi, ss_KernelArch = hi_KernelArch hi,
                    ss_CPUCore = hv_cpu_phys hv, ss_CPUCoreLogic = hv_cpu_logic hv, ss_CpuPercent = hv_cpu_percent hv,
                    ss_MemoryTotal = uo_Total mv, ss_MemoryUsed = uo_Used mv, ss_PublicIPv4 = ipv4, ss_PublicIPv6 = ipv6\<rparr>, st1))
      | _ \<Rightarrow> (Inl nil_deref, st))"

subsection \<open>Details\<close>

text \<open>The interfaces with traffic, with their addresses when they are asked for, and the two sums.\<close>

definition detail_net :: "'f host_env \<Rightarrow> bool \<Rightarrow> NetInterface list \<times> 64 word \<times> 64 word" where
  "detail_net hv withAddr =
     (map (\<lambda>nio. if withAddr
                  then (case InterfaceAddrs (hv_if_all hv) (hv_if_named hv) (ni_Name nio) of
                          (v4, v6) \<Rightarrow> nio\<lparr>ni_Ipv4List := v4, ni_Ipv6List := v6\<rparr>)
                  else nio\<lparr>ni_Ipv4List := [], ni_Ipv6List := []\<rparr>)
        (filter (\<lambda>nio. ni_BytesRecv nio > 0 \<or> ni_BytesSent nio > 0) (hv_net hv)),
      sum_list (map ni_BytesRecv (hv_net hv)), sum_list (map ni_BytesSent (hv_net hv)))"

text \<open>One turn of the loop over the partitions; \<open>diskTotaled\<close> are the devices so far, a comma after each.\<close>

fun detail_disk :: "(string \<Rightarrow> used_of option) \<Rightarrow> (string \<times> string \<times> string) list
    \<Rightarrow> DiskPartition list \<times> string \<times> 64 word \<times> 64 word \<Rightarrow> (DiskPartition list \<times> string \<times> 64 word \<times> 64 word) go_result" where
  "detail_disk usage [] acc = Inr acc"
| "detail_disk usage ((device, mountpoint, fstype) # ps) (parts, diskTotaled, diskTotal, diskUsed) =
     (case usage mountpoint of
        None \<Rightarrow> Inl nil_deref
      | Some du \<Rightarrow>
          detail_disk usage ps
            (let parts1 = (if uo_Total du > 0 \<or> uo_Used du > 0
                           then parts @ [\<lparr>dp_Device = device, dp_Mountpoint = mountpoint, dp_Fstype = fstype,
                                          dp_Total = uo_Total du, dp_Used = uo_Used du\<rparr>]
                           else parts)
             in if \<not> strings_Contains diskTotaled device
                then (parts1, diskTotaled @ device @ '','', diskTotal + uo_Total du, diskUsed + uo_Used du)
                else (parts1, diskTotaled, diskTotal, diskUsed)))"

definition Detail :: "http_env \<Rightarrow> 'f host_env \<Rightarrow> bool \<Rightarrow> public_addr \<Rightarrow> 'f DetailStat go_result \<times> public_addr" where
  "Detail env hv withAddr st =
     (case detail_disk (hv_usage hv) (hv_partitions hv) ([], '','', 0, 0) of
        Inl e \<Rightarrow> (Inl e, st)
      | Inr (diskPartition, _, diskTotal, diskUsed) \<Rightarrow>
          (case Summary env hv withAddr st of
             (Inl e, st1) \<Rightarrow> (Inl e, st1)
           | (Inr summary, st1) \<Rightarrow>
               (case hv_swap hv of
                  None \<Rightarrow> (Inl nil_deref, st1)
                | Some sw \<Rightarrow>
                    (case detail_net hv withAddr of
                       (netInterface, netBytesRecv, netBytesSent) \<Rightarrow>
                         (Inr \<lparr>ds_Summary = summary, ds_CpuModel = hv_cpu_models hv, ds_NetInterface = netInterface,
                               ds_NetBytesRecv = netBytesRecv, ds_NetBytesSent = netBytesSent, ds_DiskPartition = diskPartition,
                               ds_DiskTotal = diskTotal, ds_DiskUsed = diskUsed,
                               ds_DiskReadBytes = sum_list (map fst (hv_disk_io hv)),
                               ds_DiskWriteBytes = sum_list (map snd (hv_disk_io hv)),
                               ds_SwapTotal = uo_Total sw, ds_SwapUsed = uo_Used sw\<rparr>, st1)))))"

subsection \<open>Go's memory\<close>

record MemStats =
  ms_Alloc :: "64 word"
  ms_Sys :: "64 word"
  ms_HeapAlloc :: "64 word"
  ms_HeapInuse :: "64 word"
  ms_HeapIdle :: "64 word"
  ms_HeapReleased :: "64 word"
  ms_HeapObjects :: "64 word"
  ms_HeapSys :: "64 word"
  ms_StackInuse :: "64 word"
  ms_StackSys :: "64 word"
  ms_TotalAlloc :: "64 word"
  ms_LastGC :: "64 word"
  ms_NumGC :: "32 word"

text \<open>The result has the same fields; the time of the last collection is in seconds.\<close>

definition GoMemory :: "MemStats \<Rightarrow> MemStats" where
  "GoMemory mstat = mstat\<lparr>ms_LastGC := ms_LastGC mstat div 1000000000\<rparr>"

subsection \<open>Lemmas: what the totals count\<close>

lemma Contains_part:
  assumes "strings_Contains s sub" "c \<notin> set sub"
  shows "\<exists>l \<in> set (strings_Split c s). strings_Contains l sub"
proof -
  from assms(1) obtain a b where s: "s = a @ sub @ b" by (auto simp: Contains_iff)
  have "strings_Split c (sub @ b) = (sub @ hd (strings_Split c b)) # tl (strings_Split c b)"
    using Split_append_hd [of c sub b] Split_no_sep [OF assms(2)] by simp
  then have "last (strings_Split c a) @ sub @ hd (strings_Split c b) \<in> set (strings_Split c s)"
    using Split_append_hd [of c a "sub @ b"] by (simp add: s)
  moreover have "strings_Contains (last (strings_Split c a) @ sub @ hd (strings_Split c b)) sub"
    unfolding Contains_iff by blast
  ultimately show ?thesis by blast
qed

text \<open>Device names without commas, none of them empty or part of another one.\<close>

definition separate_devices :: "string list \<Rightarrow> bool" where
  "separate_devices ds \<longleftrightarrow>
     (\<forall>d\<in>set ds. d \<noteq> [] \<and> CHR '','' \<notin> set d \<and> (\<forall>d'\<in>set ds. strings_Contains d' d \<longrightarrow> d' = d))"

abbreviation listed :: "string list \<Rightarrow> string" where
  "listed seen \<equiv> '','' @ concat (map (\<lambda>d. d @ '','') seen)"

lemma listed_Contains:
  assumes "separate_devices ds" "set seen \<subseteq> set ds" "d \<in> set ds"
  shows "strings_Contains (listed seen) d \<longleftrightarrow> d \<in> set seen"
proof
  assume c: "strings_Contains (listed seen) d"
  have d: "d \<noteq> []" "CHR '','' \<notin> set d" using assms(1,3) by (auto simp: separate_devices_def)
  have "strings_Split (CHR '','') (listed seen) = [] # seen @ [[]]"
    using Split_lines [of seen "CHR '',''" "[]"] assms(1,2) by (auto simp: separate_devices_def)
  with Contains_part [OF c d(2)] d(1) obtain l where "l \<in> set seen" "strings_Contains l d" by auto
  with assms show "d \<in> set seen" by (auto simp: separate_devices_def)
next
  assume "d \<in> set seen"
  then obtain xs ys where "seen = xs @ d # ys" by (auto simp: in_set_conv_decomp)
  then have "listed seen = ('','' @ concat (map (\<lambda>d. d @ '','') xs)) @ d @ ('','' @ concat (map (\<lambda>d. d @ '','') ys))" by simp
  then show "strings_Contains (listed seen) d" unfolding Contains_iff by blast
qed

text \<open>The reference: the first partition of each device.\<close>

fun first_parts :: "string list \<Rightarrow> (string \<times> string \<times> string) list \<Rightarrow> (string \<times> string \<times> string) list" where
  "first_parts seen [] = []"
| "first_parts seen (p # ps) = (if fst p \<in> set seen then first_parts seen ps else p # first_parts (seen @ [fst p]) ps)"

lemma detail_disk_from:
  assumes "separate_devices ds" "set seen \<union> fst ` set ps \<subseteq> set ds" "\<forall>p\<in>set ps. usage (fst (snd p)) = Some (du (fst (snd p)))"
  shows "\<exists>parts'. detail_disk usage ps (parts, listed seen, t, u) =
      Inr (parts', listed (seen @ map fst (first_parts seen ps)),
           t + sum_list (map (\<lambda>p. uo_Total (du (fst (snd p)))) (first_parts seen ps)),
           u + sum_list (map (\<lambda>p. uo_Used (du (fst (snd p)))) (first_parts seen ps)))
    \<and> map dp_Mountpoint parts' = map dp_Mountpoint parts @
        map (fst \<circ> snd) (filter (\<lambda>p. uo_Total (du (fst (snd p))) > 0 \<or> uo_Used (du (fst (snd p))) > 0) ps)"
  using assms(2,3)
proof (induction ps arbitrary: parts seen t u)
  case (Cons p ps)
  obtain d m ty where p: "p = (d, m, ty)" by (cases p)
  let ?new = "\<lparr>dp_Device = d, dp_Mountpoint = m, dp_Fstype = ty, dp_Total = uo_Total (du m), dp_Used = uo_Used (du m)\<rparr>"
  define parts1 where "parts1 = (if uo_Total (du m) > 0 \<or> uo_Used (du m) > 0 then parts @ [?new] else parts)"
  have mem: "strings_Contains (listed seen) d \<longleftrightarrow> d \<in> set seen"
    by (rule listed_Contains [OF assms(1)]) (use Cons.prems p in auto)
  have us: "usage m = Some (du m)" using Cons.prems p by simp
  show ?case
  proof (cases "d \<in> set seen")
    case True
    with us mem have step: "detail_disk usage (p # ps) (parts, listed seen, t, u) = detail_disk usage ps (parts1, listed seen, t, u)"
      by (simp add: p parts1_def Let_def del: strings_Contains.simps)
    have pre: "set seen \<union> fst ` set ps \<subseteq> set ds" "\<forall>p\<in>set ps. usage (fst (snd p)) = Some (du (fst (snd p)))"
      using Cons.prems by auto
    from Cons.IH [OF pre, of parts1 t u] True show ?thesis unfolding step by (auto simp: p parts1_def)
  next
    case False
    with us mem have step: "detail_disk usage (p # ps) (parts, listed seen, t, u)
        = detail_disk usage ps (parts1, listed (seen @ [d]), t + uo_Total (du m), u + uo_Used (du m))"
      by (simp add: p parts1_def Let_def del: strings_Contains.simps)
    have pre: "set (seen @ [d]) \<union> fst ` set ps \<subseteq> set ds" "\<forall>p\<in>set ps. usage (fst (snd p)) = Some (du (fst (snd p)))"
      using Cons.prems p by auto
    from Cons.IH [OF pre, of parts1 "t + uo_Total (du m)" "u + uo_Used (du m)"] False
    show ?thesis unfolding step by (auto simp: p parts1_def add.assoc)
  qed
qed simp

lemma detail_disk_first:
  assumes "separate_devices (map fst ps)" "\<forall>p\<in>set ps. usage (fst (snd p)) = Some (du (fst (snd p)))"
  shows "\<exists>parts listing. detail_disk usage ps ([], '','', 0, 0) =
      Inr (parts, listing,
           sum_list (map (\<lambda>p. uo_Total (du (fst (snd p)))) (first_parts [] ps)),
           sum_list (map (\<lambda>p. uo_Used (du (fst (snd p)))) (first_parts [] ps)))
    \<and> map dp_Mountpoint parts = map (fst \<circ> snd) (filter (\<lambda>p. uo_Total (du (fst (snd p))) > 0 \<or> uo_Used (du (fst (snd p))) > 0) ps)"
  using detail_disk_from [OF assms(1), of "[]" ps usage du "[]" 0 0] assms(2) by (auto simp del: detail_disk.simps)

text \<open>
  C39. The details of a host count a device that is mounted several times once: the totals of the disks are the
  sums over the first partition of each device, and the partitions are all that have any space, in order.
  This holds when no device name is a part of another one.
\<close>

theorem Detail_disk_totals:
  assumes "separate_devices (map fst (hv_partitions hv))"
    and "\<forall>p\<in>set (hv_partitions hv). hv_usage hv (fst (snd p)) = Some (du (fst (snd p)))"
    and "Detail env hv withAddr st = (Inr d, st')"
  shows "ds_DiskTotal d = sum_list (map (\<lambda>p. uo_Total (du (fst (snd p)))) (first_parts [] (hv_partitions hv)))
    \<and> ds_DiskUsed d = sum_list (map (\<lambda>p. uo_Used (du (fst (snd p)))) (first_parts [] (hv_partitions hv)))
    \<and> map dp_Mountpoint (ds_DiskPartition d)
        = map (fst \<circ> snd) (filter (\<lambda>p. uo_Total (du (fst (snd p))) > 0 \<or> uo_Used (du (fst (snd p))) > 0) (hv_partitions hv))"
  using detail_disk_first [OF assms(1,2)] assms(3)
  by (auto simp: Detail_def split: prod.splits sum.splits option.splits)

definition demo_host :: "(string \<times> string \<times> string) list \<Rightarrow> unit host_env" where
  "demo_host ps =
     \<lparr>hv_now = 0, hv_host = Some \<lparr>hi_HostID = [], hi_Hostname = [], hi_Uptime = 0, hi_OS = [], hi_Platform = [], hi_KernelArch = []\<rparr>,
      hv_cpu_logic = 1, hv_cpu_phys = 1, hv_cpu_percent = [], hv_memory = Some \<lparr>uo_Total = 1, uo_Used = 1\<rparr>, hv_cpu_models = [],
      hv_net = [], hv_disk_io = [], hv_partitions = ps,
      hv_usage = (\<lambda>m. Some \<lparr>uo_Total = (if m = ''/'' then 100 else 7), uo_Used = 3\<rparr>),
      hv_swap = Some \<lparr>uo_Total = 0, uo_Used = 0\<rparr>, hv_if_all = [], hv_if_named = (\<lambda>_. None)\<rparr>"

abbreviation demo_mounts :: "(string \<times> string \<times> string) list" where
  "demo_mounts \<equiv> [(''/dev/a1'', ''/'', ''x''), (''/dev/b1'', ''/b'', ''x''), (''/dev/a1'', ''/snap'', ''x'')]"

theorem Detail_disk_totals_witness:
  "\<forall>env st. \<exists>d st'. Detail env (demo_host demo_mounts) False st = (Inr d, st') \<and> ds_DiskTotal d = 107
     \<and> map dp_Mountpoint (ds_DiskPartition d) = [''/'', ''/b'', ''/snap'']"
proof (intro allI)
  fix env st
  let ?du = "\<lambda>m. \<lparr>uo_Total = (if m = ''/'' then 100 else 7), uo_Used = 3\<rparr>"
  have sep: "separate_devices (map fst (hv_partitions (demo_host demo_mounts)))" by code_simp
  have us: "\<forall>p\<in>set (hv_partitions (demo_host demo_mounts)). hv_usage (demo_host demo_mounts) (fst (snd p)) = Some (?du (fst (snd p)))"
    by (simp add: demo_host_def)
  obtain parts listing t u where "detail_disk (hv_usage (demo_host demo_mounts)) (hv_partitions (demo_host demo_mounts)) ([], '','', 0, 0) = Inr (parts, listing, t, u)"
    using detail_disk_first [OF sep us] by blast
  then obtain d st' where run: "Detail env (demo_host demo_mounts) False st = (Inr d, st')"
    by (simp add: Detail_def Summary_def detail_net_def demo_host_def)
  have "first_parts [] (hv_partitions (demo_host demo_mounts)) = [(''/dev/a1'', ''/'', ''x''), (''/dev/b1'', ''/b'', ''x'')]"
    by (simp add: demo_host_def)
  with Detail_disk_totals [OF sep us run]
  have "ds_DiskTotal d = 107 \<and> map dp_Mountpoint (ds_DiskPartition d) = [''/'', ''/b'', ''/snap'']"
    by (simp add: demo_host_def)
  with run show "\<exists>d st'. Detail env (demo_host demo_mounts) False st = (Inr d, st') \<and> ds_DiskTotal d = 107
     \<and> map dp_Mountpoint (ds_DiskPartition d) = [''/'', ''/b'', ''/snap'']"
    by (intro exI [of _ d] exI [of _ st'] conjI) auto
qed

text \<open>With a device whose name is the beginning of another's, the totals miss it.\<close>

lemma disk_substring_missed:
  "(case detail_disk (\<lambda>m. Some \<lparr>uo_Total = 7, uo_Used = 3\<rparr>) [(''/dev/sda10'', ''/a'', ''x''), (''/dev/sda1'', ''/b'', ''x'')] ([], '','', 0, 0) of
      Inr (parts, _, space, _) \<Rightarrow> length parts = 2 \<and> space = 7 | Inl _ \<Rightarrow> False)"
  by (simp add: Let_def)

text \<open>A mount point whose usage cannot be read ends the process.\<close>

lemma disk_usage_error: "detail_disk (\<lambda>_. None) ((d, m, ty) # ps) (parts, ds, t, u) = Inl nil_deref"
  by simp

subsection \<open>Lemmas: the public address\<close>

text \<open>An address that is known is never forgotten, and with both known nothing is fetched.\<close>

lemma public_address_kept:
  "PublicAddress env force st0 st1 = (r, st2) \<Longrightarrow> (pa_v4 st1 \<noteq> [] \<longrightarrow> pa_v4 st2 \<noteq> []) \<and> (pa_v6 st1 \<noteq> [] \<longrightarrow> pa_v6 st2 \<noteq> [])"
  by (auto simp: PublicAddress_def public_update_def Let_def split: if_splits)

lemma public_address_cached:
  "pa_v4 st \<noteq> [] \<Longrightarrow> pa_v6 st \<noteq> [] \<Longrightarrow> PublicAddress env False st st1 = ((pa_v4 st, pa_v6 st), st1)"
  by (simp add: PublicAddress_def)

end
