(* ===== verification/Gpu.thy ===== *)
theory Gpu
  imports Go_Path "HOL-Library.Word"
begin

text \<open>
  Statistics of graphics cards (src/gpu): discovery and dispatch (stats.go), the vendors (nvidia.go, amd.go,
  intel.go, apple.go), the files under /sys (sysfs.go) and the parsers (helper.go). The discovery by ghw, the
  programs that are run, the files, CSV records and the 64-bit floating-point numbers are the environment;
  \<open>uint64\<close> is \<^typ>\<open>64 word\<close>.
\<close>

subsection \<open>Environment\<close>

text \<open>\<open>fl_Parse\<close> is \<open>strconv.ParseFloat\<close>: its value, and whether it has no error.\<close>

record 'f float_ops =
  fl_of :: "int \<Rightarrow> 'f"
  fl_Parse :: "string \<Rightarrow> 'f \<times> bool"
  fl_mul :: "'f \<Rightarrow> 'f \<Rightarrow> 'f"
  fl_div :: "'f \<Rightarrow> 'f \<Rightarrow> 'f"
  fl_le :: "'f \<Rightarrow> 'f \<Rightarrow> bool"
  fl_uint64 :: "'f \<Rightarrow> 64 word"

text \<open>A card of ghw: \<open>gc_DeviceInfo\<close> is the id of its vendor and the name of its product, each may be nil.\<close>

record gpu_card =
  gc_Address :: string
  gc_DeviceInfo :: "(string option \<times> string option) option"

text \<open>
  \<open>gx_csv\<close> lists what \<open>csv.Reader.Read\<close> answers before the end; \<open>gx_output\<close> is the output of a program that
  is stopped after two seconds; \<open>gx_lower\<close> lowers strings that are not ASCII.
\<close>

record 'f gpu_env =
  gx_float :: "'f float_ops"
  gx_lower :: "string \<Rightarrow> string"
  gx_GOOS :: string
  gx_cards :: "gpu_card list option go_result"
  gx_LookPath :: "string \<Rightarrow> string go_result"
  gx_output :: "string \<Rightarrow> string list \<Rightarrow> bytes go_result"
  gx_csv :: "bytes \<Rightarrow> string list go_result list"
  gx_Glob :: "string \<Rightarrow> string list"
  gx_ReadFile :: "string \<Rightarrow> bytes go_result"
  gx_Readlink :: "string \<Rightarrow> string go_result"

record 'f DeviceStat =
  gs_Address :: string
  gs_Name :: string
  gs_Vendor :: string
  gs_MemoryUsed :: "64 word"
  gs_MemoryTotal :: "64 word"
  gs_Utilization :: 'f
  gs_Temperature :: int
  gs_PowerUsage :: 'f
  gs_FanSpeed :: int

subsection \<open>Parsers\<close>

definition virtualVendorIDs :: "string list" where
  "virtualVendorIDs = [''15ad'', ''1234'', ''1af4'', ''1b36'', ''1414'', ''80ee'']"

definition IGPUKeywords :: "string list" where
  "IGPUKeywords = [''HD Graphics'', ''UHD Graphics'', ''Iris Graphics'', ''Iris Plus'', ''Iris Pro'', ''Iris Xe'', ''GMA'']"

definition normalizePCIAddress :: "(string \<Rightarrow> string) \<Rightarrow> string \<Rightarrow> string" where
  "normalizePCIAddress uni addr0 =
     (let addr = strings_ToLower uni (strings_TrimSpace addr0)
      in if addr = [] then []
         else case strings_Split (CHR '':'') addr of
                [domain, bus, dev] \<Rightarrow>
                  (let d = (if length domain > 4 then drop (length domain - 4) domain else domain)
                   in replicate (4 - length d) (CHR ''0'') @ d @ '':'' @ bus @ '':'' @ dev)
              | _ \<Rightarrow> addr)"

fun collect_records :: "string list go_result list \<Rightarrow> string list list go_result" where
  "collect_records [] = Inr []"
| "collect_records (Inl e # rs) = Inl e"
| "collect_records (Inr r # rs) = (case collect_records rs of Inl e \<Rightarrow> Inl e | Inr l \<Rightarrow> Inr (r # l))"

definition readCSVRecords :: "'f gpu_env \<Rightarrow> bytes \<Rightarrow> string list list go_result" where
  "readCSVRecords env data = collect_records (gx_csv env data)"

definition cardProductName :: "gpu_card \<Rightarrow> string" where
  "cardProductName gcard = (case gc_DeviceInfo gcard of Some (_, Some name) \<Rightarrow> name | _ \<Rightarrow> [])"

definition cardAddress :: "(string \<Rightarrow> string) \<Rightarrow> gpu_card \<Rightarrow> string" where
  "cardAddress uni gcard = normalizePCIAddress uni (gc_Address gcard)"

text \<open>The set of addresses; the empty list stands for nil too.\<close>

definition addressSet :: "(string \<Rightarrow> string) \<Rightarrow> gpu_card list \<Rightarrow> string list" where
  "addressSet uni cards = filter (\<lambda>a. a \<noteq> []) (map (cardAddress uni) cards)"

text \<open>A map from column names to indices; the last column of a name counts.\<close>

definition csvField :: "string list \<Rightarrow> (string \<Rightarrow> nat option) \<Rightarrow> string \<Rightarrow> string" where
  "csvField row colIdx key =
     (case colIdx key of
        Some idx \<Rightarrow> if idx < length row then strings_TrimSpace (row ! idx) else []
      | None \<Rightarrow> [])"

definition not_available :: "string \<Rightarrow> bool" where
  "not_available s \<longleftrightarrow> s = [] \<or> s = ''[N/A]'' \<or> s = ''N/A''"

definition parseIntOrDefault :: "string \<Rightarrow> int \<Rightarrow> int" where
  "parseIntOrDefault s0 def =
     (let s = strings_TrimSpace s0
      in if not_available s then def else case strconv_Atoi s of None \<Rightarrow> def | Some v \<Rightarrow> v)"

definition parseFloatOrDefault :: "'f float_ops \<Rightarrow> string \<Rightarrow> 'f \<Rightarrow> 'f" where
  "parseFloatOrDefault fl s0 def =
     (let s = strings_TrimSpace s0
      in if not_available s then def else case fl_Parse fl s of (v, ok) \<Rightarrow> if ok then v else def)"

definition parseUint64Bytes :: "'f gpu_env \<Rightarrow> string \<Rightarrow> string \<Rightarrow> 64 word" where
  "parseUint64Bytes env valStr unitStr =
     (let fl = gx_float env; k = fl_of fl 1024; v = fst (fl_Parse fl (strings_TrimSpace valStr));
          u = strings_ToLower (gx_lower env) (strings_TrimSpace unitStr)
      in if u = ''gb'' then fl_uint64 fl (fl_mul fl (fl_mul fl (fl_mul fl v k) k) k)
         else if u = ''mb'' then fl_uint64 fl (fl_mul fl (fl_mul fl v k) k)
         else if u = ''kb'' then fl_uint64 fl (fl_mul fl v k)
         else fl_uint64 fl v)"

subsection \<open>Files under /sys\<close>

definition findDRMCardDir :: "'f gpu_env \<Rightarrow> string \<Rightarrow> string" where
  "findDRMCardDir env pciAddr0 =
     (let pciAddr = normalizePCIAddress (gx_lower env) pciAddr0;
          hit = (\<lambda>entry.
            CHR ''-'' \<notin> set (filepath_Base entry) \<and>
            (let link = (case gx_Readlink env entry of Inl _ \<Rightarrow> entry | Inr l \<Rightarrow> l)
             in strings_Contains (strings_ToLower (gx_lower env) link) pciAddr
                \<or> (case gx_Readlink env (filepath_Join [entry, ''device'']) of
                     Inl _ \<Rightarrow> False
                   | Inr devLink \<Rightarrow> strings_Contains (strings_ToLower (gx_lower env) devLink) pciAddr)))
      in case find hit (gx_Glob env ''/sys/class/drm/card[0-9]*'') of Some entry \<Rightarrow> entry | None \<Rightarrow> [])"

definition readSysfsStr :: "'f gpu_env \<Rightarrow> string \<Rightarrow> string" where
  "readSysfsStr env p = (case gx_ReadFile env p of Inl _ \<Rightarrow> [] | Inr data \<Rightarrow> strings_TrimSpace data)"

definition parseSysfsUint64 :: "'f gpu_env \<Rightarrow> string \<Rightarrow> 64 word" where
  "parseSysfsUint64 env p = (let s = readSysfsStr env p in if s = [] then 0 else of_nat (strconv_ParseUint s))"

text \<open>Go's division of integers rounds towards zero.\<close>

definition go_quot :: "int \<Rightarrow> int \<Rightarrow> int" where
  "go_quot a b = sgn a * sgn b * (\<bar>a\<bar> div \<bar>b\<bar>)"

text \<open>\<open>strings.EqualFold\<close> with a word of the letters a to j, which have no other fold than their case.\<close>

definition EqualFold_simple :: "string \<Rightarrow> string \<Rightarrow> bool" where
  "EqualFold_simple s w \<longleftrightarrow> map ascii_lower s = map ascii_lower w"

fun replace_first :: "string \<Rightarrow> string \<Rightarrow> string \<Rightarrow> string" where
  "replace_first [] old new = (if old = [] then new else [])"
| "replace_first (c # s) old new =
     (if strings_HasPrefix (c # s) old then new @ drop (length old) (c # s) else c # replace_first s old new)"

fun first_some :: "('a \<Rightarrow> 'b option) \<Rightarrow> 'a list \<Rightarrow> 'b option" where
  "first_some f [] = None"
| "first_some f (x # xs) = (case f x of Some y \<Rightarrow> Some y | None \<Rightarrow> first_some f xs)"

definition hwmon_dirs :: "'f gpu_env \<Rightarrow> string \<Rightarrow> string list" where
  "hwmon_dirs env cardDir = gx_Glob env (filepath_Join [cardDir, ''device'', ''hwmon'', ''hwmon*''])"

definition readHwmonTemp :: "'f gpu_env \<Rightarrow> string \<Rightarrow> string \<Rightarrow> int" where
  "readHwmonTemp env cardDir label =
     (case first_some
             (\<lambda>hw. first_some
                (\<lambda>inp. if label \<noteq> [] \<and> \<not> EqualFold_simple (readSysfsStr env (replace_first inp ''_input'' ''_label'')) label then None
                       else let s = readSysfsStr env inp
                            in if s = [] then None else map_option (\<lambda>v. go_quot v 1000) (strconv_Atoi s))
                (gx_Glob env (filepath_Join [hw, ''temp*_input''])))
             (hwmon_dirs env cardDir) of
        Some v \<Rightarrow> v
      | None \<Rightarrow> -1)"

definition readHwmonPower :: "'f gpu_env \<Rightarrow> string \<Rightarrow> 'f" where
  "readHwmonPower env cardDir =
     (let fl = gx_float env
      in case first_some
                (\<lambda>hw. first_some
                   (\<lambda>inp. let s = readSysfsStr env inp
                          in if s = [] then None
                             else case fl_Parse fl s of (v, ok) \<Rightarrow> if ok then Some (fl_div fl v (fl_of fl 1000000)) else None)
                   (gx_Glob env (filepath_Join [hw, ''power*_average''])))
                (hwmon_dirs env cardDir) of
           Some v \<Rightarrow> v
         | None \<Rightarrow> fl_of fl (-1))"

definition readHwmonFanPercent :: "'f gpu_env \<Rightarrow> string \<Rightarrow> int" where
  "readHwmonFanPercent env cardDir =
     (case first_some
             (\<lambda>hw. let s = readSysfsStr env (filepath_Join [hw, ''pwm1''])
                   in if s = [] then None else map_option (\<lambda>v. go_quot (wrap64 (v * 100)) 255) (strconv_Atoi s))
             (hwmon_dirs env cardDir) of
        Some v \<Rightarrow> v
      | None \<Rightarrow> -1)"

subsection \<open>Intel and AMD from /sys\<close>

definition or_name :: "string \<Rightarrow> string \<Rightarrow> string" where
  "or_name a b = (if a = [] then b else a)"

text \<open>The readings of a card of both vendors; a negative temperature or power is the value for none.\<close>

definition card_temp :: "int \<Rightarrow> int" where
  "card_temp t = (if t \<ge> 0 then t else -1)"

definition card_power :: "'f float_ops \<Rightarrow> 'f \<Rightarrow> 'f" where
  "card_power fl p = (if fl_le fl (fl_of fl 0) p then p else fl_of fl (-1))"

definition intel_stat :: "'f gpu_env \<Rightarrow> gpu_card \<Rightarrow> 'f DeviceStat option" where
  "intel_stat env gcard =
     (let cardDir = findDRMCardDir env (gc_Address gcard); deviceDir = filepath_Join [cardDir, ''device'']; fl = gx_float env
      in if cardDir = [] then None
         else Some
           \<lparr>gs_Address = cardAddress (gx_lower env) gcard,
            gs_Name = or_name (or_name (cardProductName gcard) (readSysfsStr env (filepath_Join [deviceDir, ''product_name'']))) ''Intel GPU'',
            gs_Vendor = ''intel'',
            gs_MemoryUsed = parseSysfsUint64 env (filepath_Join [deviceDir, ''mem_info_vram_used'']),
            gs_MemoryTotal = parseSysfsUint64 env (filepath_Join [deviceDir, ''mem_info_vram_total'']),
            gs_Utilization = parseFloatOrDefault fl (readSysfsStr env (filepath_Join [deviceDir, ''gpu_busy_percent''])) (fl_of fl 0),
            gs_Temperature = card_temp (readHwmonTemp env cardDir []),
            gs_PowerUsage = card_power fl (readHwmonPower env cardDir),
            gs_FanSpeed = -1\<rparr>)"

definition collectIntelCards :: "'f gpu_env \<Rightarrow> gpu_card list \<Rightarrow> 'f DeviceStat list" where
  "collectIntelCards env cards = List.map_filter (intel_stat env) cards"

definition amd_stat :: "'f gpu_env \<Rightarrow> gpu_card \<Rightarrow> 'f DeviceStat option" where
  "amd_stat env gcard =
     (let cardDir = findDRMCardDir env (gc_Address gcard); deviceDir = filepath_Join [cardDir, ''device'']; fl = gx_float env;
          memTotal = parseSysfsUint64 env (filepath_Join [deviceDir, ''mem_info_vram_total'']);
          fan = readHwmonFanPercent env cardDir
      in if cardDir = [] then None
         else if memTotal = 0 then None
         else Some
           \<lparr>gs_Address = cardAddress (gx_lower env) gcard,
            gs_Name = or_name (or_name (cardProductName gcard) (readSysfsStr env (filepath_Join [deviceDir, ''product_name'']))) ''AMD GPU'',
            gs_Vendor = ''amd'',
            gs_MemoryUsed = parseSysfsUint64 env (filepath_Join [deviceDir, ''mem_info_vram_used'']),
            gs_MemoryTotal = memTotal,
            gs_Utilization = parseFloatOrDefault fl (readSysfsStr env (filepath_Join [deviceDir, ''gpu_busy_percent''])) (fl_of fl 0),
            gs_Temperature = card_temp (readHwmonTemp env cardDir ''edge''),
            gs_PowerUsage = card_power fl (readHwmonPower env cardDir),
            gs_FanSpeed = (if fan \<ge> 0 then fan else -1)\<rparr>)"

definition collectAMDSysfs :: "'f gpu_env \<Rightarrow> gpu_card list \<Rightarrow> 'f DeviceStat list" where
  "collectAMDSysfs env cards = List.map_filter (amd_stat env) cards"

subsection \<open>AMD from rocm-smi\<close>

text \<open>The column index: a map filled from left to right.\<close>

definition column_index :: "'f gpu_env \<Rightarrow> string list \<Rightarrow> string \<Rightarrow> nat option" where
  "column_index env header =
     map_of (rev (zip (map (\<lambda>h. strings_TrimSpace (strings_ToLower (gx_lower env) h)) header) [0..<length header]))"

definition rocm_stat :: "'f gpu_env \<Rightarrow> gpu_card list \<Rightarrow> (string \<Rightarrow> nat option) \<Rightarrow> nat \<Rightarrow> string list \<Rightarrow> 'f DeviceStat option" where
  "rocm_stat env cards colIdx cardIdx row =
     (let fl = gx_float env; col = csvField row colIdx;
          name1 = or_name (col ''card series'') (col ''name'');
          name2 = (if cardIdx < length cards \<and> name1 = [] then cardProductName (cards ! cardIdx) else name1);
          memTotal = parseUint64Bytes env (col ''vram total'') (col ''vram total unit'')
      in if memTotal = 0 then None
         else Some
           \<lparr>gs_Address = (if cardIdx < length cards then cardAddress (gx_lower env) (cards ! cardIdx) else []),
            gs_Name = strings_TrimSpace (or_name name2 ''AMD GPU''),
            gs_Vendor = ''amd'',
            gs_MemoryUsed = parseUint64Bytes env (col ''vram used'') (col ''vram used unit''),
            gs_MemoryTotal = memTotal,
            gs_Utilization = parseFloatOrDefault fl (col ''gpu use (%)'') (fl_of fl 0),
            gs_Temperature = parseIntOrDefault (col ''temperature (sensor edge) (c)'')
                               (parseIntOrDefault (col ''temperature (sensor junction) (c)'') (-1)),
            gs_PowerUsage = parseFloatOrDefault fl (col ''average graphics package power (w)'') (fl_of fl (-1)),
            gs_FanSpeed = -1\<rparr>)"

text \<open>The rows; an empty one is skipped without counting a card.\<close>

fun rocm_rows :: "'f gpu_env \<Rightarrow> gpu_card list \<Rightarrow> (string \<Rightarrow> nat option) \<Rightarrow> nat \<Rightarrow> string list list \<Rightarrow> 'f DeviceStat list" where
  "rocm_rows env cards colIdx cardIdx [] = []"
| "rocm_rows env cards colIdx cardIdx (row # rows) =
     (if row = [] then rocm_rows env cards colIdx cardIdx rows
      else case rocm_stat env cards colIdx cardIdx row of
             None \<Rightarrow> rocm_rows env cards colIdx (Suc cardIdx) rows
           | Some s \<Rightarrow> s # rocm_rows env cards colIdx (Suc cardIdx) rows)"

text \<open>A list of statistics and an error; a program that is not there is no error.\<close>

type_synonym 'f collected = "'f DeviceStat list \<times> go_error option"

definition run_tool :: "'f gpu_env \<Rightarrow> string \<Rightarrow> string list \<Rightarrow> bytes option go_result" where
  "run_tool env tool args =
     (case gx_LookPath env tool of
        Inl _ \<Rightarrow> Inr None
      | Inr p \<Rightarrow> if p = [] then Inr None else map_sum id Some (gx_output env p args))"

definition collectAMDRocmSMI :: "'f gpu_env \<Rightarrow> gpu_card list \<Rightarrow> 'f collected" where
  "collectAMDRocmSMI env cards =
     (case run_tool env ''rocm-smi'' [''--showid'', ''--showuse'', ''--showmeminfo'', ''vram'', ''--showtemp'', ''--showpower'', ''--csv''] of
        Inl e \<Rightarrow> ([], Some e)
      | Inr None \<Rightarrow> ([], None)
      | Inr (Some out) \<Rightarrow>
          (case readCSVRecords env out of
             Inl e \<Rightarrow> ([], Some e)
           | Inr (header # row # rows) \<Rightarrow> (rocm_rows env cards (column_index env header) 0 (row # rows), None)
           | Inr _ \<Rightarrow> ([], None)))"

definition collectAMDCards :: "'f gpu_env \<Rightarrow> gpu_card list \<Rightarrow> 'f collected" where
  "collectAMDCards env cards =
     (if cards \<noteq> [] \<and> collectAMDSysfs env cards \<noteq> [] then (collectAMDSysfs env cards, None)
      else collectAMDRocmSMI env cards)"

subsection \<open>NVIDIA from nvidia-smi\<close>

definition nvidia_stat :: "'f gpu_env \<Rightarrow> string list \<Rightarrow> string list \<Rightarrow> 'f DeviceStat option" where
  "nvidia_stat env allowed row =
     (if length row < 9 then None
      else let fl = gx_float env; k = fl_of fl 1024;
               busID = normalizePCIAddress (gx_lower env) (strings_TrimSpace (row ! 1));
               num = (\<lambda>i. fst (fl_Parse fl (strings_TrimSpace (row ! i))))
           in if allowed \<noteq> [] \<and> busID \<notin> set allowed then None
              else Some
                \<lparr>gs_Address = busID, gs_Name = strings_TrimSpace (row ! 2), gs_Vendor = ''nvidia'',
                 gs_MemoryUsed = fl_uint64 fl (fl_mul fl (fl_mul fl (num 3) k) k),
                 gs_MemoryTotal = fl_uint64 fl (fl_mul fl (fl_mul fl (num 4) k) k),
                 gs_Utilization = num 5,
                 gs_Temperature = parseIntOrDefault (strings_TrimSpace (row ! 6)) (-1),
                 gs_PowerUsage = parseFloatOrDefault fl (strings_TrimSpace (row ! 7)) (fl_of fl (-1)),
                 gs_FanSpeed = parseIntOrDefault (strings_TrimSpace (row ! 8)) (-1)\<rparr>)"

definition collectNvidiaSMI :: "'f gpu_env \<Rightarrow> gpu_card list \<Rightarrow> 'f collected" where
  "collectNvidiaSMI env cards =
     (case run_tool env ''nvidia-smi''
             [''--query-gpu=index,pci.bus_id,name,memory.used,memory.total,utilization.gpu,temperature.gpu,power.draw,fan.speed'',
              ''--format=csv,noheader,nounits''] of
        Inl e \<Rightarrow> ([], Some e)
      | Inr None \<Rightarrow> ([], None)
      | Inr (Some out) \<Rightarrow>
          (case readCSVRecords env out of
             Inl e \<Rightarrow> ([], Some e)
           | Inr records \<Rightarrow> (List.map_filter (nvidia_stat env (addressSet (gx_lower env) cards)) records, None)))"

definition collectNvidiaCards :: "'f gpu_env \<Rightarrow> gpu_card list \<Rightarrow> 'f collected" where
  "collectNvidiaCards env cards = collectNvidiaSMI env cards"

subsection \<open>Apple from ioreg\<close>

definition ioregUnquote :: "string \<Rightarrow> string" where
  "ioregUnquote s0 =
     (let s = strings_TrimSpace s0
      in if length s \<ge> 2 \<and> hd s = CHR 0x22 \<and> last s = CHR 0x22 then butlast (tl s) else s)"

definition ioregParseUint64 :: "string \<Rightarrow> 64 word" where
  "ioregParseUint64 s = of_nat (strconv_ParseUint (strings_TrimSpace s))"

text \<open>A map of strings is an association list, the newest entry first; a missing key reads as the empty string.\<close>

type_synonym kv_map = "(string \<times> string) list"

definition kv_get :: "kv_map \<Rightarrow> string \<Rightarrow> string" where
  "kv_get kv k = (case map_of kv k of Some v \<Rightarrow> v | None \<Rightarrow> [])"

definition dict_entry :: "string \<Rightarrow> (string \<times> string) option" where
  "dict_entry pair =
     (case strings_SplitN2 (CHR ''='') pair of
        [k, v] \<Rightarrow> Some (ioregUnquote (strings_TrimSpace k), strings_TrimSpace v)
      | _ \<Rightarrow> None)"

definition parseIORegDict :: "string \<Rightarrow> kv_map" where
  "parseIORegDict s0 =
     (let s = strings_TrimSuffix (strings_TrimPrefix (strings_TrimSpace s0) ''{'') ''}''
      in rev (List.map_filter dict_entry (strings_Split (CHR '','') s)))"

text \<open>
  The pattern \<open>"([^"]+)"\s*=\s*(.+)\<close> on a line: the leftmost match. The line ends in no white space, so
  what the last group takes is not cut.
\<close>

definition re_space :: "char \<Rightarrow> bool" where
  "re_space c \<longleftrightarrow> c \<in> {CHR 0x09, CHR 0x0A, CHR 0x0C, CHR 0x0D, CHR 0x20}"

definition ioreg_kv_at :: "string \<Rightarrow> (string \<times> string) option" where
  "ioreg_kv_at s =
     (let k = takeWhile (\<lambda>c. c \<noteq> CHR 0x22) s; r = dropWhile (\<lambda>c. c \<noteq> CHR 0x22) s
      in if k = [] \<or> r = [] then None
         else case dropWhile re_space (tl r) of
                [] \<Rightarrow> None
              | c # t \<Rightarrow> if c \<noteq> CHR ''='' then None
                         else let v = dropWhile re_space t
                              in if v \<noteq> [] then Some (k, v) else if t \<noteq> [] then Some (k, [last t]) else None)"

fun ioreg_kv :: "string \<Rightarrow> (string \<times> string) option" where
  "ioreg_kv [] = None"
| "ioreg_kv (c # s) =
     (if c = CHR 0x22 then (case ioreg_kv_at s of Some m \<Rightarrow> Some m | None \<Rightarrow> ioreg_kv s) else ioreg_kv s)"

definition buildAppleStat :: "'f float_ops \<Rightarrow> kv_map \<Rightarrow> 'f DeviceStat option" where
  "buildAppleStat fl kv =
     (let name = ioregUnquote (kv_get kv ''model''); perfRaw = kv_get kv ''PerformanceStatistics'';
          stat = \<lparr>gs_Address = [], gs_Name = name, gs_Vendor = ''apple'', gs_MemoryUsed = 0, gs_MemoryTotal = 0,
                  gs_Utilization = fl_of fl 0, gs_Temperature = -1, gs_PowerUsage = fl_of fl (-1), gs_FanSpeed = -1\<rparr>
      in if kv = [] then None
         else if name = [] then None
         else if perfRaw = [] then Some stat
         else let perf = parseIORegDict perfRaw
              in Some (stat\<lparr>gs_Utilization := parseFloatOrDefault fl (kv_get perf ''Device Utilization %'') (fl_of fl 0),
                            gs_MemoryUsed := ioregParseUint64 (kv_get perf ''In use system memory''),
                            gs_MemoryTotal := ioregParseUint64 (kv_get perf ''Alloc system memory'')\<rparr>))"

text \<open>The lines up to the first that the scanner's buffer of 64 KiB cannot hold.\<close>

definition scanner_lines :: "bytes \<Rightarrow> string list" where
  "scanner_lines data = map drop_cr (takeWhile (\<lambda>l. length l < 65536) (raw_lines data))"

fun ioreg_lines :: "'f float_ops \<Rightarrow> kv_map option \<Rightarrow> string list \<Rightarrow> 'f DeviceStat option list" where
  "ioreg_lines fl current [] = [buildAppleStat fl (case current of Some kv \<Rightarrow> kv | None \<Rightarrow> [])]"
| "ioreg_lines fl current (l # ls) =
     (let line = strings_TrimSpace l
      in if strings_HasPrefix line ''+-o ''
         then buildAppleStat fl (case current of Some kv \<Rightarrow> kv | None \<Rightarrow> []) # ioreg_lines fl (Some []) ls
         else case (ioreg_kv line, current) of
                (Some m, Some kv) \<Rightarrow> ioreg_lines fl (Some (m # kv)) ls
              | _ \<Rightarrow> ioreg_lines fl current ls)"

definition parseIORegGPUs :: "'f float_ops \<Rightarrow> bytes \<Rightarrow> 'f DeviceStat list" where
  "parseIORegGPUs fl data = List.map_filter id (ioreg_lines fl None (scanner_lines data))"

definition collectAppleGPUs :: "'f gpu_env \<Rightarrow> 'f collected" where
  "collectAppleGPUs env =
     (if gx_GOOS env \<noteq> ''darwin'' then ([], None)
      else case run_tool env ''ioreg'' [''-r'', ''-c'', ''AGXAccelerator'', ''-d'', ''1''] of
             Inl e \<Rightarrow> ([], Some e)
           | Inr None \<Rightarrow> ([], None)
           | Inr (Some out) \<Rightarrow> (parseIORegGPUs (gx_float env) out, None))"

subsection \<open>All cards\<close>

definition isIntegratedGPU :: "(string \<Rightarrow> string) \<Rightarrow> gpu_card \<Rightarrow> bool" where
  "isIntegratedGPU uni gcard =
     (case gc_DeviceInfo gcard of
        Some (Some vid, product) \<Rightarrow>
          (let name = (case product of Some n \<Rightarrow> n | None \<Rightarrow> [])
           in if strings_ToLower uni vid \<noteq> ''8086'' then False
              else if strings_Contains name ''Arc'' then False
              else list_ex (strings_Contains name) IGPUKeywords)
      | _ \<Rightarrow> False)"

text \<open>The cards of a vendor among those that are neither virtual nor integrated.\<close>

definition vendor_id :: "(string \<Rightarrow> string) \<Rightarrow> gpu_card \<Rightarrow> string option" where
  "vendor_id uni gcard =
     (case gc_DeviceInfo gcard of
        Some (Some vid, _) \<Rightarrow>
          (let v = strings_ToLower uni vid in if v \<in> set virtualVendorIDs \<or> isIntegratedGPU uni gcard then None else Some v)
      | _ \<Rightarrow> None)"

definition cards_of :: "'f gpu_env \<Rightarrow> string \<Rightarrow> gpu_card list" where
  "cards_of env vid =
     (case gx_cards env of
        Inr (Some cards) \<Rightarrow> filter (\<lambda>c. vendor_id (gx_lower env) c = Some vid) cards
      | _ \<Rightarrow> [])"

text \<open>The result and the errors that \<open>errors.Join\<close> puts together, in order.\<close>

definition GetGPUStats :: "'f gpu_env \<Rightarrow> 'f DeviceStat list \<times> go_error list" where
  "GetGPUStats env =
     (let err0 = (case gx_cards env of Inl e \<Rightarrow> [e] | Inr _ \<Rightarrow> []);
          (nvidiaStats, err1) = collectNvidiaCards env (cards_of env ''10de'');
          (amdStats, err2) = collectAMDCards env (cards_of env ''1002'');
          (appleStats, err3) = collectAppleGPUs env
      in (nvidiaStats @ amdStats @ collectIntelCards env (cards_of env ''8086'') @ appleStats,
          err0 @ concat (map (\<lambda>e. case e of None \<Rightarrow> [] | Some x \<Rightarrow> [x]) [err1, err2, err3])))"

subsection \<open>Lemmas: where the statistics come from\<close>

lemma in_map_filter: "y \<in> set (List.map_filter f xs) \<longleftrightarrow> (\<exists>x\<in>set xs. f x = Some y)"
  by (induction xs) (auto simp: map_filter_simps split: option.splits)

lemma cards_of_real:
  "c \<in> set (cards_of env vid) \<Longrightarrow> \<not> isIntegratedGPU (gx_lower env) c \<and> vid \<notin> set virtualVendorIDs
     \<and> (\<exists>cards. gx_cards env = Inr (Some cards) \<and> c \<in> set cards)"
  by (cases "gx_cards env") (auto simp: cards_of_def vendor_id_def Let_def split: sum.splits option.splits if_splits)

lemma intel_stat_card:
  "intel_stat env c = Some s \<Longrightarrow> gs_Vendor s = ''intel'' \<and> gs_Address s = cardAddress (gx_lower env) c \<and> findDRMCardDir env (gc_Address c) \<noteq> []"
  by (auto simp: intel_stat_def Let_def split: if_splits)

lemma amd_stat_memory: "amd_stat env c = Some s \<Longrightarrow> gs_Vendor s = ''amd'' \<and> gs_MemoryTotal s \<noteq> 0"
  by (auto simp: amd_stat_def Let_def split: if_splits)

lemma rocm_stat_memory: "rocm_stat env cards ci n row = Some s \<Longrightarrow> gs_Vendor s = ''amd'' \<and> gs_MemoryTotal s \<noteq> 0"
  by (auto simp: rocm_stat_def Let_def split: if_splits)

lemma rocm_rows_memory: "s \<in> set (rocm_rows env cards ci n rows) \<Longrightarrow> gs_Vendor s = ''amd'' \<and> gs_MemoryTotal s \<noteq> 0"
  by (induction env cards ci n rows rule: rocm_rows.induct) (auto split: if_splits option.splits dest: rocm_stat_memory)

lemma amd_memory: "s \<in> set (fst (collectAMDCards env cards)) \<Longrightarrow> gs_Vendor s = ''amd'' \<and> gs_MemoryTotal s \<noteq> 0"
  by (auto simp: collectAMDCards_def collectAMDSysfs_def collectAMDRocmSMI_def in_map_filter
      split: if_splits sum.splits option.splits list.splits dest: amd_stat_memory rocm_rows_memory simp del: rocm_rows.simps)

lemma nvidia_stat_allowed:
  "nvidia_stat env allowed row = Some s \<Longrightarrow> gs_Vendor s = ''nvidia'' \<and> (allowed = [] \<or> gs_Address s \<in> set allowed)"
  by (auto simp: nvidia_stat_def Let_def split: if_splits)

lemma nvidia_allowed:
  "s \<in> set (fst (collectNvidiaCards env cards)) \<Longrightarrow>
     gs_Vendor s = ''nvidia'' \<and> (addressSet (gx_lower env) cards = [] \<or> gs_Address s \<in> set (addressSet (gx_lower env) cards))"
  unfolding collectNvidiaCards_def collectNvidiaSMI_def
  by (auto simp: in_map_filter split: sum.splits option.splits dest: nvidia_stat_allowed)

lemma build_apple: "buildAppleStat fl kv = Some s \<Longrightarrow> gs_Vendor s = ''apple'' \<and> gs_Name s \<noteq> []"
  by (auto simp: buildAppleStat_def Let_def split: if_splits)

lemma ioreg_lines_apple: "Some s \<in> set (ioreg_lines fl cur ls) \<Longrightarrow> gs_Vendor s = ''apple'' \<and> gs_Name s \<noteq> []"
proof (induction fl cur ls rule: ioreg_lines.induct)
  case (2 fl current l ls)
  then show ?case
    by (auto simp: Let_def simp del: HasPrefix_iff split: if_splits option.splits dest: build_apple [OF sym])
qed (auto dest: build_apple [OF sym])

lemma apple_named: "s \<in> set (fst (collectAppleGPUs env)) \<Longrightarrow> gs_Vendor s = ''apple'' \<and> gs_Name s \<noteq> [] \<and> gx_GOOS env = ''darwin''"
  by (auto simp: collectAppleGPUs_def parseIORegGPUs_def in_map_filter split: if_splits sum.splits option.splits dest: ioreg_lines_apple)

text \<open>What the statistics of a vendor say of their card.\<close>

definition stat_ok :: "'f gpu_env \<Rightarrow> 'f DeviceStat \<Rightarrow> bool" where
  "stat_ok env s \<longleftrightarrow>
     (if gs_Vendor s = ''intel''
      then \<exists>c\<in>set (cards_of env ''8086''). \<not> isIntegratedGPU (gx_lower env) c \<and> gs_Address s = cardAddress (gx_lower env) c
             \<and> findDRMCardDir env (gc_Address c) \<noteq> []
      else if gs_Vendor s = ''nvidia''
      then addressSet (gx_lower env) (cards_of env ''10de'') = [] \<or> gs_Address s \<in> set (addressSet (gx_lower env) (cards_of env ''10de''))
      else if gs_Vendor s = ''amd'' then gs_MemoryTotal s \<noteq> 0
      else gs_Vendor s = ''apple'' \<and> gs_Name s \<noteq> [] \<and> gx_GOOS env = ''darwin'')"

lemma stats_ok: "s \<in> set (fst (GetGPUStats env)) \<Longrightarrow> stat_ok env s"
proof -
  assume "s \<in> set (fst (GetGPUStats env))"
  then consider "s \<in> set (fst (collectNvidiaCards env (cards_of env ''10de'')))" | "s \<in> set (fst (collectAMDCards env (cards_of env ''1002'')))"
    | "s \<in> set (collectIntelCards env (cards_of env ''8086''))" | "s \<in> set (fst (collectAppleGPUs env))"
    by (auto simp: GetGPUStats_def Let_def split: prod.splits)
  then show ?thesis
  proof cases
    case 1
    from nvidia_allowed [OF this] show ?thesis by (simp add: stat_ok_def)
  next
    case 2
    from amd_memory [OF this] show ?thesis by (simp add: stat_ok_def)
  next
    case 3
    then obtain c where "c \<in> set (cards_of env ''8086'')" "intel_stat env c = Some s"
      by (auto simp: collectIntelCards_def in_map_filter)
    with cards_of_real [of c env] intel_stat_card [of env c s] show ?thesis by (auto simp: stat_ok_def)
  next
    case 4
    from apple_named [OF this] show ?thesis by (simp add: stat_ok_def)
  qed
qed


definition demo_gpu_env :: "int gpu_env" where
  "demo_gpu_env =
     \<lparr>gx_float = \<lparr>fl_of = (\<lambda>n. n), fl_Parse = (\<lambda>s. case strconv_Atoi s of Some n \<Rightarrow> (n, True) | None \<Rightarrow> (0, False)), fl_mul = (*), fl_div = go_quot,
        fl_le = (\<le>), fl_uint64 = of_int\<rparr>,
      gx_lower = (\<lambda>s. s), gx_GOOS = ''linux'',
      gx_cards = Inr (Some [\<lparr>gc_Address = ''0000:00:02.0'', gc_DeviceInfo = Some (Some ''8086'', Some ''UHD Graphics 630'')\<rparr>,
                            \<lparr>gc_Address = ''0000:03:00.0'', gc_DeviceInfo = Some (Some ''8086'', Some ''Arc A770'')\<rparr>]),
      gx_LookPath = (\<lambda>_. Inl ErrNotExist), gx_output = (\<lambda>_ _. Inl EOF), gx_csv = (\<lambda>_. []),
      gx_Glob = (\<lambda>p. if p = ''/sys/class/drm/card[0-9]*'' then [''/sys/class/drm/card0'', ''/sys/class/drm/card1''] else []),
      gx_ReadFile = (\<lambda>_. Inl ErrNotExist),
      gx_Readlink = (\<lambda>p. Inr (if p = ''/sys/class/drm/card0'' then ''../pci/0000:00:02.0/card0'' else ''../pci/0000:03:00.0/card1''))\<rparr>"

lemma demo_gpu_run: "map gs_Name (fst (GetGPUStats demo_gpu_env)) = [''Arc A770'']"
  by code_simp


text \<open>A card without an address is taken for the first card of the system.\<close>

lemma empty_address_matches:
  assumes "gx_Glob env ''/sys/class/drm/card[0-9]*'' = entry # es" "CHR ''-'' \<notin> set (filepath_Base entry)"
  shows "findDRMCardDir env [] = entry"
proof -
  have "strings_TrimSpace [] = []" by code_simp
  then have "normalizePCIAddress (gx_lower env) [] = []" by (simp add: normalizePCIAddress_def strings_ToLower_def)
  moreover have "strings_Contains s []" for s by (cases s) simp_all
  ultimately show ?thesis using assms by (simp add: findDRMCardDir_def)
qed

end
