(* ===== verification/Relay.thy ===== *)
theory Relay
  imports Go_Prelude
begin

text \<open>
  Forwarding between two endpoints (src/relay/relay.go and src/relay/tcp_relay.go). The two copies of
  \<open>Bridge\<close> and the function itself run at the same time: a run is a list of events, one for each step of one of
  them, in the order in which they happen.
\<close>

subsection \<open>Endpoints\<close>

text \<open>An endpoint reads, writes and may have a closer; one that is made of a single object closes it if it can.\<close>

record ('r, 'w, 'c) Endpoint =
  ep_Reader :: 'r
  ep_Writer :: 'w
  ep_Closer :: "'c option"

definition NewEndpoint :: "'r \<Rightarrow> 'w \<Rightarrow> 'c option \<Rightarrow> ('r, 'w, 'c) Endpoint" where
  "NewEndpoint reader writer closer = \<lparr>ep_Reader = reader, ep_Writer = writer, ep_Closer = closer\<rparr>"

definition NewReadWriter :: "('a \<Rightarrow> 'c option) \<Rightarrow> 'a \<Rightarrow> ('a, 'a, 'c) Endpoint" where
  "NewReadWriter as_closer rw = \<lparr>ep_Reader = rw, ep_Writer = rw, ep_Closer = as_closer rw\<rparr>"

subsection \<open>The state of a bridge\<close>

datatype direction = AtoB | BtoA

text \<open>
  A direction is known by the endpoint it reads from. Per direction: what its source still has to give, how the
  source ends (with an error, \<open>EOF\<close> at the end of its data, or not at all: it blocks), what was delivered, how many
  bytes its destination still takes before writes to it block (\<open>None\<close> when they never do), whether its copy is
  under way, whether the endpoint has a closer, and whether that was closed. \<open>br_ch\<close> is the channel with the
  results of the copies.
\<close>

datatype source_end = EndsWith go_error | Blocks

datatype bridge_pc = AwaitFirst | AwaitSecond "go_error option" | Returned "go_error option"

record bridge =
  br_in :: "direction \<Rightarrow> bytes"
  br_end :: "direction \<Rightarrow> source_end"
  br_out :: "direction \<Rightarrow> bytes"
  br_room :: "direction \<Rightarrow> nat option"
  br_running :: "direction \<Rightarrow> bool"
  br_ch :: "go_error option list"
  br_closer :: "direction \<Rightarrow> bool"
  br_closed :: "direction \<Rightarrow> bool"
  br_pc :: bridge_pc

definition Bridge_start ::
  "(direction \<Rightarrow> bytes) \<Rightarrow> (direction \<Rightarrow> source_end) \<Rightarrow> (direction \<Rightarrow> nat option) \<Rightarrow> (direction \<Rightarrow> bool) \<Rightarrow> bridge" where
  "Bridge_start src ends room closer =
     \<lparr>br_in = src, br_end = ends, br_out = (\<lambda>_. []), br_room = room, br_running = (\<lambda>_. True), br_ch = [],
      br_closer = closer, br_closed = (\<lambda>_. False), br_pc = AwaitFirst\<rparr>"

text \<open>Which endpoint a direction reads from, so which closer stops it.\<close>

definition endpoint_closers :: "('r, 'w, 'c) Endpoint \<Rightarrow> ('r, 'w, 'c) Endpoint \<Rightarrow> direction \<Rightarrow> bool" where
  "endpoint_closers a b d = (case d of AtoB \<Rightarrow> ep_Closer a \<noteq> None | BtoA \<Rightarrow> ep_Closer b \<noteq> None)"

text \<open>
  The steps. \<open>io.Copy\<close> reads a chunk of at most 32 KiB and writes it. A write waits while its destination takes
  nothing; it may fail after a part of the chunk or after all of it. A copy ends when its source ends, with no error
  if that is \<open>EOF\<close>; when a write fails; or, once one of its endpoints is closed, because its read or its write is
  interrupted, with an error or, where the endpoint answers that way, with none. The copy had then read \<open>n\<close> bytes,
  of which \<open>m\<close> were written.
\<close>

datatype bridge_event =
    CopyChunk direction nat
  | WriteFails direction nat nat go_error
  | SourceEnds direction
  | Interrupted direction nat nat "go_error option"
  | MainStep

definition copy_done :: "direction \<Rightarrow> go_error option \<Rightarrow> bridge \<Rightarrow> bridge" where
  "copy_done d err s = s\<lparr>br_running := (br_running s)(d := False), br_ch := br_ch s @ [err]\<rparr>"

definition copy_chunk :: "direction \<Rightarrow> nat \<Rightarrow> nat \<Rightarrow> bridge \<Rightarrow> bridge" where
  "copy_chunk d n m s =
     s\<lparr>br_in := (br_in s)(d := drop n (br_in s d)), br_out := (br_out s)(d := br_out s d @ take m (take n (br_in s d))),
       br_room := (br_room s)(d := map_option (\<lambda>r. r - m) (br_room s d))\<rparr>"

definition chunk_ok :: "direction \<Rightarrow> nat \<Rightarrow> bridge \<Rightarrow> bool" where
  "chunk_ok d n s \<longleftrightarrow> br_running s d \<and> n \<le> 32768 \<and> n \<le> length (br_in s d)"

definition fits :: "direction \<Rightarrow> nat \<Rightarrow> bridge \<Rightarrow> bool" where
  "fits d m s \<longleftrightarrow> (case br_room s d of None \<Rightarrow> True | Some r \<Rightarrow> m \<le> r)"

definition copy_result :: "go_error \<Rightarrow> go_error option" where
  "copy_result e = (if e = EOF then None else Some e)"

definition closeEndpoint :: "direction \<Rightarrow> bridge \<Rightarrow> bridge" where
  "closeEndpoint d s = (if br_closer s d then s\<lparr>br_closed := (br_closed s)(d := True)\<rparr> else s)"

lemma closeEndpoint_keeps [simp]:
  "br_in (closeEndpoint d s) = br_in s" "br_out (closeEndpoint d s) = br_out s" "br_running (closeEndpoint d s) = br_running s"
  "br_end (closeEndpoint d s) = br_end s" "br_ch (closeEndpoint d s) = br_ch s" "br_pc (closeEndpoint d s) = br_pc s"
  "br_closer (closeEndpoint d s) = br_closer s" "br_room (closeEndpoint d s) = br_room s"
  by (simp_all add: closeEndpoint_def)

text \<open>The function itself: the first result closes both endpoints, the second one is dropped.\<close>

definition Bridge_main :: "bridge \<Rightarrow> bridge option" where
  "Bridge_main s =
     (case (br_pc s, br_ch s) of
        (AwaitFirst, err # rest) \<Rightarrow> Some (closeEndpoint BtoA (closeEndpoint AtoB (s\<lparr>br_ch := rest, br_pc := AwaitSecond err\<rparr>)))
      | (AwaitSecond err, _ # rest) \<Rightarrow> Some (s\<lparr>br_ch := rest, br_pc := Returned (if err = Some EOF then None else err)\<rparr>)
      | _ \<Rightarrow> None)"

fun bridge_step :: "bridge_event \<Rightarrow> bridge \<Rightarrow> bridge option" where
  "bridge_step (CopyChunk d n) s = (if chunk_ok d n s \<and> 0 < n \<and> fits d n s then Some (copy_chunk d n n s) else None)"
| "bridge_step (WriteFails d n m e) s =
     (if chunk_ok d n s \<and> 0 < n \<and> m \<le> n \<and> fits d m s then Some (copy_done d (Some e) (copy_chunk d n m s)) else None)"
| "bridge_step (SourceEnds d) s =
     (case br_end s d of
        EndsWith err \<Rightarrow> if br_running s d \<and> br_in s d = [] then Some (copy_done d (copy_result err) s) else None
      | Blocks \<Rightarrow> None)"
| "bridge_step (Interrupted d n m err) s =
     (if chunk_ok d n s \<and> m \<le> n \<and> fits d m s \<and> (br_closed s AtoB \<or> br_closed s BtoA)
      then Some (copy_done d err (copy_chunk d n m s)) else None)"
| "bridge_step MainStep s = Bridge_main s"

fun bridge_run :: "bridge_event list \<Rightarrow> bridge \<Rightarrow> bridge option" where
  "bridge_run [] s = Some s"
| "bridge_run (ev # evs) s = (case bridge_step ev s of None \<Rightarrow> None | Some s1 \<Rightarrow> bridge_run evs s1)"

subsection \<open>The relay of a WebSocket\<close>

datatype relay_action = SetBinary | DialTCP string | RunBridge | CloseConn | CloseWS

record TCPParam =
  tp_TargetAddr :: string
  tp_BinaryMode :: bool

text \<open>\<open>dial\<close> is the error of \<open>net.Dial\<close>, \<open>bridged\<close> the result of the bridge.\<close>

definition TCPRelay :: "go_error option \<Rightarrow> go_error option \<Rightarrow> TCPParam \<Rightarrow> go_error option \<times> relay_action list" where
  "TCPRelay dial bridged p =
     (let setup = (if tp_BinaryMode p then [SetBinary] else []) @ [DialTCP (tp_TargetAddr p)]
      in case dial of
           Some err \<Rightarrow> (Some err, setup @ [CloseWS])
         | None \<Rightarrow> (bridged, setup @ [RunBridge, CloseConn, CloseWS]))"

subsection \<open>Invariant\<close>

text \<open>How many results were taken from the channel.\<close>

fun taken :: "bridge_pc \<Rightarrow> nat" where
  "taken AwaitFirst = 0"
| "taken (AwaitSecond e) = 1"
| "taken (Returned e) = 2"

definition finished :: "bridge \<Rightarrow> nat" where
  "finished s = (if br_running s AtoB then 0 else 1) + (if br_running s BtoA then 0 else 1)"

text \<open>A clean end: a direction whose source ended with \<open>EOF\<close> and was delivered to the last byte.\<close>

definition complete :: "(direction \<Rightarrow> bytes) \<Rightarrow> bridge \<Rightarrow> bool" where
  "complete src s \<longleftrightarrow> (\<exists>d. \<not> br_running s d \<and> br_end s d = EndsWith EOF \<and> br_out s d = src d)"

text \<open>
  The results. \<open>weof\<close> says that a write has failed with \<open>EOF\<close>, which the function takes for a clean end; unless
  that happens, no error is a clean end.
\<close>

definition results_ok :: "(direction \<Rightarrow> bytes) \<Rightarrow> bridge \<Rightarrow> bool" where
  "results_ok src s \<longleftrightarrow>
     (br_pc s = AwaitFirst \<longrightarrow> Some EOF \<notin> set (br_ch s)) \<and> br_pc s \<noteq> AwaitSecond (Some EOF)
     \<and> (br_pc s = AwaitFirst \<and> None \<in> set (br_ch s) \<or> br_pc s = AwaitSecond None \<or> br_pc s = Returned None \<longrightarrow> complete src s)"

definition bridge_inv :: "(direction \<Rightarrow> bytes) \<Rightarrow> bool \<Rightarrow> bridge \<Rightarrow> bool" where
  "bridge_inv src weof s \<longleftrightarrow>
     (\<forall>d. \<exists>lost. src d = br_out s d @ lost @ br_in s d \<and> (br_running s d \<longrightarrow> lost = []))
     \<and> length (br_ch s) + taken (br_pc s) = finished s
     \<and> (\<forall>d. br_closed s d \<longleftrightarrow> br_pc s \<noteq> AwaitFirst \<and> br_closer s d)
     \<and> (weof \<or> results_ok src s)"

lemma all_directions: "(\<forall>d. P d) \<longleftrightarrow> P AtoB \<and> P BtoA"
  by (metis direction.exhaust)

lemma inv_start: "bridge_inv src weof (Bridge_start src ends room closer)"
  by (simp add: bridge_inv_def results_ok_def Bridge_start_def finished_def)

lemma finished_done: "br_running s d \<Longrightarrow> finished (copy_done d e s) = Suc (finished s)"
  by (cases d) (auto simp: finished_def copy_done_def)

lemma inv_chunk:
  assumes "bridge_inv src weof s" "br_running s d"
  shows "bridge_inv src weof (copy_chunk d n n s)"
proof -
  have "src d = br_out s d @ br_in s d" using assms by (auto simp: bridge_inv_def)
  then have "src d = (br_out s d @ take n (br_in s d)) @ drop n (br_in s d)" by simp
  with assms show ?thesis
    by (auto simp: bridge_inv_def results_ok_def copy_chunk_def finished_def complete_def)
qed

text \<open>A copy that is over; what it had read but not written is lost.\<close>

lemma inv_done:
  assumes inv: "bridge_inv src weof s" and run: "br_running s d" and m: "m \<le> n"
    and clean: "\<not> weof \<Longrightarrow> br_pc s = AwaitFirst \<Longrightarrow>
      err \<noteq> Some EOF \<and> (err = None \<longrightarrow> br_end s d = EndsWith EOF \<and> n = 0 \<and> br_in s d = [])"
  shows "bridge_inv src weof (copy_done d err (copy_chunk d n m s))"
proof -
  let ?s1 = "copy_done d err (copy_chunk d n m s)"
  have all: "src d = br_out s d @ br_in s d" using inv run by (auto simp: bridge_inv_def)
  moreover have "br_in s d = take m (take n (br_in s d)) @ drop m (take n (br_in s d)) @ drop n (br_in s d)"
    using m by (metis append.assoc append_take_drop_id)
  ultimately have split: "src d = br_out ?s1 d @ drop m (take n (br_in s d)) @ br_in ?s1 d"
    by (simp add: copy_done_def copy_chunk_def)
  have data: "\<exists>lost. src d' = br_out ?s1 d' @ lost @ br_in ?s1 d' \<and> (br_running ?s1 d' \<longrightarrow> lost = [])" for d'
  proof (cases "d' = d")
    case True
    then show ?thesis using split by (auto simp: copy_done_def)
  next
    case False
    then show ?thesis using inv by (auto simp: bridge_inv_def copy_done_def copy_chunk_def)
  qed
  have fin: "finished ?s1 = Suc (finished s)"
    using run finished_done [of "copy_chunk d n m s" d err] by (simp add: copy_chunk_def finished_def)
  have keep: "complete src s \<Longrightarrow> complete src ?s1"
    using run by (auto simp: complete_def copy_done_def copy_chunk_def)
  have new: "complete src ?s1" if "\<not> weof" "br_pc s = AwaitFirst" "err = None"
    using clean that all by (auto simp: complete_def copy_done_def copy_chunk_def)
  have "weof \<or> results_ok src ?s1"
    using inv clean keep new unfolding bridge_inv_def results_ok_def by (auto simp: copy_done_def copy_chunk_def)
  with data fin inv show ?thesis unfolding bridge_inv_def by (auto simp: copy_done_def copy_chunk_def)
qed

lemma inv_main:
  assumes inv: "bridge_inv src weof s" and main: "Bridge_main s = Some s1"
  shows "bridge_inv src weof s1"
proof (cases "br_pc s")
  case AwaitFirst
  with main obtain err rest where c: "br_ch s = err # rest"
    "s1 = closeEndpoint BtoA (closeEndpoint AtoB (s\<lparr>br_ch := rest, br_pc := AwaitSecond err\<rparr>))"
    by (auto simp: Bridge_main_def split: list.splits)
  have "br_closed s1 d = br_closer s1 d" for d
    using c(2) inv AwaitFirst by (cases d) (auto simp: closeEndpoint_def bridge_inv_def)
  moreover have "br_in s1 = br_in s" "br_out s1 = br_out s" "br_running s1 = br_running s" "br_end s1 = br_end s"
    "br_ch s1 = rest" "br_pc s1 = AwaitSecond err" "br_closer s1 = br_closer s" by (auto simp: c(2) closeEndpoint_def)
  ultimately show ?thesis using inv AwaitFirst c(1) by (auto simp: bridge_inv_def results_ok_def finished_def complete_def)
next
  case (AwaitSecond err)
  with main obtain x rest where c: "br_ch s = x # rest" "s1 = s\<lparr>br_ch := rest, br_pc := Returned (if err = Some EOF then None else err)\<rparr>"
    by (auto simp: Bridge_main_def split: list.splits)
  then show ?thesis using inv AwaitSecond by (auto simp: bridge_inv_def results_ok_def finished_def complete_def)
qed (use main in \<open>simp add: Bridge_main_def\<close>)

text \<open>Writes that fail with \<open>EOF\<close>.\<close>

definition write_eof :: "bridge_event \<Rightarrow> bool" where
  "write_eof ev \<longleftrightarrow> (\<exists>d n m. ev = WriteFails d n m EOF)"

lemma inv_step:
  assumes "bridge_inv src weof s" "bridge_step ev s = Some s1" "write_eof ev \<Longrightarrow> weof"
  shows "bridge_inv src weof s1"
proof (cases ev)
  case (CopyChunk d n)
  with assms show ?thesis by (auto simp: chunk_ok_def split: if_splits intro: inv_chunk)
next
  case (WriteFails d n m e)
  with assms(2) have ok: "br_running s d" "m \<le> n" "s1 = copy_done d (Some e) (copy_chunk d n m s)"
    by (auto simp: chunk_ok_def split: if_splits)
  have "\<not> weof \<Longrightarrow> e \<noteq> EOF" using assms(3) WriteFails by (auto simp: write_eof_def)
  then show ?thesis unfolding ok(3) by (intro inv_done [OF assms(1) ok(1,2)]) simp
next
  case (SourceEnds d)
  with assms(2) obtain e where e: "br_running s d" "br_in s d = []" "br_end s d = EndsWith e" "s1 = copy_done d (copy_result e) s"
    by (auto split: if_splits source_end.splits)
  then have "s1 = copy_done d (copy_result e) (copy_chunk d 0 0 s)"
    by (cases s) (auto simp: copy_chunk_def copy_done_def fun_upd_idem option.map_ident)
  moreover have "bridge_inv src weof (copy_done d (copy_result e) (copy_chunk d 0 0 s))"
    using e by (intro inv_done [OF assms(1) e(1)]) (auto simp: copy_result_def)
  ultimately show ?thesis by simp
next
  case (Interrupted d n m err)
  with assms(2) have ok: "br_running s d" "m \<le> n" "br_closed s AtoB \<or> br_closed s BtoA" "s1 = copy_done d err (copy_chunk d n m s)"
    by (auto simp: chunk_ok_def split: if_splits)
  then have "br_pc s \<noteq> AwaitFirst" using assms(1) by (auto simp: bridge_inv_def)
  then show ?thesis unfolding ok(4) by (intro inv_done [OF assms(1) ok(1,2)]) simp
qed (use assms inv_main in auto)

text \<open>Steps leave the parameters as they are, and a destination takes what was written out of its room.\<close>

definition same_setup :: "(direction \<Rightarrow> source_end) \<Rightarrow> (direction \<Rightarrow> nat option) \<Rightarrow> (direction \<Rightarrow> bool) \<Rightarrow> bridge \<Rightarrow> bool" where
  "same_setup ends room closer s \<longleftrightarrow> br_end s = ends \<and> br_closer s = closer
     \<and> (\<forall>d. map_option (\<lambda>r. r + length (br_out s d)) (br_room s d) = room d)"

lemma setup_chunk:
  assumes "same_setup ends room closer s" "chunk_ok d n s" "m \<le> n" "fits d m s"
  shows "same_setup ends room closer (copy_chunk d n m s)"
proof -
  have "map_option (\<lambda>r. r - m + (length (br_out s d) + m)) (br_room s d) = map_option (\<lambda>r. r + length (br_out s d)) (br_room s d)"
    using assms(4) by (cases "br_room s d") (auto simp: fits_def)
  moreover have "length (take m (take n (br_in s d))) = m" using assms(2,3) by (simp add: chunk_ok_def)
  ultimately show ?thesis using assms(1)
    by (auto simp: same_setup_def copy_chunk_def option.map_comp comp_def)
qed

lemma setup_done [simp]: "same_setup ends room closer (copy_done d e s) = same_setup ends room closer s"
  by (simp add: same_setup_def copy_done_def)

lemma setup_step: "bridge_step ev s = Some s1 \<Longrightarrow> same_setup ends room closer s \<Longrightarrow> same_setup ends room closer s1"
proof (cases ev)
  case MainStep
  assume "bridge_step ev s = Some s1" "same_setup ends room closer s"
  with MainStep show ?thesis
    by (auto simp: Bridge_main_def same_setup_def split: bridge_pc.splits list.splits)
qed (auto split: if_splits source_end.splits intro: setup_chunk)

lemma inv_run:
  "bridge_run evs s = Some s' \<Longrightarrow> bridge_inv src weof s \<Longrightarrow> same_setup ends room closer s \<Longrightarrow> \<forall>ev\<in>set evs. write_eof ev \<longrightarrow> weof
   \<Longrightarrow> bridge_inv src weof s' \<and> same_setup ends room closer s'"
proof (induction evs arbitrary: s)
  case (Cons ev evs)
  then obtain s1 where s1: "bridge_step ev s = Some s1" "bridge_run evs s1 = Some s'" by (auto split: option.splits)
  have "bridge_inv src weof s1" using inv_step [OF Cons.prems(2) s1(1)] Cons.prems(4) by auto
  with Cons.IH [OF s1(2)] setup_step [OF s1(1) Cons.prems(3)] Cons.prems(4) show ?case by simp
qed simp

lemma bridge_run_inv:
  assumes "bridge_run evs (Bridge_start src ends room closer) = Some s"
  shows "bridge_inv src (\<exists>ev\<in>set evs. write_eof ev) s" "same_setup ends room closer s"
  using inv_run [OF assms inv_start, where weof = "\<exists>ev\<in>set evs. write_eof ev" and ends = ends and room = room and closer = closer]
  by (auto simp: same_setup_def Bridge_start_def option.map_ident)

text \<open>What the invariant says of the two outputs, and of a bridge that has returned.\<close>

lemma bridge_inv_prefix: "bridge_inv src weof s \<Longrightarrow> prefix (br_out s d) (src d)"
  by (auto simp: bridge_inv_def prefix_def)

lemma bridge_inv_returned:
  "bridge_inv src weof s \<Longrightarrow> br_pc s = Returned r \<Longrightarrow> \<not> br_running s AtoB \<and> \<not> br_running s BtoA \<and> br_closed s = br_closer s
     \<and> (r = None \<longrightarrow> weof \<or> (\<exists>d. br_end s d = EndsWith EOF \<and> br_out s d = src d))"
  by (auto simp: bridge_inv_def results_ok_def finished_def complete_def split: if_splits)

text \<open>
  C31. In every order in which the two copies and the bridge can run, with reads and writes that block, fail or are
  interrupted, what an endpoint received is a prefix of what the other one sent: nothing is changed, reordered or
  made up. When the bridge has returned, both copies are over and every endpoint with a closer is closed; and a
  result without an error means that in one direction the source ended properly and all of it was delivered, or that
  a write failed with \<open>EOF\<close>, an error that the bridge takes for a proper end.
\<close>

theorem bridge_delivers:
  assumes "bridge_run evs (Bridge_start src ends room closer) = Some s"
  shows "(\<forall>d. prefix (br_out s d) (src d))
    \<and> (br_pc s = Returned r \<longrightarrow> \<not> br_running s AtoB \<and> \<not> br_running s BtoA \<and> br_closed s = closer
         \<and> (r = None \<longrightarrow> (\<exists>d. ends d = EndsWith EOF \<and> br_out s d = src d) \<or> (\<exists>d n m. WriteFails d n m EOF \<in> set evs)))"
proof -
  note inv = bridge_run_inv [OF assms]
  have "(\<exists>ev\<in>set evs. write_eof ev) \<longrightarrow> (\<exists>d n m. WriteFails d n m EOF \<in> set evs)" by (auto simp: write_eof_def)
  then show ?thesis
    using bridge_inv_prefix [OF inv(1)] bridge_inv_returned [OF inv(1)] inv(2) by (auto simp: same_setup_def)
qed

text \<open>One side has sent everything, the other blocks in the middle of a message until its connection is closed.\<close>

definition demo_source :: "direction \<Rightarrow> bytes" where
  "demo_source d = (case d of AtoB \<Rightarrow> ''hello'' | BtoA \<Rightarrow> ''goodbye'')"

definition demo_bridge :: "bridge_event list" where
  "demo_bridge = [CopyChunk BtoA 4, CopyChunk AtoB 5, SourceEnds AtoB, MainStep, Interrupted BtoA 3 1 (Some (ErrIO ''closed'')), MainStep]"

definition demo_ends :: "direction \<Rightarrow> source_end" where
  "demo_ends d = (case d of AtoB \<Rightarrow> EndsWith EOF | BtoA \<Rightarrow> Blocks)"

definition demo_room :: "direction \<Rightarrow> nat option" where
  "demo_room d = (case d of AtoB \<Rightarrow> None | BtoA \<Rightarrow> Some 5)"

lemma demo_bridge_runs:
  "\<exists>s. bridge_run demo_bridge (Bridge_start demo_source demo_ends demo_room (\<lambda>_. True)) = Some s \<and> br_pc s = Returned None"
  by (simp add: demo_bridge_def demo_source_def demo_ends_def demo_room_def closeEndpoint_def Bridge_start_def chunk_ok_def fits_def
      copy_chunk_def copy_done_def copy_result_def Bridge_main_def)

theorem bridge_delivers_witness:
  "\<exists>s. bridge_run demo_bridge (Bridge_start demo_source demo_ends demo_room (\<lambda>_. True)) = Some s \<and> br_pc s = Returned None
     \<and> prefix (br_out s BtoA) ''goodbye'' \<and> (\<exists>d. br_out s d = demo_source d)"
proof -
  obtain s where run: "bridge_run demo_bridge (Bridge_start demo_source demo_ends demo_room (\<lambda>_. True)) = Some s" and pc: "br_pc s = Returned None"
    using demo_bridge_runs by blast
  have "\<nexists>d n m. WriteFails d n m EOF \<in> set demo_bridge" by (simp add: demo_bridge_def)
  then have "(\<forall>d. prefix (br_out s d) (demo_source d)) \<and> (\<exists>d. br_out s d = demo_source d)"
    using bridge_delivers [OF run, of None] pc by blast
  then have p: "prefix (br_out s BtoA) (demo_source BtoA)" and "\<exists>d. br_out s d = demo_source d" by (blast, blast)
  moreover have "demo_source BtoA = ''goodbye''" by (simp add: demo_source_def)
  ultimately show ?thesis using run pc by metis
qed

text \<open>A write that fails with \<open>EOF\<close> is reported as success, although nothing was delivered.\<close>

lemma write_eof_succeeds:
  "\<exists>s. bridge_run [WriteFails AtoB 5 0 EOF, MainStep, Interrupted BtoA 0 0 (Some (ErrIO ''closed'')), MainStep]
         (Bridge_start demo_source demo_ends (\<lambda>_. None) (\<lambda>_. True)) = Some s
     \<and> br_pc s = Returned None \<and> br_out s = (\<lambda>_. [])"
  by (auto simp: demo_source_def demo_ends_def closeEndpoint_def Bridge_start_def chunk_ok_def fits_def copy_chunk_def copy_done_def
      Bridge_main_def)

subsection \<open>The bridge returns\<close>

text \<open>What is left to do: bytes to read, copies to end, results to take.\<close>

definition work_left :: "bridge \<Rightarrow> nat" where
  "work_left s = length (br_in s AtoB) + length (br_in s BtoA) + (2 - finished s) + (2 - taken (br_pc s))"

lemma finished_le: "finished s \<le> 2" by (simp add: finished_def)

lemma work_done: "br_running s d \<Longrightarrow> work_left (copy_done d e s) < work_left s"
  using finished_done [of s d e] finished_le [of "copy_done d e s"]
  by (auto simp: work_left_def copy_done_def)

lemma work_chunk: "work_left (copy_chunk d n m s) \<le> work_left s"
  by (cases d) (auto simp: work_left_def copy_chunk_def finished_def)

lemma work_chunk_less: "chunk_ok d n s \<Longrightarrow> 0 < n \<Longrightarrow> work_left (copy_chunk d n m s) < work_left s"
  by (cases d) (auto simp: work_left_def copy_chunk_def chunk_ok_def finished_def)

lemma work_over: "chunk_ok d n s \<Longrightarrow> work_left (copy_done d e (copy_chunk d n m s)) < work_left s"
  using work_done [of "copy_chunk d n m s" d e] work_chunk [of d n m s] by (simp add: chunk_ok_def copy_chunk_def)

lemma work_step: "bridge_step ev s = Some s1 \<Longrightarrow> work_left s1 < work_left s"
proof (cases ev)
  case MainStep
  assume "bridge_step ev s = Some s1"
  with MainStep show ?thesis
    by (auto simp: Bridge_main_def work_left_def finished_def split: bridge_pc.splits list.splits)
qed (auto intro: work_chunk_less work_over work_done split: if_splits source_end.splits)

lemma run_length: "bridge_run evs s = Some s' \<Longrightarrow> length evs + work_left s' \<le> work_left s"
proof (induction evs arbitrary: s)
  case (Cons ev evs)
  then obtain s1 where s1: "bridge_step ev s = Some s1" "bridge_run evs s1 = Some s'" by (auto split: option.splits)
  from Cons.IH [OF s1(2)] work_step [OF s1(1)] show ?case by simp
qed simp

text \<open>
  A state in which the bridge waits: nothing can happen any more, unless the environment lets a write fail that
  would otherwise block.
\<close>

definition waits :: "bridge \<Rightarrow> bool" where
  "waits s \<longleftrightarrow> (\<forall>ev. bridge_step ev s \<noteq> None \<longrightarrow> (\<exists>d n m e. ev = WriteFails d n m e))"

lemma waitsD: "waits s \<Longrightarrow> bridge_step (CopyChunk d n) s = None" "waits s \<Longrightarrow> bridge_step (SourceEnds d) s = None"
  "waits s \<Longrightarrow> bridge_step (Interrupted d n m err) s = None" "waits s \<Longrightarrow> Bridge_main s = None"
proof -
  show "bridge_step (CopyChunk d n) s = None" "bridge_step (SourceEnds d) s = None"
    "bridge_step (Interrupted d n m err) s = None" if "waits s"
    using that unfolding waits_def by blast+
  have "Bridge_main s = bridge_step MainStep s" by simp
  moreover have "bridge_step MainStep s = None" if "waits s" using that unfolding waits_def by blast
  ultimately show "Bridge_main s = None" if "waits s" using that by simp
qed

text \<open>A copy can go on when its source ends and its destination has room for the rest, or when it is closed.\<close>

lemma copy_enabled:
  assumes "br_running s d" "br_closed s d \<or> br_end s d \<noteq> Blocks \<and> fits d (length (br_in s d)) s"
  shows "\<not> waits s"
proof
  assume w: "waits s"
  show False
  proof (cases "br_closed s d")
    case True
    then show False using waitsD(3) [OF w, of d 0 0 None] assms(1)
      by (cases d) (auto simp: chunk_ok_def fits_def split: option.splits)
  next
    case False
    with assms(2) obtain err where "br_end s d = EndsWith err" by (cases "br_end s d") auto
    then show False using waitsD(1) [OF w, of d 1] waitsD(2) [OF w, of d] assms False
      by (cases "br_in s d") (auto simp: chunk_ok_def fits_def split: option.splits)
  qed
qed

text \<open>Room for all that a source sends is, at every point, room for the rest.\<close>

lemma room_for_rest:
  assumes inv: "bridge_inv src weof s" and su: "same_setup ends room closer s"
    and room: "case room d of None \<Rightarrow> True | Some r \<Rightarrow> length (src d) \<le> r"
  shows "fits d (length (br_in s d)) s"
proof -
  obtain lost where "src d = br_out s d @ lost @ br_in s d" using inv unfolding bridge_inv_def by blast
  then have "length (br_out s d) + length (br_in s d) \<le> length (src d)" by simp
  moreover have "map_option (\<lambda>r. r + length (br_out s d)) (br_room s d) = room d" using su by (simp add: same_setup_def)
  ultimately show ?thesis using room by (cases "br_room s d"; cases "room d") (auto simp: fits_def)
qed

lemma bridge_progress:
  assumes inv: "bridge_inv src weof s" and w: "waits s"
    and live: "br_end s d0 \<noteq> Blocks" "fits d0 (length (br_in s d0)) s" and closers: "\<forall>d. br_closer s d"
  shows "\<exists>r. br_pc s = Returned r"
proof (cases "br_pc s")
  case AwaitFirst
  with waitsD(4) [OF w] have "br_ch s = []" by (cases "br_ch s") (auto simp: Bridge_main_def)
  with inv AwaitFirst have "finished s = 0" by (simp add: bridge_inv_def)
  then have "br_running s d0" by (cases d0) (auto simp: finished_def split: if_splits)
  with copy_enabled [of s d0] live w show ?thesis by auto
next
  case (AwaitSecond err)
  have "\<not> br_running s d" for d
    using copy_enabled [of s d] inv AwaitSecond closers w by (auto simp: bridge_inv_def)
  with inv AwaitSecond have "length (br_ch s) = 1" by (simp add: bridge_inv_def finished_def)
  with AwaitSecond have "Bridge_main s \<noteq> None" by (cases "br_ch s") (auto simp: Bridge_main_def)
  with waitsD(4) [OF w] show ?thesis by simp
qed simp

text \<open>
  C33. The bridge returns: a run has at most as many steps as there are bytes to read, and four more. When both
  endpoints have closers that interrupt the reads and writes under way, and in one direction the source ends and the
  destination takes all of it, then no run leaves the bridge waiting: where nothing more can happen (but that the
  environment lets a blocked write fail) it has returned, even if in the other direction reads or writes would block
  for ever, and whatever the order of the two copies.
\<close>

theorem bridge_returns:
  assumes "bridge_run evs (Bridge_start src ends room closer) = Some s" and "\<forall>d. closer d"
    and "ends d0 \<noteq> Blocks" and "case room d0 of None \<Rightarrow> True | Some r \<Rightarrow> length (src d0) \<le> r"
  shows "length evs \<le> length (src AtoB) + length (src BtoA) + 4
    \<and> (waits s \<longrightarrow> (\<exists>r. br_pc s = Returned r))"
proof -
  note inv = bridge_run_inv [OF assms(1)]
  have "(\<exists>r. br_pc s = Returned r)" if "waits s"
    using bridge_progress [OF inv(1) that, of d0] room_for_rest [OF inv assms(4)] inv(2) assms(2,3)
    by (simp add: same_setup_def)
  moreover have "length evs \<le> work_left (Bridge_start src ends room closer)" using run_length [OF assms(1)] by simp
  ultimately show ?thesis by (auto simp: work_left_def Bridge_start_def finished_def)
qed

theorem bridge_returns_witness:
  "\<exists>s. bridge_run demo_bridge (Bridge_start demo_source demo_ends demo_room (\<lambda>_. True)) = Some s
     \<and> length demo_bridge \<le> length (demo_source AtoB) + length (demo_source BtoA) + 4"
proof -
  obtain s where run: "bridge_run demo_bridge (Bridge_start demo_source demo_ends demo_room (\<lambda>_. True)) = Some s"
    using demo_bridge_runs by blast
  have "demo_ends AtoB \<noteq> Blocks" "case demo_room AtoB of None \<Rightarrow> True | Some r \<Rightarrow> length (demo_source AtoB) \<le> r"
    by (simp_all add: demo_ends_def demo_room_def)
  then have "length demo_bridge \<le> length (demo_source AtoB) + length (demo_source BtoA) + 4"
    using bridge_returns [OF run] by blast
  with run show ?thesis by blast
qed

text \<open>
  The condition on the destination is needed: a side that sends nothing and takes nothing keeps the bridge waiting,
  although the other side's source would end.
\<close>

lemma bridge_waits:
  "waits (Bridge_start (\<lambda>d. if d = BtoA then ''x'' else []) (\<lambda>d. if d = BtoA then EndsWith EOF else Blocks) (\<lambda>_. Some 0) (\<lambda>_. True))"
  unfolding waits_def
proof (intro allI impI)
  fix ev
  assume "bridge_step ev (Bridge_start (\<lambda>d. if d = BtoA then ''x'' else []) (\<lambda>d. if d = BtoA then EndsWith EOF else Blocks)
     (\<lambda>_. Some 0) (\<lambda>_. True)) \<noteq> None"
  then show "\<exists>d n m e. ev = WriteFails d n m e"
    by (cases ev) (auto simp: Bridge_start_def chunk_ok_def fits_def Bridge_main_def split: if_splits)
qed

text \<open>The WebSocket is closed last, whatever happens, and a connection is closed just when it was made.\<close>

lemma TCPRelay_closes:
  "last (snd (TCPRelay dial bridged p)) = CloseWS" "CloseConn \<in> set (snd (TCPRelay dial bridged p)) \<longleftrightarrow> dial = None"
  by (auto simp: TCPRelay_def Let_def split: option.split)

text \<open>Two endpoints that are made of objects that can be closed satisfy what the bridge needs to return.\<close>

lemma ReadWriter_closers:
  "(\<And>x. as_closer x \<noteq> None) \<Longrightarrow> \<forall>d. endpoint_closers (NewReadWriter as_closer x) (NewReadWriter as_closer y) d"
  by (simp add: endpoint_closers_def NewReadWriter_def split: direction.split)

end
