(* ===== verification/Relay_Websocket.thy ===== *)
theory Relay_Websocket
  imports Relay Websocket Go_Steps
begin

text \<open>
  The relay of src/relay/tcp_relay.go on the connection of src/websocket/conn.go: the copy towards the TCP side
  reads the websocket with \<open>Conn_Read\<close>, the other one sends each chunk as a message with \<open>Conn_Write\<close>. Every run
  of it is a run of the bridge of \<open>Relay\<close> whose first source is the bytes of the messages.
\<close>

subsection \<open>The steps\<close>

text \<open>
  The bridge's own record is used for what the websocket does not hold: the TCP source, both outputs, the room that
  the destinations have, the copies and the channel. Its \<open>br_in\<close> and \<open>br_end\<close> of the first direction are not looked
  at. \<open>wr_eof\<close> remembers whether a write has failed with \<open>EOF\<close>.
\<close>

record ('r, 'w) ws_relay =
  wr_conn :: "'r ws_Conn"
  wr_world :: 'w
  wr_eof :: bool
  wr_bridge :: bridge

definition relay_conn :: "TCPParam \<Rightarrow> 'r ws_Conn \<Rightarrow> 'r ws_Conn" where
  "relay_conn p c = (if tp_BinaryMode p then SetMessageType BinaryMessage c else c)"

definition deliver :: "direction \<Rightarrow> bytes \<Rightarrow> bridge \<Rightarrow> bridge" where
  "deliver d bs b = b\<lparr>br_out := (br_out b)(d := br_out b d @ bs),
     br_room := (br_room b)(d := map_option (\<lambda>r. r - length bs) (br_room b d))\<rparr>"

text \<open>What does not touch the websocket: an interrupted read of it, or an interrupted write of a chunk as a message.\<close>

fun control_event :: "bridge_event \<Rightarrow> bool" where
  "control_event (SourceEnds d) \<longleftrightarrow> d = BtoA"
| "control_event (Interrupted d n m e) \<longleftrightarrow> m = 0 \<and> (d = AtoB \<longrightarrow> n = 0)"
| "control_event MainStep \<longleftrightarrow> True"
| "control_event _ \<longleftrightarrow> False"

text \<open>\<open>io.Copy\<close> reads into a buffer of 32 KiB and writes what it has read.\<close>

inductive ws_relay_step :: "('r, 'w) ws_lib \<Rightarrow> ('r, 'w) ws_relay \<Rightarrow> ('r, 'w) ws_relay \<Rightarrow> bool" for lib where
  ws_to_tcp: "br_running b AtoB \<Longrightarrow> Conn_Read lib 32768 c w = Some ((bs, None), c1, w1) \<Longrightarrow> fits AtoB (length bs) b \<Longrightarrow>
    ws_relay_step lib \<lparr>wr_conn = c, wr_world = w, wr_eof = x, wr_bridge = b\<rparr>
      \<lparr>wr_conn = c1, wr_world = w1, wr_eof = x, wr_bridge = deliver AtoB bs b\<rparr>"
| tcp_write_fails: "br_running b AtoB \<Longrightarrow> Conn_Read lib 32768 c w = Some ((bs, None), c1, w1) \<Longrightarrow> m \<le> length bs \<Longrightarrow> fits AtoB m b \<Longrightarrow>
    ws_relay_step lib \<lparr>wr_conn = c, wr_world = w, wr_eof = x, wr_bridge = b\<rparr>
      \<lparr>wr_conn = c1, wr_world = w1, wr_eof = (x \<or> e = EOF), wr_bridge = copy_done AtoB (Some e) (deliver AtoB (take m bs) b)\<rparr>"
| tcp_interrupted: "br_running b AtoB \<Longrightarrow> Conn_Read lib 32768 c w = Some ((bs, None), c1, w1) \<Longrightarrow> m \<le> length bs \<Longrightarrow> fits AtoB m b \<Longrightarrow>
    br_closed b AtoB \<or> br_closed b BtoA \<Longrightarrow>
    ws_relay_step lib \<lparr>wr_conn = c, wr_world = w, wr_eof = x, wr_bridge = b\<rparr>
      \<lparr>wr_conn = c1, wr_world = w1, wr_eof = x, wr_bridge = copy_done AtoB err (deliver AtoB (take m bs) b)\<rparr>"
| ws_ends: "br_running b AtoB \<Longrightarrow> Conn_Read lib 32768 c w = Some ((bs, Some e), c1, w1) \<Longrightarrow>
    ws_relay_step lib \<lparr>wr_conn = c, wr_world = w, wr_eof = x, wr_bridge = b\<rparr>
      \<lparr>wr_conn = c1, wr_world = w1, wr_eof = x, wr_bridge = copy_done AtoB (copy_result e) b\<rparr>"
| tcp_to_ws: "chunk_ok BtoA n b \<Longrightarrow> 0 < n \<Longrightarrow> fits BtoA n b \<Longrightarrow> Conn_Write lib (take n (br_in b BtoA)) c w = ((k, None), w1) \<Longrightarrow>
    ws_relay_step lib \<lparr>wr_conn = c, wr_world = w, wr_eof = x, wr_bridge = b\<rparr>
      \<lparr>wr_conn = c, wr_world = w1, wr_eof = x, wr_bridge = copy_chunk BtoA n n b\<rparr>"
| ws_write_fails: "chunk_ok BtoA n b \<Longrightarrow> 0 < n \<Longrightarrow> Conn_Write lib (take n (br_in b BtoA)) c w = ((k, Some e), w1) \<Longrightarrow>
    ws_relay_step lib \<lparr>wr_conn = c, wr_world = w, wr_eof = x, wr_bridge = b\<rparr>
      \<lparr>wr_conn = c, wr_world = w1, wr_eof = (x \<or> e = EOF), wr_bridge = copy_done BtoA (Some e) (copy_chunk BtoA n k b)\<rparr>"
| control: "control_event ev \<Longrightarrow> bridge_step ev b = Some b1 \<Longrightarrow>
    ws_relay_step lib \<lparr>wr_conn = c, wr_world = w, wr_eof = x, wr_bridge = b\<rparr> \<lparr>wr_conn = c, wr_world = w, wr_eof = x, wr_bridge = b1\<rparr>"

text \<open>The start: the TCP side will send \<open>t\<close> and then end as \<open>e\<close> says; \<open>room\<close> is what the two destinations take.\<close>

definition ws_relay_start ::
  "TCPParam \<Rightarrow> bytes \<Rightarrow> source_end \<Rightarrow> (direction \<Rightarrow> nat option) \<Rightarrow> 'r ws_Conn \<Rightarrow> 'w \<Rightarrow> ('r, 'w) ws_relay" where
  "ws_relay_start p t e room c w =
     \<lparr>wr_conn = relay_conn p c, wr_world = w, wr_eof = False,
      wr_bridge = Bridge_start (\<lambda>d. if d = AtoB then [] else t) (\<lambda>d. if d = AtoB then Blocks else e) room (\<lambda>_. True)\<rparr>"

subsection \<open>Writing beside reading\<close>

text \<open>
  What the documentation of gorilla/websocket says of one writer beside one reader: they do not disturb each
  other. \<open>sent w\<close> are the messages that \<open>WriteMessage\<close> has accepted.
\<close>

definition ws_sends :: "('r, 'w) ws_lib \<Rightarrow> ('r \<Rightarrow> 'w \<Rightarrow> bytes) \<Rightarrow> ('w \<Rightarrow> bytes list) \<Rightarrow> ('w \<Rightarrow> (int \<times> bytes) list) \<Rightarrow> bool" where
  "ws_sends lib rest queue sent \<longleftrightarrow>
     (\<forall>t m w e w1. lib_WriteMessage lib t m w = (e, w1) \<longrightarrow> (\<forall>r. rest r w1 = rest r w) \<and> queue w1 = queue w
        \<and> sent w1 = sent w @ (if e = None then [(t, m)] else []))
     \<and> (\<forall>d w. (\<forall>r. rest r (lib_SetWriteDeadline lib d w) = rest r w) \<and> queue (lib_SetWriteDeadline lib d w) = queue w
        \<and> sent (lib_SetWriteDeadline lib d w) = sent w)
     \<and> (\<forall>r n w. sent (snd (lib_Read lib r n w)) = sent w) \<and> (\<forall>w. sent (snd (lib_NextReader lib w)) = sent w)"

lemma Conn_Write_sends:
  assumes "ws_sends lib rest queue sent" "Conn_Write lib m c w = ((k, e), w1)"
  shows "unread rest queue c w1 = unread rest queue c w" "sent w1 = sent w @ (if e = None then [(cn_msgType c, m)] else [])"
    "e \<noteq> None \<Longrightarrow> k = 0"
proof -
  define v where "v = (if cn_writeTimeout c > 0 then lib_SetWriteDeadline lib (lib_Now lib w + cn_writeTimeout c) w else w)"
  have v: "\<forall>r. rest r v = rest r w" "queue v = queue w" "sent v = sent w" using assms(1) by (auto simp: v_def ws_sends_def)
  obtain e' v1 where wr: "lib_WriteMessage lib (cn_msgType c) m v = (e', v1)" by fastforce
  have "e' = e" "v1 = w1" "e \<noteq> None \<Longrightarrow> k = 0"
    using assms(2) wr by (auto simp: Conn_Write_def Let_def v_def [symmetric] split: option.splits)
  moreover from this have "(\<forall>r. rest r w1 = rest r v) \<and> queue w1 = queue v
      \<and> sent w1 = sent v @ (if e = None then [(cn_msgType c, m)] else [])"
    using assms(1) wr unfolding ws_sends_def by blast
  ultimately show "unread rest queue c w1 = unread rest queue c w" "sent w1 = sent w @ (if e = None then [(cn_msgType c, m)] else [])"
    "e \<noteq> None \<Longrightarrow> k = 0"
    using v by (auto simp: unread_def split: option.split)
qed

lemma Conn_Read_keeps:
  assumes read: "Conn_Read lib n c w = Some res" and sends: "ws_sends lib rest queue sent"
  shows "sent (snd (snd res)) = sent w \<and> cn_msgType (fst (snd res)) = cn_msgType c"
proof -
  have nx: "sent v = sent u" if "lib_NextReader lib u = (x, v)" for u x v
    using sends that unfolding ws_sends_def by (metis snd_conv)
  have rd: "sent v = sent u" if "lib_Read lib r k u = (x, v)" for r k u x v
    using sends that unfolding ws_sends_def by (metis snd_conv)
  have "l = lib \<longrightarrow> sent (snd (snd res)) = sent w \<and> cn_msgType (fst (snd res)) = cn_msgType c"
    if "Conn_Read l n c w = Some res" for l
    using that
  proof (rule Conn_Read.raw_induct [rotated], goal_cases)
    case (1 read l n c w y)
    show ?case
    proof
      assume l: "l = lib"
      show "sent (snd (snd y)) = sent w \<and> cn_msgType (fst (snd y)) = cn_msgType c"
        using 1(2) unfolding l
        by (auto split: option.splits prod.splits if_splits sum.splits dest!: nx rd 1(1))
    qed
  qed
  then show ?thesis using read by blast
qed

subsection \<open>The relay is a bridge\<close>

text \<open>The bridge as it would be with the unread bytes of the websocket as its first source, which ends as \<open>e\<close> says.\<close>

definition as_bridge :: "('r \<Rightarrow> 'w \<Rightarrow> bytes) \<Rightarrow> ('w \<Rightarrow> bytes list) \<Rightarrow> source_end \<Rightarrow> ('r, 'w) ws_relay \<Rightarrow> bridge" where
  "as_bridge rest queue e s = (wr_bridge s)\<lparr>br_in := (br_in (wr_bridge s))(AtoB := unread rest queue (wr_conn s) (wr_world s)),
     br_end := (br_end (wr_bridge s))(AtoB := e)\<rparr>"

lemma as_bridge_sel [simp]:
  "br_in (as_bridge rest queue e s) = (br_in (wr_bridge s))(AtoB := unread rest queue (wr_conn s) (wr_world s))"
  "br_end (as_bridge rest queue e s) = (br_end (wr_bridge s))(AtoB := e)"
  "br_room (as_bridge rest queue e s) = br_room (wr_bridge s)"
  "br_out (as_bridge rest queue e s) = br_out (wr_bridge s)" "br_running (as_bridge rest queue e s) = br_running (wr_bridge s)"
  "br_ch (as_bridge rest queue e s) = br_ch (wr_bridge s)" "br_closer (as_bridge rest queue e s) = br_closer (wr_bridge s)"
  "br_closed (as_bridge rest queue e s) = br_closed (wr_bridge s)" "br_pc (as_bridge rest queue e s) = br_pc (wr_bridge s)"
  by (simp_all add: as_bridge_def)

text \<open>
  A run of the relay is a run of that bridge. How the websocket ends is not known before it does: while its copy
  runs, any end will do.
\<close>

definition is_bridge_run ::
  "('r \<Rightarrow> 'w \<Rightarrow> bytes) \<Rightarrow> ('w \<Rightarrow> bytes list) \<Rightarrow> (direction \<Rightarrow> bytes) \<Rightarrow> source_end \<Rightarrow> (direction \<Rightarrow> nat option) \<Rightarrow> ('r, 'w) ws_relay \<Rightarrow> bool" where
  "is_bridge_run rest queue src t_end room s \<longleftrightarrow>
     (\<exists>evs e0. (\<forall>ev\<in>set evs. write_eof ev \<longrightarrow> wr_eof s) \<and>
        (\<forall>e. br_running (wr_bridge s) AtoB \<or> e = e0 \<longrightarrow>
           bridge_run evs (Bridge_start src (\<lambda>d. if d = AtoB then e else t_end) room (\<lambda>_. True)) = Some (as_bridge rest queue e s)))"

lemma bridge_run_snoc: "bridge_run (evs @ [ev]) s = Option.bind (bridge_run evs s) (bridge_step ev)"
  by (induction evs arbitrary: s) (auto split: option.split)

lemma is_bridge_run_step:
  assumes "is_bridge_run rest queue src t_end room s" "wr_eof s \<or> write_eof ev \<Longrightarrow> wr_eof s1"
    "br_running (wr_bridge s1) AtoB \<Longrightarrow> br_running (wr_bridge s) AtoB"
    "\<And>e. bridge_step ev (as_bridge rest queue e s) = Some (as_bridge rest queue e s1)"
  shows "is_bridge_run rest queue src t_end room s1"
proof -
  obtain evs e0 where "\<forall>ev\<in>set evs. write_eof ev \<longrightarrow> wr_eof s"
    "\<forall>e. br_running (wr_bridge s) AtoB \<or> e = e0 \<longrightarrow>
       bridge_run evs (Bridge_start src (\<lambda>d. if d = AtoB then e else t_end) room (\<lambda>_. True)) = Some (as_bridge rest queue e s)"
    using assms(1) unfolding is_bridge_run_def by blast
  with assms(2-4) show ?thesis
    unfolding is_bridge_run_def by (intro exI [of _ "evs @ [ev]"] exI [of _ e0]) (auto simp: bridge_run_snoc)
qed

lemma is_bridge_run_end:
  assumes "is_bridge_run rest queue src t_end room s" "br_running (wr_bridge s) AtoB" "\<not> br_running (wr_bridge s1) AtoB"
    "wr_eof s1 = wr_eof s"
    "bridge_step (SourceEnds AtoB) (as_bridge rest queue (EndsWith err) s) = Some (as_bridge rest queue (EndsWith err) s1)"
  shows "is_bridge_run rest queue src t_end room s1"
proof -
  obtain evs where "\<forall>ev\<in>set evs. write_eof ev \<longrightarrow> wr_eof s"
    "\<forall>e. bridge_run evs (Bridge_start src (\<lambda>d. if d = AtoB then e else t_end) room (\<lambda>_. True)) = Some (as_bridge rest queue e s)"
    using assms(1,2) unfolding is_bridge_run_def by blast
  with assms(3-5) show ?thesis
    unfolding is_bridge_run_def
    by (intro exI [of _ "evs @ [SourceEnds AtoB]"] exI [of _ "EndsWith err"]) (auto simp: bridge_run_snoc write_eof_def)
qed

lemma control_as_bridge:
  assumes "control_event ev" "bridge_step ev b = Some b1"
  shows "bridge_step ev (as_bridge rest queue e \<lparr>wr_conn = c, wr_world = w, wr_eof = x, wr_bridge = b\<rparr>) =
    Some (as_bridge rest queue e \<lparr>wr_conn = c, wr_world = w, wr_eof = x, wr_bridge = b1\<rparr>)"
proof (cases ev)
  case MainStep
  with assms(2) have "Bridge_main b = Some b1" by simp
  then show ?thesis using MainStep
    by (auto simp: Bridge_main_def as_bridge_def closeEndpoint_def split: bridge_pc.splits list.splits)
next
  case (Interrupted d n m err)
  then show ?thesis using assms
    by (cases d) (auto simp: as_bridge_def copy_done_def copy_chunk_def chunk_ok_def fits_def fun_upd_twist split: if_splits)
qed (use assms in \<open>auto simp: as_bridge_def copy_done_def split: source_end.splits if_splits\<close>)

definition relay_inv ::
  "('r, 'w) ws_lib \<Rightarrow> ('r \<Rightarrow> 'w \<Rightarrow> bytes) \<Rightarrow> ('w \<Rightarrow> bytes list) \<Rightarrow> ('w \<Rightarrow> (int \<times> bytes) list) \<Rightarrow> (direction \<Rightarrow> bytes) \<Rightarrow> source_end
     \<Rightarrow> (direction \<Rightarrow> nat option) \<Rightarrow> int \<Rightarrow> ('r, 'w) ws_relay \<Rightarrow> bool" where
  "relay_inv lib rest queue sent src t_end room mt s \<longleftrightarrow>
     ws_delivers lib rest queue \<and> ws_sends lib rest queue sent \<and> is_bridge_run rest queue src t_end room s
     \<and> cn_msgType (wr_conn s) = mt \<and> concat (map snd (sent (wr_world s))) = br_out (wr_bridge s) BtoA
     \<and> (\<forall>(t, m)\<in>set (sent (wr_world s)). t = mt \<and> m \<noteq> [] \<and> length m \<le> 32768)"

lemma relay_inv_start:
  assumes "ws_delivers lib rest queue" "ws_sends lib rest queue sent" "sent w = []"
  shows "relay_inv lib rest queue sent (\<lambda>d. if d = AtoB then unread rest queue (relay_conn p c) w else t) t_end room
    (cn_msgType (relay_conn p c)) (ws_relay_start p t t_end room c w)"
proof -
  have "as_bridge rest queue e (ws_relay_start p t t_end room c w) =
      Bridge_start (\<lambda>d. if d = AtoB then unread rest queue (relay_conn p c) w else t) (\<lambda>d. if d = AtoB then e else t_end) room (\<lambda>_. True)" for e
    by (auto simp: as_bridge_def ws_relay_start_def Bridge_start_def)
  then show ?thesis using assms
    by (auto simp: relay_inv_def is_bridge_run_def ws_relay_start_def Bridge_start_def intro!: exI [of _ "[]"])
qed

lemma ws_read_as_bridge:
  assumes "ws_delivers lib rest queue" "br_running b AtoB" "Conn_Read lib 32768 c w = Some ((bs, None), c1, w1)"
  shows "chunk_ok AtoB (length bs) (as_bridge rest queue e \<lparr>wr_conn = c, wr_world = w, wr_eof = x, wr_bridge = b\<rparr>)" and "bs \<noteq> []"
    and "m \<le> length bs \<Longrightarrow> copy_chunk AtoB (length bs) m (as_bridge rest queue e \<lparr>wr_conn = c, wr_world = w, wr_eof = x, wr_bridge = b\<rparr>) =
      as_bridge rest queue e \<lparr>wr_conn = c1, wr_world = w1, wr_eof = y, wr_bridge = deliver AtoB (take m bs) b\<rparr>"
proof -
  have "reads_ok 32768 rest queue c w ((bs, None), c1, w1)" using Conn_Read_ok [OF assms(1), of 32768 c w] assms(3) by simp
  note ok = reads_okD [OF this]
  show "bs \<noteq> []" using ok(4) by blast
  from ok(2) show "chunk_ok AtoB (length bs) (as_bridge rest queue e \<lparr>wr_conn = c, wr_world = w, wr_eof = x, wr_bridge = b\<rparr>)"
    using assms(2) by (simp add: chunk_ok_def ok(1))
  show "copy_chunk AtoB (length bs) m (as_bridge rest queue e \<lparr>wr_conn = c, wr_world = w, wr_eof = x, wr_bridge = b\<rparr>) =
      as_bridge rest queue e \<lparr>wr_conn = c1, wr_world = w1, wr_eof = y, wr_bridge = deliver AtoB (take m bs) b\<rparr>" if "m \<le> length bs"
    using that by (simp add: copy_chunk_def as_bridge_def deliver_def ok(1) min_absorb2)
qed

lemma ws_write_as_bridge:
  assumes "ws_sends lib rest queue sent" "Conn_Write lib p c w = ((k, e), w1)"
  shows "copy_chunk BtoA n m (as_bridge rest queue z \<lparr>wr_conn = c, wr_world = w, wr_eof = x, wr_bridge = b\<rparr>) =
      as_bridge rest queue z \<lparr>wr_conn = c, wr_world = w1, wr_eof = y, wr_bridge = copy_chunk BtoA n m b\<rparr>"
  by (simp add: copy_chunk_def as_bridge_def Conn_Write_sends(1) [OF assms] fun_upd_twist)

lemma copy_done_as_bridge:
  "copy_done d err (as_bridge rest queue e \<lparr>wr_conn = c, wr_world = w, wr_eof = x, wr_bridge = b\<rparr>) =
     as_bridge rest queue e \<lparr>wr_conn = c, wr_world = w, wr_eof = x, wr_bridge = copy_done d err b\<rparr>"
  by (simp add: copy_done_def as_bridge_def)

lemma fits_as_bridge [simp]:
  "fits d m (as_bridge rest queue e \<lparr>wr_conn = c, wr_world = w, wr_eof = x, wr_bridge = b\<rparr>) = fits d m b"
  by (simp add: fits_def)

lemma relay_bridge_step:
  assumes "ws_relay_step lib s s1" "ws_delivers lib rest queue" "ws_sends lib rest queue sent" "is_bridge_run rest queue src t_end room s"
  shows "is_bridge_run rest queue src t_end room s1"
  using assms
proof (induction rule: ws_relay_step.induct)
  case (ws_to_tcp b c w bs c1 w1 x)
  note rd = ws_read_as_bridge [OF ws_to_tcp(4,1,2)]
  from ws_to_tcp(6) show ?case
    by (rule is_bridge_run_step [where ev = "CopyChunk AtoB (length bs)"])
       (use rd(1,2) rd(3) [of "length bs" _ x x] ws_to_tcp(3) in \<open>simp_all add: deliver_def write_eof_def\<close>)
next
  case (tcp_write_fails b c w bs c1 w1 m x e)
  note rd = ws_read_as_bridge [OF tcp_write_fails(5,1,2)]
  from tcp_write_fails(7) show ?case
    by (rule is_bridge_run_step [where ev = "WriteFails AtoB (length bs) m e"])
       (use rd(1,2) rd(3) [of m _ x "x \<or> e = EOF"] tcp_write_fails(3,4) in \<open>auto simp: copy_done_as_bridge write_eof_def copy_done_def\<close>)
next
  case (tcp_interrupted b c w bs c1 w1 m x err)
  note rd = ws_read_as_bridge [OF tcp_interrupted(6,1,2)]
  from tcp_interrupted(8) show ?case
    by (rule is_bridge_run_step [where ev = "Interrupted AtoB (length bs) m err"])
       (use rd(1,2) rd(3) [of m _ x x] tcp_interrupted(3-5) in \<open>simp_all add: copy_done_as_bridge write_eof_def\<close>, simp add: copy_done_def)
next
  case (ws_ends b c w bs e c1 w1 x)
  have "reads_ok 32768 rest queue c w ((bs, Some e), c1, w1)"
    using Conn_Read_ok [OF ws_ends(3), of 32768 c w] ws_ends(2) by simp
  note ok = reads_okD [OF this]
  have "bs = []" and "unread rest queue c w = []" using ok(3,4) by auto
  then have "unread rest queue c w = []" "unread rest queue c1 w1 = []" using ok(1) by auto
  then show ?case using ws_ends(1)
    by (intro is_bridge_run_end [OF ws_ends(5), of _ e]) (auto simp: copy_done_def as_bridge_def)
next
  case (tcp_to_ws n b c w k w1 x)
  then have "chunk_ok BtoA n (as_bridge rest queue e \<lparr>wr_conn = c, wr_world = w, wr_eof = x, wr_bridge = b\<rparr>)" for e
    by (simp add: chunk_ok_def)
  then show ?case using tcp_to_ws(2,3)
    by (intro is_bridge_run_step [OF tcp_to_ws(7), of "CopyChunk BtoA n"])
       (simp_all add: ws_write_as_bridge [OF tcp_to_ws(6,4), where x = x and y = x] write_eof_def, simp add: copy_chunk_def)
next
  case (ws_write_fails n b c w k e w1 x)
  then have "chunk_ok BtoA n (as_bridge rest queue e \<lparr>wr_conn = c, wr_world = w, wr_eof = x, wr_bridge = b\<rparr>)" for e
    by (simp add: chunk_ok_def)
  moreover have "k = 0" using Conn_Write_sends(3) [OF ws_write_fails(5,3)] by auto
  moreover have "fits BtoA 0 b" for b by (simp add: fits_def split: option.split)
  ultimately show ?case using ws_write_fails(2)
    by (intro is_bridge_run_step [OF ws_write_fails(6), of "WriteFails BtoA n 0 e"])
       (simp_all add: ws_write_as_bridge [OF ws_write_fails(5,3), where x = x and y = "x \<or> e = EOF"] copy_done_as_bridge,
        auto simp: write_eof_def copy_chunk_def copy_done_def)
next
  case (control ev b b1 c w x)
  have "br_running b1 AtoB \<Longrightarrow> br_running b AtoB"
    using control(1,2) by (cases ev)
      (auto simp: copy_done_def copy_chunk_def Bridge_main_def closeEndpoint_def split: if_splits bridge_pc.splits list.splits source_end.splits)
  moreover have "\<not> write_eof ev" using control(1) by (auto simp: write_eof_def)
  ultimately show ?case
    by (intro is_bridge_run_step [OF control(5), of ev]) (simp_all add: control_as_bridge [OF control(1,2)])
qed

text \<open>The messages that were sent are the chunks that the TCP side got through.\<close>

lemma relay_messages_step:
  assumes "ws_relay_step lib s s1" "ws_sends lib rest queue sent" "cn_msgType (wr_conn s) = mt"
    "concat (map snd (sent (wr_world s))) = br_out (wr_bridge s) BtoA"
    "\<forall>(t, m)\<in>set (sent (wr_world s)). t = mt \<and> m \<noteq> [] \<and> length m \<le> 32768"
  shows "cn_msgType (wr_conn s1) = mt \<and> concat (map snd (sent (wr_world s1))) = br_out (wr_bridge s1) BtoA
    \<and> (\<forall>(t, m)\<in>set (sent (wr_world s1)). t = mt \<and> m \<noteq> [] \<and> length m \<le> 32768)"
  using assms
proof (induction rule: ws_relay_step.induct)
  case (ws_to_tcp b c w bs c1 w1 x)
  then show ?case using Conn_Read_keeps [OF ws_to_tcp(2,4)] by (simp add: deliver_def)
next
  case (tcp_write_fails b c w bs c1 w1 m x e)
  then show ?case using Conn_Read_keeps [OF tcp_write_fails(2,5)] by (simp add: deliver_def copy_done_def)
next
  case (tcp_interrupted b c w bs c1 w1 m x err)
  then show ?case using Conn_Read_keeps [OF tcp_interrupted(2,6)] by (simp add: deliver_def copy_done_def)
next
  case (ws_ends b c w bs e c1 w1 x)
  then show ?case using Conn_Read_keeps [OF ws_ends(2,3)] by (simp add: copy_done_def)
next
  case (tcp_to_ws n b c w k w1 x)
  then show ?case using Conn_Write_sends(2) [OF tcp_to_ws(5,4)] by (auto simp: copy_chunk_def chunk_ok_def)
next
  case (ws_write_fails n b c w k e w1 x)
  then show ?case using Conn_Write_sends(2,3) [OF ws_write_fails(4,3)] by (simp add: copy_chunk_def copy_done_def)
next
  case (control ev b b1 c w x)
  have "br_out b1 BtoA = br_out b BtoA"
    using control(1,2) by (cases ev)
      (auto simp: copy_done_def copy_chunk_def Bridge_main_def split: if_splits bridge_pc.splits list.splits source_end.splits)
  with control show ?case by simp
qed

lemma relay_inv_step: "ws_relay_step lib s s1 \<Longrightarrow> relay_inv lib rest queue sent src t_end room mt s \<Longrightarrow> relay_inv lib rest queue sent src t_end room mt s1"
proof -
  assume step: "ws_relay_step lib s s1" and "relay_inv lib rest queue sent src t_end room mt s"
  then have ok: "ws_delivers lib rest queue" "ws_sends lib rest queue sent" "is_bridge_run rest queue src t_end room s"
    "cn_msgType (wr_conn s) = mt" "concat (map snd (sent (wr_world s))) = br_out (wr_bridge s) BtoA"
    "\<forall>(t, m)\<in>set (sent (wr_world s)). t = mt \<and> m \<noteq> [] \<and> length m \<le> 32768"
    unfolding relay_inv_def by simp_all
  show ?thesis
    unfolding relay_inv_def
    using ok(1,2) relay_bridge_step [OF step ok(1-3)] relay_messages_step [OF step ok(2,4-6)] by simp
qed

definition relay_begins where
  "relay_begins lib rest queue sent src t_end room mt s \<longleftrightarrow>
     (\<exists>p t c w. s = ws_relay_start p t t_end room c w \<and> ws_delivers lib rest queue \<and> ws_sends lib rest queue sent \<and> sent w = []
        \<and> src = (\<lambda>d. if d = AtoB then unread rest queue (relay_conn p c) w else t) \<and> mt = cn_msgType (relay_conn p c))"

interpretation ws_relays: safe_machine "ws_relay_step lib" "relay_begins lib rest queue sent src t_end room mt"
    "relay_inv lib rest queue sent src t_end room mt" for lib rest queue sent src t_end room mt
  by unfold_locales (auto simp: relay_begins_def intro: relay_inv_start relay_inv_step)

text \<open>
  C32. A relay between a websocket and TCP delivers, for a websocket library that hands over each message's bytes in
  order, in pieces of any size, and sends a message or fails. However the two copies, the bridge, blocking and
  failing reads and writes and the closing interleave: what the TCP side got is a prefix of the bytes of the
  messages the websocket received, whatever their boundaries; the messages the websocket sent are not empty, at
  most 32 KiB, binary when the relay is binary, and joined they are a prefix of what the TCP side sent. When the
  relay returns with no error, one side's bytes were delivered to the last one, or a write failed with \<open>EOF\<close>.
\<close>

theorem ws_relay_delivers:
  assumes "(ws_relay_step lib)\<^sup>*\<^sup>* (ws_relay_start p t t_end room c w) s"
    and "ws_delivers lib rest queue" and "ws_sends lib rest queue sent" and "sent w = []"
  shows "prefix (br_out (wr_bridge s) AtoB) (unread rest queue c w)
    \<and> prefix (concat (map snd (sent (wr_world s)))) t
    \<and> (\<forall>(ty, m)\<in>set (sent (wr_world s)). ty = (if tp_BinaryMode p then BinaryMessage else cn_msgType c) \<and> m \<noteq> [] \<and> length m \<le> 32768)
    \<and> (br_pc (wr_bridge s) = Returned None \<longrightarrow>
         br_out (wr_bridge s) AtoB = unread rest queue c w \<or> concat (map snd (sent (wr_world s))) = t \<or> wr_eof s)"
proof -
  let ?src = "\<lambda>d. if d = AtoB then unread rest queue (relay_conn p c) w else t"
  let ?mt = "cn_msgType (relay_conn p c)"
  have conn: "unread rest queue (relay_conn p c) w = unread rest queue c w"
    "?mt = (if tp_BinaryMode p then BinaryMessage else cn_msgType c)"
    by (simp_all add: relay_conn_def SetMessageType_def unread_def)
  have "relay_inv lib rest queue sent ?src t_end room ?mt s"
    by (rule ws_relays.reach_inv [OF assms(1)]) (use assms(2-4) in \<open>auto simp: relay_begins_def\<close>)
  then have run: "is_bridge_run rest queue ?src t_end room s" and sent: "concat (map snd (sent (wr_world s))) = br_out (wr_bridge s) BtoA"
    "\<forall>(ty, m)\<in>set (sent (wr_world s)). ty = ?mt \<and> m \<noteq> [] \<and> length m \<le> 32768"
    unfolding relay_inv_def by blast+
  obtain evs e0 where evs: "\<forall>ev\<in>set evs. write_eof ev \<longrightarrow> wr_eof s"
    "bridge_run evs (Bridge_start ?src (\<lambda>d. if d = AtoB then e0 else t_end) room (\<lambda>_. True)) = Some (as_bridge rest queue e0 s)"
    using run unfolding is_bridge_run_def by blast
  note inv = bridge_run_inv(1) [OF evs(2)]
  have got: "prefix (br_out (wr_bridge s) d) (?src d)" for d using bridge_inv_prefix [OF inv, of d] by simp
  have "wr_eof s \<or> (\<exists>d. br_out (wr_bridge s) d = ?src d)" if "br_pc (wr_bridge s) = Returned None"
    using bridge_inv_returned [OF inv, of None] that evs(1) by (simp only: as_bridge_sel) blast
  then have "br_out (wr_bridge s) AtoB = ?src AtoB \<or> br_out (wr_bridge s) BtoA = ?src BtoA \<or> wr_eof s" if "br_pc (wr_bridge s) = Returned None"
    using that all_directions [of "\<lambda>d. br_out (wr_bridge s) d \<noteq> ?src d"] by blast
  then show ?thesis using got [of AtoB] got [of BtoA] sent conn by simp
qed

subsection \<open>A run\<close>

text \<open>A connection that gives a message at a time and accepts every message.\<close>

definition demo_relay_ws :: "(unit, bytes \<times> bytes list \<times> (int \<times> bytes) list) ws_lib" where
  "demo_relay_ws =
     \<lparr>lib_NextReader = (\<lambda>(cur, q, out). case q of [] \<Rightarrow> (Inl (Errorf ''closed''), cur, q, out) | m # ms \<Rightarrow> (Inr (), m, ms, out)),
      lib_Read = (\<lambda>_ n (cur, q, out). ((take n cur, if take n cur = [] then Some EOF else None), drop n cur, q, out)),
      lib_WriteMessage = (\<lambda>t m (cur, q, out). (None, cur, q, out @ [(t, m)])),
      lib_WritePing = (\<lambda>_ _ w. (None, w)), lib_SetWriteDeadline = (\<lambda>_ w. w), lib_SetReadDeadline = (\<lambda>_ w. w),
      lib_SetReadLimit = (\<lambda>_ w. w), lib_SetPongHandler = (\<lambda>_ w. w), lib_Close = (\<lambda>w. (None, w)), lib_Now = (\<lambda>_. 0)\<rparr>"

lemma demo_relay_lib:
  "ws_delivers demo_relay_ws (\<lambda>_ w. fst w) (\<lambda>w. fst (snd w))"
  "ws_sends demo_relay_ws (\<lambda>_ w. fst w) (\<lambda>w. fst (snd w)) (\<lambda>w. snd (snd w))"
  by (auto simp: ws_delivers_def ws_sends_def demo_relay_ws_def split: list.splits if_splits)

text \<open>The TCP side answers and ends; the relay closes both, and the read of the websocket is interrupted.\<close>

lemma demo_relay_runs:
  assumes "p = \<lparr>tp_TargetAddr = ''x:1'', tp_BinaryMode = True\<rparr>"
  obtains s where "(ws_relay_step demo_relay_ws)\<^sup>*\<^sup>* (ws_relay_start p ''yo'' (EndsWith EOF) (\<lambda>_. None) newConn ([], [''hi''], [])) s"
    "br_pc (wr_bridge s) = Returned None" "br_out (wr_bridge s) AtoB = ''hi''" "snd (snd (wr_world s)) = [(2, ''yo'')]"
proof -
  let ?c = "relay_conn p (newConn :: unit ws_Conn)"
  define b where "b = Bridge_start (\<lambda>d. if d = AtoB then [] else ''yo'') (\<lambda>d. if d = AtoB then Blocks else EndsWith EOF) (\<lambda>_. None) (\<lambda>_. True)"
  define st where "st c w b = \<lparr>wr_conn = c :: unit ws_Conn, wr_world = w :: bytes \<times> bytes list \<times> (int \<times> bytes) list, wr_eof = False, wr_bridge = b\<rparr>" for c w b
  let ?c1 = "?c\<lparr>cn_rdBuf := Some ()\<rparr>"
  define b1 where "b1 = deliver AtoB ''hi'' b"
  define b2 where "b2 = copy_chunk BtoA 2 2 b1"
  define b3 where "b3 = copy_done BtoA None b2"
  define b4 where "b4 = the (Bridge_main b3)"
  define b5 where "b5 = copy_done AtoB (Some (ErrIO ''closed'')) b4"
  define b6 where "b6 = the (Bridge_main b5)"
  note bs = b_def b1_def b2_def b3_def b4_def b5_def b6_def deliver_def copy_chunk_def copy_done_def Bridge_main_def
    Bridge_start_def closeEndpoint_def chunk_ok_def fits_def copy_result_def
  have "Conn_Read demo_relay_ws 32768 ?c ([], [''hi''], []) = Some ((''hi'', None), ?c1, [], [], [])"
    by (subst Conn_Read.simps, simp add: relay_conn_def assms SetMessageType_def newConn_def demo_relay_ws_def,
        subst Conn_Read.simps, simp)
  then have "ws_relay_step demo_relay_ws (st ?c ([], [''hi''], []) b) (st ?c1 ([], [], []) b1)"
    unfolding st_def b1_def by (intro ws_to_tcp) (simp_all add: bs)
  moreover have "ws_relay_step demo_relay_ws (st ?c1 ([], [], []) b1) (st ?c1 ([], [], [(2, ''yo'')]) b2)"
    unfolding st_def b2_def
    by (rule tcp_to_ws) (simp_all add: bs Conn_Write_def relay_conn_def assms SetMessageType_def newConn_def demo_relay_ws_def)
  moreover have "ws_relay_step demo_relay_ws (st ?c1 ([], [], [(2, ''yo'')]) b2) (st ?c1 ([], [], [(2, ''yo'')]) b3)"
    unfolding st_def by (rule control [of "SourceEnds BtoA"]) (simp_all add: bs)
  moreover have "ws_relay_step demo_relay_ws (st ?c1 ([], [], [(2, ''yo'')]) b3) (st ?c1 ([], [], [(2, ''yo'')]) b4)"
    unfolding st_def by (rule control [of MainStep]) (simp_all add: bs)
  moreover have "ws_relay_step demo_relay_ws (st ?c1 ([], [], [(2, ''yo'')]) b4) (st ?c1 ([], [], [(2, ''yo'')]) b5)"
    unfolding st_def by (rule control [of "Interrupted AtoB 0 0 (Some (ErrIO ''closed''))"]) (auto simp: bs fun_eq_iff)
  moreover have "ws_relay_step demo_relay_ws (st ?c1 ([], [], [(2, ''yo'')]) b5) (st ?c1 ([], [], [(2, ''yo'')]) b6)"
    unfolding st_def by (rule control [of MainStep]) (simp_all add: bs)
  ultimately have "(ws_relay_step demo_relay_ws)\<^sup>*\<^sup>* (st ?c ([], [''hi''], []) b) (st ?c1 ([], [], [(2, ''yo'')]) b6)"
    by (meson converse_rtranclp_into_rtranclp rtranclp.rtrancl_refl)
  moreover have "st ?c ([], [''hi''], []) b = ws_relay_start p ''yo'' (EndsWith EOF) (\<lambda>_. None) newConn ([], [''hi''], [])"
    by (simp add: st_def b_def ws_relay_start_def)
  ultimately show thesis by (intro that [of "st ?c1 ([], [], [(2, ''yo'')]) b6"]) (simp_all add: st_def bs)
qed

theorem ws_relay_delivers_witness:
  "\<exists>s. (ws_relay_step demo_relay_ws)\<^sup>*\<^sup>* (ws_relay_start \<lparr>tp_TargetAddr = ''x:1'', tp_BinaryMode = True\<rparr> ''yo'' (EndsWith EOF) (\<lambda>_. None) newConn ([], [''hi''], [])) s
     \<and> br_pc (wr_bridge s) = Returned None \<and> prefix (br_out (wr_bridge s) AtoB) ''hi'' \<and> prefix (concat (map snd (snd (snd (wr_world s))))) ''yo''"
proof -
  obtain s where s: "(ws_relay_step demo_relay_ws)\<^sup>*\<^sup>* (ws_relay_start \<lparr>tp_TargetAddr = ''x:1'', tp_BinaryMode = True\<rparr> ''yo'' (EndsWith EOF) (\<lambda>_. None) newConn ([], [''hi''], [])) s"
    "br_pc (wr_bridge s) = Returned None" by (rule demo_relay_runs [OF refl])
  from ws_relay_delivers [OF s(1) demo_relay_lib] have
    "prefix (br_out (wr_bridge s) AtoB) ''hi'' \<and> prefix (concat (map snd (snd (snd (wr_world s))))) ''yo''"
    by (simp add: unread_def newConn_def)
  with s show ?thesis by blast
qed

end
