(* ===== verification/Strutil.thy ===== *)
theory Strutil
  imports Go_Prelude
begin

text \<open>
  String helpers (src/strutil): conversions (convert.go), removing indentation (trim.go), random strings
  (rand.go) and the GB18030 decoding (encode.go), whose decoder is a parameter, as are the random numbers.
\<close>

subsection \<open>Conversions\<close>

definition ToInt :: "string \<Rightarrow> int" where
  "ToInt str = (case strconv_Atoi str of None \<Rightarrow> 0 | Some v \<Rightarrow> v)"

text \<open>The conversion of an \<open>int\<close> to \<open>uint\<close> takes it modulo \<open>2 ^ 64\<close>.\<close>

definition ToUint :: "string \<Rightarrow> nat" where
  "ToUint str = (case strconv_Atoi str of None \<Rightarrow> 0 | Some v \<Rightarrow> nat (v mod 2 ^ 64))"

definition FirstUpper :: "(string \<Rightarrow> string) \<Rightarrow> string \<Rightarrow> string" where
  "FirstUpper uni s = (if s = [] then s else strings_ToUpper uni (take 1 s) @ drop 1 s)"

definition FirstLower :: "(string \<Rightarrow> string) \<Rightarrow> string \<Rightarrow> string" where
  "FirstLower uni s = (if s = [] then s else strings_ToLower uni (take 1 s) @ drop 1 s)"

definition Gb18030ToUtf8 :: "(string \<Rightarrow> string go_result) \<Rightarrow> string \<Rightarrow> string" where
  "Gb18030ToUtf8 gb18030_decode s = (case gb18030_decode s of Inr r \<Rightarrow> r | Inl _ \<Rightarrow> s)"

subsection \<open>Indentation\<close>

abbreviation blanks :: string where "blanks \<equiv> [CHR '' '', CHR 0x09]"

text \<open>The smallest indentation of the lines that are not blank, \<open>-1\<close> when there is none.\<close>

fun min_indent :: "int \<Rightarrow> string list \<Rightarrow> int" where
  "min_indent m [] = m"
| "min_indent m (line # lines) =
     (let trimLine = strings_TrimLeft line blanks; indent = int (length line) - int (length trimLine)
      in if trimLine = [] then min_indent m lines
         else min_indent (if m = -1 \<or> indent < m then indent else m) lines)"

definition strip_indent :: "string list \<Rightarrow> string list" where
  "strip_indent lines = map (\<lambda>line. let t = strings_TrimLeft line blanks in if length t > 0 then t else line) lines"

definition trim_empty :: "string list \<Rightarrow> string list" where
  "trim_empty lines = rev (dropWhile (\<lambda>l. l = []) (rev (dropWhile (\<lambda>l. l = []) lines)))"

definition Dedent :: "string \<Rightarrow> string" where
  "Dedent txt1 =
     (let lines = strings_Split nl txt1
      in strings_Join [nl] (trim_empty (if min_indent (-1) lines > 0 then strip_indent lines else lines)))"

subsection \<open>Random strings\<close>

text \<open>One character from a random number below 3 and one below 10 or 26.\<close>

definition rand_piece :: "nat \<times> nat \<Rightarrow> string" where
  "rand_piece d =
     (if fst d = 0 then strconv_Itoa (int (snd d))
      else if fst d = 1 then [char_of (snd d + 65)]
      else [char_of (snd d + 97)])"

text \<open>The slice is made with \<open>n\<close> empty strings before the \<open>n\<close> pieces are appended.\<close>

definition strutil_Rand :: "(nat \<Rightarrow> nat \<times> nat) \<Rightarrow> nat \<Rightarrow> string" where
  "strutil_Rand draw n = strings_Join [] (replicate n [] @ map (\<lambda>i. rand_piece (draw i)) [0..<n])"

text \<open>\<open>v7\<close> and \<open>v4\<close> are the identifiers that the uuid package makes.\<close>

definition strutil_NewString :: "string go_result \<Rightarrow> string \<Rightarrow> string" where
  "strutil_NewString v7 v4 = (case v7 of Inl _ \<Rightarrow> v4 | Inr tid \<Rightarrow> tid)"

subsection \<open>Lemmas\<close>

text \<open>A text that is no number is 0, but a negative one wraps.\<close>

lemma ToUint_nonneg: "strconv_Atoi s = Some v \<Longrightarrow> 0 \<le> v \<Longrightarrow> int (ToUint s) = v"
  by (auto simp: ToUint_def in_int64_def max_int64_def dest: Atoi_range)

lemma ToUint_negative:
  assumes "strconv_Atoi s = Some v" "v < 0"
  shows "int (ToUint s) = 2 ^ 64 + v"
proof -
  have "- (2 ^ 63) \<le> v" using Atoi_range [OF assms(1)] by (simp add: in_int64_def min_int64_def)
  then have "v mod 2 ^ 64 = 2 ^ 64 + v" using assms(2) int_mod_pos_eq [of v "2 ^ 64" "-1" "2 ^ 64 + v"] by auto
  with assms(1) show ?thesis using \<open>- (2 ^ 63) \<le> v\<close> by (simp add: ToUint_def)
qed

lemma Join_empty: "strings_Join [] ls = concat ls"
  by (induction "[] :: string" ls rule: strings_Join.induct) auto

text \<open>A random string has the length that was asked for, and consists of ASCII digits and letters.\<close>

definition alnum :: "char \<Rightarrow> bool" where
  "alnum c \<longleftrightarrow> (let n = of_char c :: nat in (48 \<le> n \<and> n \<le> 57) \<or> (65 \<le> n \<and> n \<le> 90) \<or> (97 \<le> n \<and> n \<le> 122))"

definition good_draw :: "nat \<times> nat \<Rightarrow> bool" where
  "good_draw d \<longleftrightarrow> fst d < 3 \<and> snd d < (if fst d = 0 then 10 else 26)"

lemma rand_piece_ok: "good_draw d \<Longrightarrow> length (rand_piece d) = 1 \<and> list_all alnum (rand_piece d)"
proof -
  have n: "n < 10 \<Longrightarrow> strconv_Itoa (int n) = [char_of (48 + n)]" for n
    by (simp add: strconv_Itoa_def nat_digits.simps)
  show "good_draw d \<Longrightarrow> length (rand_piece d) = 1 \<and> list_all alnum (rand_piece d)"
    by (auto simp: good_draw_def rand_piece_def n alnum_def Let_def split: if_splits)
qed

lemma Rand_alnum:
  assumes "\<forall>i. good_draw (draw i)"
  shows "length (strutil_Rand draw n) = n \<and> list_all alnum (strutil_Rand draw n)"
proof -
  have "strutil_Rand draw n = concat (map (\<lambda>i. rand_piece (draw i)) [0..<n])"
    by (simp add: strutil_Rand_def Join_empty)
  moreover have "length (concat (map (\<lambda>i. rand_piece (draw i)) [0..<n])) = n" using assms rand_piece_ok by (induction n) auto
  moreover have "list_all alnum (rand_piece (draw i))" for i using rand_piece_ok assms by blast
  ultimately show ?thesis by (auto simp: list_all_iff)
qed

text \<open>
  \<open>Dedent\<close> is documented to remove the indentation that the lines have in common; it removes all of it from
  every line as soon as each line has some.
\<close>

lemma Dedent_flattens: "Dedent (''  a'' @ [nl] @ ''    b'') = ''a'' @ [nl] @ ''b''"
  by code_simp

text \<open>When lines are indented at all, no line of the result that has more than blanks begins with one.\<close>

lemma strip_indent_line:
  assumes "l \<in> set (strip_indent lines)" "strings_TrimLeft l blanks \<noteq> []"
  shows "hd l \<notin> set blanks"
proof -
  obtain x where x: "x \<in> set lines" "l = (let t = strings_TrimLeft x blanks in if length t > 0 then t else x)"
    using assms(1) by (auto simp: strip_indent_def)
  with assms(2) have "l = strings_TrimLeft x blanks" "l \<noteq> []" by (auto simp: Let_def split: if_splits)
  then show ?thesis unfolding strings_TrimLeft_def by (metis hd_dropWhile)
qed

end
