(* ===== verification/Secure.thy ===== *)
theory Secure
  imports Filer Upgrade
begin

text \<open>
  Passwords and keys (src/secure): bcrypt hashes (bcrypt.go), Triple DES (des3.go), MD5 sums (md5.go) and SSH
  key pairs (ssh.go). The cryptographic routines are parameters.
\<close>

subsection \<open>bcrypt\<close>

text \<open>\<open>generate\<close> and \<open>compare1\<close> are \<open>GenerateFromPassword\<close> at the default cost and \<open>CompareHashAndPassword\<close>.\<close>

definition BcryptHash :: "(string \<Rightarrow> string go_result) \<Rightarrow> string \<Rightarrow> string go_result" where
  "BcryptHash generate password =
     (if password = [] then Inr []
      else case generate password of
             Inl err \<Rightarrow> Inl (Wrapf ''cannot hash the password'' err)
           | Inr hash \<Rightarrow> Inr hash)"

definition BcryptVerify :: "(string \<Rightarrow> string \<Rightarrow> go_error option) \<Rightarrow> string \<Rightarrow> string \<Rightarrow> bool" where
  "BcryptVerify compare1 password hashedPassword =
     (if hashedPassword = [] \<or> password = [] then hashedPassword = password
      else compare1 hashedPassword password = None)"

definition IsBcrypt :: "string \<Rightarrow> bool" where
  "IsBcrypt password \<longleftrightarrow>
     length password \<ge> 4 \<and> password ! 0 = CHR ''$'' \<and> password ! 1 = CHR ''2'' \<and> password ! 3 = CHR ''$''"

subsection \<open>Triple DES and MD5\<close>

text \<open>
  \<open>md5hex\<close> is the MD5 sum of a text in hexadecimal, 32 characters: 24 of them are the key, the rest is the
  initial vector. A key sum that is shorter would make the slice expression panic.
\<close>

definition des3_key :: "(string \<Rightarrow> string) \<Rightarrow> string \<Rightarrow> bytes \<times> bytes" where
  "des3_key md5hex p = (take 24 (md5hex p), drop 24 (md5hex p))"

definition Des3Encrypt :: "(string \<Rightarrow> string) \<Rightarrow> (bytes \<Rightarrow> bytes \<Rightarrow> bytes \<Rightarrow> bytes go_result) \<Rightarrow> string \<Rightarrow> string \<Rightarrow> string go_result" where
  "Des3Encrypt md5hex cbc_encrypt s p =
     (case des3_key md5hex p of
        (key, iv) \<Rightarrow> (case cbc_encrypt s key iv of Inr secret \<Rightarrow> Inr (hex_EncodeToString secret) | Inl err \<Rightarrow> Inl err))"

definition Des3Decrypt :: "(string \<Rightarrow> string) \<Rightarrow> (bytes \<Rightarrow> bytes \<Rightarrow> bytes \<Rightarrow> bytes go_result) \<Rightarrow> string \<Rightarrow> string \<Rightarrow> string go_result" where
  "Des3Decrypt md5hex cbc_decrypt s p =
     (case hex_DecodeString s of
        Inl err \<Rightarrow> Inl err
      | Inr sb \<Rightarrow> (case des3_key md5hex p of (key, iv) \<Rightarrow> cbc_decrypt sb key iv))"

definition MD5sum :: "(bytes \<Rightarrow> bytes) \<Rightarrow> string \<Rightarrow> string" where
  "MD5sum md5 s = hex_EncodeToString (md5 s)"

definition FileMD5sum :: "(bytes \<Rightarrow> bytes) \<Rightarrow> fs \<Rightarrow> string \<Rightarrow> string go_result" where
  "FileMD5sum md5 f path = (case os_ReadFile f path of Inl err \<Rightarrow> Inl err | Inr b \<Rightarrow> Inr (MD5sum md5 b))"

subsection \<open>SSH keys\<close>

text \<open>\<open>ssh_public\<close> is \<open>ssh.NewPublicKey\<close>, \<open>authorized\<close> the line it marshals to.\<close>

definition NewSSHPublicKey :: "('pub \<Rightarrow> 'sshpub go_result) \<Rightarrow> ('sshpub \<Rightarrow> bytes) \<Rightarrow> 'pub \<Rightarrow> bytes go_result" where
  "NewSSHPublicKey ssh_public authorized key = (case ssh_public key of Inl err \<Rightarrow> Inl err | Inr pk \<Rightarrow> Inr (authorized pk))"

definition NewSSHKeypair :: "'priv go_result \<Rightarrow> ('priv \<Rightarrow> bytes) \<Rightarrow> ('priv \<Rightarrow> 'pub) \<Rightarrow> ('pub \<Rightarrow> 'sshpub go_result) \<Rightarrow> ('sshpub \<Rightarrow> bytes)
    \<Rightarrow> (string \<times> string) go_result" where
  "NewSSHKeypair generated pem_rsa public_of ssh_public authorized =
     (case generated of
        Inl err \<Rightarrow> Inl err
      | Inr priv \<Rightarrow>
          (case NewSSHPublicKey ssh_public authorized (public_of priv) of
             Inl err \<Rightarrow> Inl err
           | Inr pubBytes \<Rightarrow> Inr (pem_rsa priv, pubBytes)))"

subsection \<open>Lemmas\<close>

text \<open>Decryption undoes encryption, for every cipher that does.\<close>

lemma Des3_roundtrip:
  assumes "\<forall>key iv s secret. cbc_encrypt s key iv = Inr secret \<longrightarrow> cbc_decrypt secret key iv = Inr s"
    and "Des3Encrypt md5hex cbc_encrypt s p = Inr c"
  shows "Des3Decrypt md5hex cbc_decrypt c p = Inr s"
proof -
  obtain key iv where k: "des3_key md5hex p = (key, iv)" by fastforce
  with assms(2) obtain secret where "cbc_encrypt s key iv = Inr secret" "c = hex_EncodeToString secret"
    by (auto simp: Des3Encrypt_def split: sum.splits)
  with assms(1) k show ?thesis by (simp add: Des3Decrypt_def hex_decode_encode)
qed

text \<open>
  A password verifies against its own hash, for every bcrypt whose comparison accepts what it generated: the
  empty password too, whose hash is empty. A password that is not empty never verifies against an empty hash.
\<close>

lemma Bcrypt_verifies:
  assumes "\<forall>p h. generate p = Inr h \<longrightarrow> h \<noteq> [] \<and> compare1 h p = None" and "BcryptHash generate p = Inr h"
  shows "BcryptVerify compare1 p h \<and> (q \<noteq> p \<longrightarrow> p = [] \<longrightarrow> \<not> BcryptVerify compare1 q h)"
  using assms by (auto simp: BcryptHash_def BcryptVerify_def split: if_splits sum.splits)

text \<open>The key and the vector are characters of a hexadecimal sum: 4 bits of each byte are used.\<close>

lemma des3_key_hex:
  assumes "\<forall>p. length (md5hex p) = 32"
  shows "length (fst (des3_key md5hex p)) = 24 \<and> length (snd (des3_key md5hex p)) = 8"
  using assms by (simp add: des3_key_def)

end
