(* ===== verification/Cloud.thy ===== *)
theory Cloud
  imports Request
begin

text \<open>
  The clients of three clouds (src/cloud): alibaba (client.go, endpoint.go), cloudflare (client.go) and
  tencent (client.go). The vendors' SDKs, the JSON decoder and mapstructure are parameters.
\<close>

subsection \<open>Alibaba\<close>

text \<open>A query is any value; the one the endpoint request is made with is a map of strings.\<close>

datatype 'v ali_query = NoQuery | StringMap "(string \<times> string) list" | AnyQuery 'v

record 'v ali_param =
  ap_Service :: string
  ap_Version :: string
  ap_Action :: string
  ap_Query :: "'v ali_query"
  ap_Payload :: "'v option"
  ap_RegionId :: string
  ap_Endpoint :: string
  ap_SecretId :: string
  ap_SecretKey :: string

record ali_config =
  ac_AccessKeyId :: string
  ac_AccessKeySecret :: string
  ac_RegionId :: string
  ac_Endpoint :: string

record 'v ali_call =
  al_config :: ali_config
  al_Action :: string
  al_Version :: string
  al_Protocol :: string
  al_Pathname :: string
  al_Method :: string
  al_AuthType :: string
  al_Style :: string
  al_ReqBodyType :: string
  al_BodyType :: string
  al_Body :: "'v option"
  al_Query :: "(string \<times> string) list option"

text \<open>
  The SDK: \<open>ae_Query\<close> flattens a query, \<open>ae_CallApi\<close> answers with the value under \<open>body\<close>, \<open>ae_SDKError\<close> is
  the decoding of an error: \<^const>\<open>None\<close> when it fails, then the message or nil. \<open>ae_Endpoints\<close> decodes the
  endpoints of a body.
\<close>

record ('v, 'b) ali_env =
  ae_Query :: "'v ali_query \<Rightarrow> (string \<times> string) list"
  ae_NewClient :: "ali_config \<Rightarrow> go_error option"
  ae_CallApi :: "'v ali_call \<Rightarrow> 'b go_result"
  ae_SDKError :: "go_error \<Rightarrow> string option option"
  ae_Endpoints :: "'b \<Rightarrow> string list go_result"
  ae_Lower :: "string \<Rightarrow> string"

definition ali_newClient :: "('v, 'b) ali_env \<Rightarrow> 'v ali_param \<Rightarrow> 'b go_result" where
  "ali_newClient env rq =
     (let config = \<lparr>ac_AccessKeyId = ap_SecretId rq, ac_AccessKeySecret = ap_SecretKey rq,
                    ac_RegionId = ap_RegionId rq, ac_Endpoint = ap_Endpoint rq\<rparr>
      in case ae_NewClient env config of
           Some err \<Rightarrow> Inl err
         | None \<Rightarrow> ae_CallApi env
             \<lparr>al_config = config, al_Action = ap_Action rq, al_Version = ap_Version rq, al_Protocol = ''HTTPS'',
              al_Pathname = ''/'', al_Method = ''POST'', al_AuthType = ''AK'', al_Style = ''RPC'',
              al_ReqBodyType = ''json'', al_BodyType = ''json'', al_Body = ap_Payload rq,
              al_Query = (case ap_Query rq of NoQuery \<Rightarrow> None | q \<Rightarrow> Some (ae_Query env q))\<rparr>)"

text \<open>
  The expression takes what is between the code and the last request id, when something follows that id; no
  part of it matches a line feed, and it is anchored at both ends.
\<close>

definition request_id_at :: "string \<Rightarrow> nat \<Rightarrow> bool" where
  "request_id_at r i \<longleftrightarrow> 1 \<le> i \<and> strings_HasPrefix (drop i r) '' request id'' \<and> i + 11 < length r"

definition ali_message :: "string \<Rightarrow> string" where
  "ali_message s =
     (let after = drop 6 s; r = drop 2 (dropWhile is_digit after);
          ends = filter (request_id_at r) [0..<length r]
      in if strings_HasPrefix s ''code: '' \<and> takeWhile is_digit after \<noteq> []
            \<and> strings_HasPrefix (dropWhile is_digit after) '', '' \<and> nl \<notin> set r \<and> ends \<noteq> []
         then take (last ends) r else s)"

definition ali_getSDKError :: "('v, 'b) ali_env \<Rightarrow> go_error \<Rightarrow> go_error" where
  "ali_getSDKError env e =
     (case ae_SDKError env e of
        None \<Rightarrow> e
      | Some None \<Rightarrow> e
      | Some (Some m) \<Rightarrow> Errorf (ali_message m))"

definition ali_requestEndpoint :: "('v, 'b) ali_env \<Rightarrow> 'v ali_param \<Rightarrow> string go_result" where
  "ali_requestEndpoint env rq =
     (case ali_newClient env
         \<lparr>ap_Service = [], ap_Version = ''2015-06-12'', ap_Action = ''DescribeEndpoints'',
          ap_Query = StringMap [(''Id'', ap_RegionId rq), (''ServiceCode'', strings_ToLower (ae_Lower env) (ap_Service rq)), (''Type'', ''openAPI'')],
          ap_Payload = None, ap_RegionId = [], ap_Endpoint = ''location-readonly.aliyuncs.com'',
          ap_SecretId = ap_SecretId rq, ap_SecretKey = ap_SecretKey rq\<rparr> of
        Inl err \<Rightarrow> Inl (ali_getSDKError env err)
      | Inr body \<Rightarrow>
          (case ae_Endpoints env body of
             Inl err \<Rightarrow> Inl err
           | Inr [] \<Rightarrow> Inl (Errorf ''solve endpoint failed'')
           | Inr (ep # _) \<Rightarrow> Inr ep))"

text \<open>The cache is a map from texts to texts, which reads as the empty text where it has no entry.\<close>

type_synonym ep_cache = "string \<Rightarrow> string"

definition ali_solveEndpoint :: "('v, 'b) ali_env \<Rightarrow> 'v ali_param \<Rightarrow> ep_cache \<Rightarrow> (string \<times> go_error option) \<times> ep_cache" where
  "ali_solveEndpoint env rq cache =
     (if ap_RegionId rq = [] then ((ap_Service rq @ ''.aliyuncs.com'', None), cache)
      else let key = ap_RegionId rq @ ap_Service rq
           in if cache key \<noteq> [] then ((cache key, None), cache)
              else case ali_requestEndpoint env rq of
                     Inl err \<Rightarrow> (([], Some err), cache)
                   | Inr ep \<Rightarrow>
                       (let cache1 = cache(key := ep)
                        in if cache1 key \<noteq> [] then ((cache1 key, None), cache1)
                           else (([], Some (Errorf ''solve endpoint failed'')), cache1)))"

text \<open>The request's endpoint is overwritten with the one that was found.\<close>

definition ali_Request :: "('v, 'b) ali_env \<Rightarrow> 'v ali_param \<Rightarrow> ep_cache \<Rightarrow> ('b option \<times> go_error option) \<times> 'v ali_param \<times> ep_cache" where
  "ali_Request env rq cache =
     (case ali_solveEndpoint env rq cache of
        ((ep, err), cache1) \<Rightarrow>
          if ep = [] then ((None, err), rq, cache1)
          else let rq1 = rq\<lparr>ap_Endpoint := ep\<rparr>
               in case ali_newClient env rq1 of
                    Inl e \<Rightarrow> ((None, Some (ali_getSDKError env e)), rq1, cache1)
                  | Inr body \<Rightarrow> ((Some body, None), rq1, cache1))"

subsection \<open>Cloudflare\<close>

record cf_param =
  cf_Token :: string
  cf_Method :: string
  cf_Path :: string
  cf_Query :: string
  cf_Payload :: bytes

record 'r cf_response =
  cr_Errors :: "string list"
  cr_Messages :: "string list"
  cr_Result :: 'r
  cr_Page :: int
  cr_PerPage :: int
  cr_Total :: int

record 'r cf_output =
  co_Datasets :: 'r
  co_Messages :: string

record cf_info =
  ci_Page :: int
  ci_PerPage :: int
  ci_Total :: int

text \<open>The output, with the paging where there is some.\<close>

definition cf_parseBody :: "(bytes \<Rightarrow> 'r cf_response go_result) \<Rightarrow> bytes \<Rightarrow> ('r cf_output \<times> cf_info option) option \<times> go_error option" where
  "cf_parseBody json_Unmarshal body =
     (case json_Unmarshal body of
        Inl err \<Rightarrow> (None, Some err)
      | Inr res \<Rightarrow>
          (let out = \<lparr>co_Datasets = cr_Result res, co_Messages = (case cr_Messages res of [] \<Rightarrow> [] | m # _ \<Rightarrow> m)\<rparr>;
               err = (case cr_Errors res of [] \<Rightarrow> None | m # _ \<Rightarrow> Some (Errorf m))
           in if cr_PerPage res = 0 then (Some (out, None), err)
              else (Some (out, Some \<lparr>ci_Page = cr_Page res, ci_PerPage = cr_PerPage res, ci_Total = cr_Total res\<rparr>), err)))"

definition cf_endpoint :: string where
  "cf_endpoint = ''https://api.cloudflare.com/client/v4''"

definition cf_client :: "cf_param \<Rightarrow> request_Client" where
  "cf_client rq =
     \<lparr>rc_Method = cf_Method rq,
      rc_Url = cf_endpoint @ cf_Path rq @ (if cf_Query rq \<noteq> [] then ''?'' @ cf_Query rq else []),
      rc_Data = cf_Payload rq,
      rc_Headers = [(''Content-Type'', ''application/json''), (''Authorization'', ''Bearer '' @ cf_Token rq)],
      rc_Timeout = 0\<rparr>"

definition cf_Request :: "(bytes \<Rightarrow> 'r cf_response go_result) \<Rightarrow> http_env \<Rightarrow> cf_param \<Rightarrow> ('r cf_output \<times> cf_info option) option \<times> go_error option" where
  "cf_Request json_Unmarshal env rq =
     (case fst (JsonRequest env (cf_client rq)) of
        (_, Some err) \<Rightarrow> (None, Some err)
      | (body, None) \<Rightarrow> cf_parseBody json_Unmarshal body)"

subsection \<open>Tencent\<close>

record 'v tc_param =
  tp_Service :: string
  tp_Version :: string
  tp_Action :: string
  tp_Payload :: "'v option"
  tp_Region :: string
  tp_Endpoint :: string
  tp_SecretId :: string
  tp_SecretKey :: string
  tp_Debug :: bool

text \<open>An empty endpoint leaves the choice to the SDK.\<close>

record tc_profile =
  cp_Debug :: bool
  cp_NetworkFailureMaxRetries :: nat
  cp_RateLimitExceededMaxRetries :: nat
  cp_DisableRegionBreaker :: bool
  cp_BackupEndpoint :: string
  cp_Endpoint :: string

record 'v tc_call =
  tl_profile :: tc_profile
  tl_Credential :: "string \<times> string"
  tl_Region :: string
  tl_Service :: string
  tl_Version :: string
  tl_Action :: string
  tl_Parameters :: "'v option"

definition tc_newClient :: "string \<Rightarrow> ('v tc_call \<Rightarrow> bytes go_result) \<Rightarrow> 'v tc_param \<Rightarrow> bytes go_result" where
  "tc_newClient root_domain send rq =
     send \<lparr>tl_profile = \<lparr>cp_Debug = tp_Debug rq, cp_NetworkFailureMaxRetries = 2, cp_RateLimitExceededMaxRetries = 2,
            cp_DisableRegionBreaker = False, cp_BackupEndpoint = ''ap-hongkong.'' @ root_domain,
            cp_Endpoint = (if tp_Endpoint rq \<noteq> [] then tp_Endpoint rq
              else if tp_Region rq \<noteq> [] \<and> \<not> strings_HasSuffix (tp_Region rq) ''-ec''
              then tp_Service rq @ ''.'' @ tp_Region rq @ ''.'' @ root_domain else [])\<rparr>,
          tl_Credential = (tp_SecretId rq, tp_SecretKey rq), tl_Region = tp_Region rq, tl_Service = tp_Service rq,
          tl_Version = tp_Version rq, tl_Action = tp_Action rq, tl_Parameters = tp_Payload rq\<rparr>"

text \<open>
  The expression \<open>[request id:...]\<close> extends to the last closing bracket of its line and has at least one
  character before it. \<open>id_length\<close> is the length of the match at the start of a text, 0 where there is none.
\<close>

definition id_length :: "string \<Rightarrow> nat" where
  "id_length s =
     (if strings_HasPrefix s ''[request id:''
      then let line = takeWhile (\<lambda>c. c \<noteq> nl) (drop 12 s); js = filter (\<lambda>j. line ! j = CHR '']'') [1..<length line]
           in if js = [] then 0 else 12 + last js + 1
      else 0)"

function remove_ids :: "string \<Rightarrow> string" where
  "remove_ids [] = []"
| "remove_ids (c # s) =
     (if id_length (c # s) = 0 then c # remove_ids s else remove_ids (drop (id_length (c # s)) (c # s)))"
  by pat_completeness auto
termination by (relation "measure length") auto

definition tc_getSDKError :: "(go_error \<Rightarrow> string option) \<Rightarrow> go_error \<Rightarrow> go_error" where
  "tc_getSDKError sdk_message e =
     (case sdk_message e of
        None \<Rightarrow> e
      | Some m \<Rightarrow> if m = [] then e else Errorf (hd (strings_Split nl (remove_ids m))))"

text \<open>\<open>json_Unmarshal\<close> takes the response out of a body.\<close>

definition tc_Request :: "string \<Rightarrow> ('v tc_call \<Rightarrow> bytes go_result) \<Rightarrow> (go_error \<Rightarrow> string option) \<Rightarrow> (bytes \<Rightarrow> 'r go_result)
    \<Rightarrow> 'v tc_param \<Rightarrow> 'r go_result" where
  "tc_Request root_domain send sdk_message json_Unmarshal rq =
     (case tc_newClient root_domain send rq of
        Inl err \<Rightarrow> Inl (tc_getSDKError sdk_message err)
      | Inr body \<Rightarrow> json_Unmarshal body)"

subsection \<open>Lemmas\<close>

text \<open>An endpoint that has been found is found again without a request, whatever the service answers then.\<close>

lemma solveEndpoint_cached:
  assumes "ali_solveEndpoint env rq cache = ((ep, None), cache1)"
  shows "ali_solveEndpoint env' rq cache1 = ((ep, None), cache1)"
  using assms by (auto simp: ali_solveEndpoint_def Let_def split: if_splits sum.splits)

text \<open>An endpoint comes without an error, and an error without an endpoint.\<close>

lemma solveEndpoint_error:
  assumes "ali_solveEndpoint env rq cache = ((ep, err), cache1)"
  shows "ep = [] \<longleftrightarrow> err \<noteq> None"
  using assms by (auto simp: ali_solveEndpoint_def Let_def split: if_splits sum.splits)

text \<open>An error leaves the entries that the cache has.\<close>

lemma solveEndpoint_keeps:
  assumes "ali_solveEndpoint env rq cache = ((ep, err), cache1)" and "cache k \<noteq> []"
  shows "cache1 k = cache k"
  using assms by (auto simp: ali_solveEndpoint_def Let_def split: if_splits sum.splits)

text \<open>The key runs the region and the service together: two services of two regions can share an entry.\<close>

lemma solveEndpoint_key_clash:
  assumes "ap_RegionId rq @ ap_Service rq = ap_RegionId rq' @ ap_Service rq'" "ap_RegionId rq \<noteq> []" "ap_RegionId rq' \<noteq> []"
    and "ali_solveEndpoint env rq cache = ((ep, None), cache1)"
  shows "ali_solveEndpoint env rq' cache1 = ((ep, None), cache1)"
  using assms by (auto simp: ali_solveEndpoint_def Let_def split: if_splits sum.splits)

text \<open>The endpoint that the caller asks for is not used.\<close>

lemma solveEndpoint_ignores: "ali_solveEndpoint env (rq\<lparr>ap_Endpoint := e\<rparr>) = ali_solveEndpoint env rq"
  by (simp add: ali_solveEndpoint_def ali_requestEndpoint_def fun_eq_iff Let_def cong: if_cong)

lemma ali_message_demo:
  "ali_message ''code: 404, no such zone request id: 1F'' = ''no such zone''"
  "ali_message ''throttled'' = ''throttled''"
  by code_simp+

lemma remove_ids_demo:
  "remove_ids ''bad [request id:4f] and more'' = ''bad  and more''"
  "remove_ids ''[request id:]'' = ''[request id:]''"
  by code_simp+

text \<open>A message has one line.\<close>

lemma tc_error_one_line: "sdk e = Some m \<Longrightarrow> m \<noteq> [] \<Longrightarrow> \<exists>t. tc_getSDKError sdk e = Errorf t \<and> nl \<notin> set t"
  by (simp add: tc_getSDKError_def Split_parts_no_sep [OF hd_in_set])

text \<open>The first error of a response is reported, together with what the response carries.\<close>

lemma cf_first_error:
  assumes "json body = Inr res" and "cr_Errors res = m # ms"
  shows "\<exists>out. cf_parseBody json body = (Some out, Some (Errorf m)) \<and> co_Datasets (fst out) = cr_Result res"
  using assms by (simp add: cf_parseBody_def Let_def)

text \<open>A request is sent with the JSON type and the token, whatever the method.\<close>

lemma cf_headers:
  "fst (JsonRequest env (cf_client rq)) = Client_Request env (cf_client rq)"
  by (simp add: JsonRequest_def default_type_def cf_client_def Let_def)

end
