(* ===== verification/Spec2Isabelle.thy ===== *)
theory Spec2Isabelle
  imports Fs_Clients Ttlcache Jsonl_Store Jsonl_Retain Jsonl_Reader Upgrade Etcd Etcd_Watch Websocket
    Webssh_Client Webssh_Session Webssh_Terminal Webssh_Sftp Webssh_Pool Webssh_Sftp_Ops
    Filer Archive Certify Command Httpd Request Psutil Gpu
    Relay Relay_Websocket Logman Strutil Secure Dborm Cloud
begin

text \<open>
  A verification library for libgo, a collection of Go packages under src/. The packages are mostly
  independent of each other: they meet where one calls another (upgrade and psutil call request, relay runs
  over websocket, webssh sessions read from websocket, dborm logs through logman, and almost everything uses
  the operating system). The theories follow the packages.

  \<^bold>\<open>How Go is modelled.\<close> A string and a byte slice are lists of bytes, so lengths are Go's. An error is a value
  of \<^typ>\<open>go_error\<close>, and a call that may fail returns a sum with the error on the left. A pointer that may be
  nil is an option; a run-time panic is an error value or, in the later theories, the result \<^const>\<open>None\<close>,
  as each theory says. A struct is a record, and a method that changes its receiver returns the receiver. An
  \<open>int\<close> is an integer, with its 64 bits written out where a conversion or a multiplication can leave them;
  \<open>uint64\<close> counters, random numbers and handles are words. A mutex makes the code under it one step;
  goroutines are interleaved steps, so a theorem about a run is about every order of them. Loops that may not
  end are partial functions whose missing result is \<^const>\<open>None\<close>, and the theorems on them give the result.

  \<^bold>\<open>The foundation.\<close>
  \<^item> \<open>Go_Prelude\<close>: errors, the used part of strings and strconv, lines, and the lemmas on them.
  \<^item> \<open>Go_Time\<close>: the calendar, dates as texts, time zones as offsets. Day numbers and dates are in order
    isomorphism, and the texts of dates compare as the dates do.
  \<^item> \<open>Go_Path\<close>: path/filepath on Unix. \<open>Go_OS\<close>: a file system of files, directories and symbolic links in
    which any system call can be made to fail; a path is followed through at most 40 links, after which the
    result is an error, as on the real system. \<open>Go_Tree\<close>: a locale of the properties of a file system that every
    system call keeps, interpreted for the environment of faults and for the invariant that the nodes form trees.
    \<open>Go_Glob\<close>: the patterns of \<open>filepath.Match\<close>, parsed and matched, and \<open>filepath.Glob\<close> over the file system.
  \<^item> \<open>Go_Steps\<close>: machines whose steps keep an invariant, a locale that the cache, the connection pool and the
    packages on the file system interpret, each with its own steps.
  \<^item> \<open>Go_Base64\<close>: the standard encoding and that decoding undoes it.

  \<^bold>\<open>Stores and caches.\<close>
  \<^item> \<open>Ttlcache\<close> (src/ttlcache/timed.go): the map with expiry. A locale states what an expiring map promises;
    it is interpreted on the cache. \<open>Get\<close> takes two critical sections: as steps they make up the operation when
    nothing comes between them, and a theorem shows what a writer between them loses.
  \<^item> \<open>Jsonl_Store\<close> (src/jsonl/store.go): the writer of one file per day with its buffer, worker, queue and
    ticker. A locale describes a log by days; it is interpreted on the synchronous writer and on the worker.
  \<^item> \<open>Jsonl_Retain\<close>, \<open>Jsonl_Reader\<close> (src/jsonl/retain.go, reader.go, filter.go): removing old days, and the
    scans over days, whose backward reading in chunks equals taking the last lines that pass.

  \<^bold>\<open>Networks.\<close>
  \<^item> \<open>Etcd\<close>, \<open>Etcd_Watch\<close> (src/etcd): the client with its token, retries and rotation of endpoints; a watch
    with its revisions and back-off.
  \<^item> \<open>Websocket\<close> (src/websocket): the byte stream over messages, client, server, origins, keep-alive.
  \<^item> \<open>Webssh_Client\<close>, \<open>Webssh_Session\<close> (src/webssh/ssh_client.go, session.go): a terminal over a web socket,
    with the reader that takes resize messages out of the input, and its teardown. \<open>Webssh_Terminal\<close> puts that
    reader on the connection of \<open>Websocket\<close>: the shell gets the messages however they are cut into reads, but a
    resize message that is cut does not work.
  \<^item> \<open>Webssh_Sftp\<close>, \<open>Webssh_Pool\<close>, \<open>Webssh_Sftp_Ops\<close> (src/webssh/sftp_client.go): the pool of connections as
    a machine whose steps are the critical sections, with a locale that keeps account of what is open, and the
    file operations over it.
  \<^item> \<open>Relay\<close> (src/relay): two copies and the function that waits for them, step by step, with reads and writes
    that may block until their endpoint is closed; data is neither changed nor reordered, and the bridge returns
    when one direction ends, because it closes both. Where neither direction can end, it waits.
    \<open>Relay_Websocket\<close> puts its copies on the reads and writes of \<open>Websocket\<close>: every run is a run of the bridge.
  \<^item> \<open>Request\<close>, \<open>Httpd\<close> (src/request, src/httpd): the HTTP client, server-sent events with a parser of them as
    the specification, static files, shutdown and recovery.
  \<^item> \<open>Certify\<close> (src/certify): certificates by ACME, with a trace of what was asked of the server and the DNS.
  \<^item> \<open>Cloud\<close> (src/cloud): the clients of three clouds, the endpoint cache, the messages of errors.

  \<^bold>\<open>The machine.\<close>
  \<^item> \<open>Filer\<close>, \<open>Archive\<close> (src/filer, src/archive): files and directories, zip and tar.gz on the file system.
  \<^item> \<open>Upgrade\<close> (src/upgrade): the check, the checksum and the replacement of the running binary, with what is
    on disk after each way it can fail.
  \<^item> \<open>Command\<close> (src/command): scripts, temporary files, line endings, timeouts.
  \<^item> \<open>Psutil\<close>, \<open>Gpu\<close> (src/psutil, src/gpu): statistics of the host and of the devices of four vendors.
  \<^item> \<open>Logman\<close> (src/logman, src/signal), \<open>Dborm\<close> (src/dborm), \<open>Secure\<close> (src/secure), \<open>Strutil\<close> (src/strutil):
    logging and the end of the process, database connections, passwords and keys, strings.
  \<^item> \<open>Fs_Clients\<close>: one call of any package that works on files is a step on the file system; what the locale of
    \<open>Go_Tree\<close> promises is shown for each of them, and so for every sequence of calls in any order.

  \<^bold>\<open>What the lemmas show.\<close> Every theory has the lemmas on each branch of its operations, and small evaluated
  cases, several of which document a case in which the code does not do what its comment says. The numbered
  properties are those a caller relies on: no line of a log is lost or read twice; an expired item is never
  returned; a failed update leaves the old binary or says that it could not; an entry is extracted only below
  the directory it is extracted to; a whole update installs the verified package or leaves the program alone; the pool neither leaks nor closes twice; a session is always torn down; DNS
  records are removed however an order ends; the bridge delivers and returns.

  \<^bold>\<open>Bounds.\<close> Following links has the fuel of one more than the limit of links, which is the system's own limit.
  Collecting the blocks of a PEM text has the fuel of one more than its length, and each block takes at least
  one byte. A pattern is globbed with the fuel of 10000 elements with meta characters, the library's own limit.
  The attempts of a request to etcd are counted by the code itself. All other recursion is on the
  data or has its measure proved.

  The environment of a file system says of each call whether it fails; a theorem that needs calls not to fail, a
  library to behave as documented, or a time zone to be regular says so in its text.

  \<^bold>\<open>Not modelled.\<close> Third-party code and the network are parameters: gorilla/websocket, x/crypto/ssh, sftp, ACME
  and DNS providers, gorm, gin, gopsutil, the cloud SDKs, JSON, YAML and gzip coders, cryptography, the start of
  processes. Memory is unbounded: a number of lines so large that the list for them cannot be allocated panics in
  \<open>tailLines\<close>, and gives all lines in the model. \<open>Unzip\<close> has the entries of its archive at once, while the program
  reads them as it goes, so an entry that replaces the archive itself is outside the model. Opening a file does
  not check permissions, beyond what the environment lets fail. What is logged on the way is left out except in logman and dborm. File names are bytes: a pattern's
  question mark stands for one byte, so a pattern against a name that is not ASCII is outside the model. Windows
  paths are not modelled; the branches that ask for Windows are. The lines of the sources that no definition
  translates are imports, comments, declarations of types without fields, and constants of third-party packages.
\<close>

end
